(* ===== verification/Prelude.thy ===== *)
theory Prelude
  imports Main "HOL-Library.Word"
begin

text \<open>
  Shared ground of the development: the machine types of the C++ sources, the
  byte-order helpers of src/src/crypto/common.h, the result type that carries every
  early return, C++ exception and failed assertion of the code, and the generic
  lemmas on lists, words and results that the component theories use.
\<close>

unbundle bit_operations_syntax

section \<open>Proof collections\<close>

named_theorems exec_simps \<open>rewrite rules for the result type\<close>
named_theorems wp_simps \<open>weakest preconditions of computations\<close>
named_theorems vec_simps \<open>rewrite rules for vector operations near the end of a list\<close>
named_theorems length_simps \<open>lengths of encoded byte strings\<close>

section \<open>Machine types\<close>

type_synonym byte = "8 word"
type_synonym u16 = "16 word"
type_synonym u32 = "32 word"
type_synonym u64 = "64 word"
type_synonym bytes = "byte list"

text \<open>
  Signed 64-bit quantities (\<open>int64_t\<close>, \<open>CAmount\<close>) are mathematical integers; the
  places where the code relies on their range say so with these bounds.
\<close>

abbreviation INT64_MAX :: int where
  "INT64_MAX \<equiv> 2 ^ 63 - 1"

abbreviation INT64_MIN :: int where
  "INT64_MIN \<equiv> - (2 ^ 63)"

abbreviation INT_MAX :: int where
  "INT_MAX \<equiv> 2 ^ 31 - 1"

abbreviation INT_MIN :: int where
  "INT_MIN \<equiv> - (2 ^ 31)"

definition in_int64 :: "int \<Rightarrow> bool" where
  "in_int64 n \<longleftrightarrow> INT64_MIN \<le> n \<and> n \<le> INT64_MAX"

text \<open>Integer division of C++ truncates towards zero.\<close>

definition cdiv :: "int \<Rightarrow> int \<Rightarrow> int" where
  "cdiv a b = sgn a * sgn b * (\<bar>a\<bar> div \<bar>b\<bar>)"

lemma cdiv_nonneg [simp]: "0 \<le> a \<Longrightarrow> 0 < b \<Longrightarrow> cdiv a b = a div b"
  by (cases "a = 0") (auto simp: cdiv_def)

lemma cdiv_neg: "a < 0 \<Longrightarrow> 0 < b \<Longrightarrow> cdiv a b = - ((- a) div b)"
  by (simp add: cdiv_def)

section \<open>Results: early return, exception, failed assertion\<close>

text \<open>
  \<open>Fail e\<close> is a return of the function with the error \<open>e\<close>, \<open>Throw\<close> a C++ exception
  that a caller may catch, \<open>Abort\<close> a failed \<open>assert\<close>, which ends the process and
  which nothing catches.
\<close>

datatype 'e failure = Fail 'e | Throw | Abort

type_synonym ('e, 'a) exec = "'e failure + 'a"

definition exec_bind :: "('e, 'a) exec \<Rightarrow> ('a \<Rightarrow> ('e, 'b) exec) \<Rightarrow> ('e, 'b) exec" where
  "exec_bind m f = (case m of Inl e \<Rightarrow> Inl e | Inr x \<Rightarrow> f x)"

definition exec_assert :: "bool \<Rightarrow> ('e, unit) exec" where
  "exec_assert b = (if b then Inr () else Inl Abort)"

lemma exec_bind_simps [simp, exec_simps]:
  "exec_bind (Inl e) f = Inl e"
  "exec_bind (Inr x) f = f x"
  by (simp_all add: exec_bind_def)

lemma exec_bind_cong [fundef_cong]:
  "m = m' \<Longrightarrow> (\<And>x. m' = Inr x \<Longrightarrow> f x = g x) \<Longrightarrow> exec_bind m f = exec_bind m' g"
  by (cases m') auto

lemma exec_bind_Inr_iff [exec_simps]:
  "exec_bind m f = Inr y \<longleftrightarrow> (\<exists>x. m = Inr x \<and> f x = Inr y)"
  by (cases m) (auto simp: exec_bind_def)

lemma exec_bind_Inl_iff:
  "exec_bind m f = Inl e \<longleftrightarrow> m = Inl e \<or> (\<exists>x. m = Inr x \<and> f x = Inl e)"
  by (cases m) (auto simp: exec_bind_def)

lemma exec_bind_InrE [elim]:
  assumes "exec_bind m f = Inr y"
  obtains x where "m = Inr x" and "f x = Inr y"
  using assms by (auto simp: exec_bind_Inr_iff)

lemma exec_bind_not_Abort:
  "m \<noteq> Inl Abort \<Longrightarrow> (\<And>x. m = Inr x \<Longrightarrow> f x \<noteq> Inl Abort) \<Longrightarrow> exec_bind m f \<noteq> Inl Abort"
  by (cases m) auto

lemma exec_assert_simps [simp, exec_simps]:
  "exec_assert True = Inr ()"
  "exec_assert False = Inl Abort"
  "exec_assert b = Inr u \<longleftrightarrow> b"
  by (simp_all add: exec_assert_def)

section \<open>Postconditions of computations\<close>

text \<open>\<open>exec_all P m\<close>: \<open>m\<close> does not fail an assertion, and if it returns a result then \<open>P\<close>
  holds of it. The rules compute the weakest precondition of a computation.\<close>

definition exec_all :: "('a \<Rightarrow> bool) \<Rightarrow> ('e, 'a) exec \<Rightarrow> bool" where
  "exec_all P m = (case m of Inr x \<Rightarrow> P x | Inl e \<Rightarrow> e \<noteq> Abort)"

lemma exec_all_simps [wp_simps]:
  "exec_all P (Inr x) = P x"
  "exec_all P (Inl (Fail e)) = True"
  "exec_all P (Inl Throw) = True"
  "exec_all P (Inl Abort) = False"
  "exec_all P (exec_bind n f) = exec_all (\<lambda>y. exec_all P (f y)) n"
  "exec_all P (if b then m else m') = (if b then exec_all P m else exec_all P m')"
  by (auto simp: exec_all_def exec_bind_def split: sum.splits)

lemma exec_all_iff: "exec_all P m \<longleftrightarrow> m \<noteq> Inl Abort \<and> (\<forall>x. m = Inr x \<longrightarrow> P x)"
  by (auto simp: exec_all_def split: sum.splits)

lemma exec_all_mono: "exec_all P m \<Longrightarrow> (\<And>x. P x \<Longrightarrow> Q x) \<Longrightarrow> exec_all Q m"
  by (auto simp: exec_all_iff)

lemma if_boolI: "(b \<Longrightarrow> P) \<Longrightarrow> (\<not> b \<Longrightarrow> Q) \<Longrightarrow> (if b then P else Q)"
  by simp

section \<open>Byte order\<close>

text \<open>
  \<open>le_nat\<close> reads a byte string as a little-endian number; \<open>nat_le k n\<close> writes the low
  \<open>k\<close> bytes of \<open>n\<close>.
\<close>

fun le_nat :: "bytes \<Rightarrow> nat" where
  "le_nat [] = 0"
| "le_nat (b # bs) = unat b + 256 * le_nat bs"

fun nat_le :: "nat \<Rightarrow> nat \<Rightarrow> bytes" where
  "nat_le 0 n = []"
| "nat_le (Suc k) n = of_nat (n mod 256) # nat_le k (n div 256)"

lemma unat_byte_less [simp]: "unat (b :: byte) < 256"
  using unsigned_less [of b, where ?'a = nat] by simp

lemma unat_of_nat_byte: "unat (of_nat n :: byte) = n mod 256"
  by (simp add: unat_of_nat)

lemma byte_of_nat_unat_mod [simp]: "(of_nat (unat b mod 256) :: byte) = b"
  by simp

lemma length_nat_le [simp, length_simps]: "length (nat_le k n) = k"
  by (induction k arbitrary: n) auto

lemma le_nat_less: "le_nat bs < 256 ^ length bs"
proof (induction bs)
  case Nil
  then show ?case by simp
next
  case (Cons b bs)
  have "unat b + 256 * le_nat bs < 256 + 256 * le_nat bs" by simp
  also have "\<dots> \<le> 256 * 256 ^ length bs" using Cons by simp
  finally show ?case by simp
qed

lemma le_nat_nat_le: "le_nat (nat_le k n) = n mod 256 ^ k"
proof (induction k arbitrary: n)
  case 0
  then show ?case by simp
next
  case (Suc k)
  have "le_nat (nat_le (Suc k) n) = n mod 256 + 256 * (n div 256 mod 256 ^ k)"
    using Suc by (simp add: unat_of_nat_byte)
  also have "\<dots> = n mod (256 * 256 ^ k)"
    by (simp add: mod_mult2_eq)
  finally show ?case by simp
qed

lemma nat_le_le_nat: "nat_le (length bs) (le_nat bs) = bs"
proof (induction bs)
  case (Cons b bs)
  have "(unat b + 256 * le_nat bs) div 256 = le_nat bs" by simp
  moreover have "(unat b + 256 * le_nat bs) mod 256 = unat b" by simp
  ultimately show ?case using Cons by simp
qed simp

lemma le_nat_append: "le_nat (xs @ ys) = le_nat xs + 256 ^ length xs * le_nat ys"
  by (induction xs) (auto simp: algebra_simps)

lemma le_nat_inj: "length xs = length ys \<Longrightarrow> le_nat xs = le_nat ys \<Longrightarrow> xs = ys"
  by (metis nat_le_le_nat)

definition ReadLE16 :: "bytes \<Rightarrow> u16" where
  "ReadLE16 p = of_nat (le_nat (take 2 p))"

definition ReadLE32 :: "bytes \<Rightarrow> u32" where
  "ReadLE32 p = of_nat (le_nat (take 4 p))"

definition ReadLE64 :: "bytes \<Rightarrow> u64" where
  "ReadLE64 p = of_nat (le_nat (take 8 p))"

definition WriteLE16 :: "u16 \<Rightarrow> bytes" where
  "WriteLE16 x = nat_le 2 (unat x)"

definition WriteLE32 :: "u32 \<Rightarrow> bytes" where
  "WriteLE32 x = nat_le 4 (unat x)"

definition WriteLE64 :: "u64 \<Rightarrow> bytes" where
  "WriteLE64 x = nat_le 8 (unat x)"

definition ReadBE32 :: "bytes \<Rightarrow> u32" where
  "ReadBE32 p = of_nat (le_nat (rev (take 4 p)))"

definition ReadBE64 :: "bytes \<Rightarrow> u64" where
  "ReadBE64 p = of_nat (le_nat (rev (take 8 p)))"

definition WriteBE32 :: "u32 \<Rightarrow> bytes" where
  "WriteBE32 x = rev (nat_le 4 (unat x))"

definition WriteBE64 :: "u64 \<Rightarrow> bytes" where
  "WriteBE64 x = rev (nat_le 8 (unat x))"

lemma length_Write [simp, length_simps]:
  "length (WriteLE16 x16) = 2"
  "length (WriteLE32 x32) = 4"
  "length (WriteLE64 x64) = 8"
  "length (WriteBE32 x32) = 4"
  "length (WriteBE64 x64) = 8"
  by (simp_all add: WriteLE16_def WriteLE32_def WriteLE64_def WriteBE32_def WriteBE64_def)

lemma Read_Write:
  "ReadLE16 (WriteLE16 x16 @ r) = x16"
  "ReadLE32 (WriteLE32 x32 @ r) = x32"
  "ReadLE64 (WriteLE64 x64 @ r) = x64"
  "ReadBE32 (WriteBE32 x32 @ r) = x32"
  "ReadBE64 (WriteBE64 x64 @ r) = x64"
proof -
  have "unat x16 < 2 ^ 16" "unat x32 < 2 ^ 32" "unat x64 < 2 ^ 64"
    using unsigned_less [of x16, where ?'a = nat] unsigned_less [of x32, where ?'a = nat]
      unsigned_less [of x64, where ?'a = nat] by simp_all
  then have b: "unat x16 mod 65536 = unat x16" "unat x32 mod 4294967296 = unat x32"
    "unat x64 mod 18446744073709551616 = unat x64"
    by simp_all
  show "ReadLE16 (WriteLE16 x16 @ r) = x16"
    "ReadLE32 (WriteLE32 x32 @ r) = x32"
    "ReadLE64 (WriteLE64 x64 @ r) = x64"
    "ReadBE32 (WriteBE32 x32 @ r) = x32"
    "ReadBE64 (WriteBE64 x64 @ r) = x64"
    by (simp_all add: ReadLE16_def ReadLE32_def ReadLE64_def ReadBE32_def ReadBE64_def
        WriteLE16_def WriteLE32_def WriteLE64_def WriteBE32_def WriteBE64_def
        le_nat_nat_le b)
qed

lemma Write_Read:
  "length p = 4 \<Longrightarrow> WriteLE32 (ReadLE32 p) = p"
  "length p = 8 \<Longrightarrow> WriteLE64 (ReadLE64 p) = p"
proof -
  assume l: "length p = 4"
  with le_nat_less [of p] have "le_nat p < 2 ^ 32" by simp
  then have "unat (of_nat (le_nat p) :: u32) = le_nat p"
    by (simp add: unat_of_nat)
  with l show "WriteLE32 (ReadLE32 p) = p"
    using nat_le_le_nat [of p] by (simp add: WriteLE32_def ReadLE32_def)
next
  assume l: "length p = 8"
  with le_nat_less [of p] have "le_nat p < 2 ^ 64" by simp
  then have "unat (of_nat (le_nat p) :: u64) = le_nat p"
    by (simp add: unat_of_nat)
  with l show "WriteLE64 (ReadLE64 p) = p"
    using nat_le_le_nat [of p] by (simp add: WriteLE64_def ReadLE64_def)
qed

section \<open>Shifts of words on numbers\<close>

lemma unat_push_bit: "unat (push_bit k (w :: 'a :: len word)) = (unat w * 2 ^ k) mod 2 ^ LENGTH('a)"
proof -
  have "unat (push_bit k w) = take_bit LENGTH('a) (push_bit k (unat w))"
    by (simp only: unsigned_push_bit_eq)
  then show ?thesis by (simp only: take_bit_eq_mod push_bit_eq_mult)
qed

lemma unat_drop_bit: "unat (drop_bit k (w :: 'a :: len word)) = unat w div 2 ^ k"
  by (simp add: unsigned_drop_bit_eq take_bit_nat_eq_self flip: drop_bit_eq_div)

section \<open>Vectors\<close>

text \<open>
  A \<open>std::vector\<close> is a list in the same order (its back is the last element).
  \<open>vec_at\<close> is \<open>at()\<close>, which throws \<open>std::out_of_range\<close>; \<open>vec_erase\<close> removes the
  elements of an index range, \<open>vec_insert\<close> inserts before an index.
\<close>

definition vec_at :: "'a list \<Rightarrow> int \<Rightarrow> ('e, 'a) exec" where
  "vec_at xs i = (if 0 \<le> i \<and> i < int (length xs) then Inr (xs ! nat i) else Inl Throw)"

text \<open>
  \<open>operator[]\<close> of a vector has no bounds check; reading outside the vector is
  undefined behaviour, which the model makes visible as \<open>Abort\<close>.
\<close>

definition vec_get :: "'a list \<Rightarrow> nat \<Rightarrow> ('e, 'a) exec" where
  "vec_get xs i = (if i < length xs then Inr (xs ! i) else Inl Abort)"

lemma vec_get_nth [simp]: "i < length xs \<Longrightarrow> vec_get xs i = Inr (xs ! i)"
  by (simp add: vec_get_def)

definition vec_erase :: "'a list \<Rightarrow> nat \<Rightarrow> nat \<Rightarrow> 'a list" where
  "vec_erase xs i j = take i xs @ drop j xs"

definition vec_insert :: "'a list \<Rightarrow> nat \<Rightarrow> 'a \<Rightarrow> 'a list" where
  "vec_insert xs i x = take i xs @ x # drop i xs"

definition vec_swap :: "'a list \<Rightarrow> nat \<Rightarrow> nat \<Rightarrow> 'a list" where
  "vec_swap xs i j = xs[i := xs ! j, j := xs ! i]"

lemma length_vec_ops [simp, length_simps]:
  "i \<le> j \<Longrightarrow> j \<le> length xs \<Longrightarrow> length (vec_erase xs i j) = length xs - (j - i)"
  "length (vec_insert xs i x) = Suc (length xs)"
  "length (vec_swap xs i j) = length xs"
  by (auto simp: vec_erase_def vec_insert_def vec_swap_def)

lemma set_vec_ops:
  "set (vec_erase xs i j) \<subseteq> set xs"
  "set (vec_insert xs i x) = insert x (set xs)"
  "i < length xs \<Longrightarrow> j < length xs \<Longrightarrow> set (vec_swap xs i j) = set xs"
proof -
  show "set (vec_erase xs i j) \<subseteq> set xs"
    by (auto simp: vec_erase_def dest: in_set_takeD in_set_dropD)
  have "set (take i xs) \<union> set (drop i xs) = set xs"
    by (metis append_take_drop_id set_append)
  then show "set (vec_insert xs i x) = insert x (set xs)"
    by (simp add: vec_insert_def)
  show "i < length xs \<Longrightarrow> j < length xs \<Longrightarrow> set (vec_swap xs i j) = set xs"
    unfolding vec_swap_def by (rule set_swap)
qed

lemma vec_at_simps [vec_simps]:
  "vec_at xs i = Inr x \<longleftrightarrow> 0 \<le> i \<and> i < int (length xs) \<and> x = xs ! nat i"
  "vec_at xs i \<noteq> Inl Abort"
  "vec_at xs i \<noteq> Inl (Fail e)"
  by (auto simp: vec_at_def)

lemma butlast_snoc_ex: "xs \<noteq> [] \<Longrightarrow> \<exists>ys y. xs = ys @ [y]"
  by (metis append_butlast_last_id)

end
