(* ===== verification/Serialize.thy ===== *)
theory Serialize
  imports Prelude
begin

text \<open>
  The serialization framework of src/src/serialize.h over the byte streams of
  src/src/streams.h. A stream that is read is the list of its remaining bytes; a read past the
  end throws. Every serializable type has a writer \<open>ser_...\<close> and a reader \<open>unser_...\<close>, as
  the two instances of the \<open>SerializationOp\<close> template of its class. The locale \<open>codec\<close> is the
  contract between the two: what is written is read back, and the bytes that are read are the
  only encoding of the value. The combinators for vectors, optionals and pairs keep it.
\<close>

section \<open>Streams and fixed-width values\<close>

type_synonym ('e, 'a) reader = "bytes \<Rightarrow> ('e, 'a \<times> bytes) exec"

definition stream_read :: "nat \<Rightarrow> ('e, bytes) reader" where
  "stream_read nSize vch =
     (if length vch < nSize then Inl Throw else Inr (take nSize vch, drop nSize vch))"

definition ser_writedata8 :: "byte \<Rightarrow> bytes" where
  "ser_writedata8 obj = [obj]"

definition ser_readdata8 :: "('e, byte) reader" where
  "ser_readdata8 s = exec_bind (stream_read 1 s) (\<lambda>(p, s). Inr (hd p, s))"

definition ser_readdata16 :: "('e, u16) reader" where
  "ser_readdata16 s = exec_bind (stream_read 2 s) (\<lambda>(p, s). Inr (ReadLE16 p, s))"

definition ser_readdata32 :: "('e, u32) reader" where
  "ser_readdata32 s = exec_bind (stream_read 4 s) (\<lambda>(p, s). Inr (ReadLE32 p, s))"

definition ser_readdata32be :: "('e, u32) reader" where
  "ser_readdata32be s = exec_bind (stream_read 4 s) (\<lambda>(p, s). Inr (ReadBE32 p, s))"

definition ser_readdata64 :: "('e, u64) reader" where
  "ser_readdata64 s = exec_bind (stream_read 8 s) (\<lambda>(p, s). Inr (ReadLE64 p, s))"

text \<open>The signed types are written as the unsigned type of the same width.\<close>

definition ser_int32 :: "int \<Rightarrow> bytes" where
  "ser_int32 a = WriteLE32 (word_of_int a)"

definition unser_int32 :: "('e, int) reader" where
  "unser_int32 s = exec_bind (ser_readdata32 s) (\<lambda>(x, s). Inr (sint x, s))"

definition ser_int64 :: "int \<Rightarrow> bytes" where
  "ser_int64 a = WriteLE64 (word_of_int a)"

definition unser_int64 :: "('e, int) reader" where
  "unser_int64 s = exec_bind (ser_readdata64 s) (\<lambda>(x, s). Inr (sint x, s))"

definition ser_bool :: "bool \<Rightarrow> bytes" where
  "ser_bool a = ser_writedata8 (if a then 1 else 0)"

definition unser_bool :: "('e, bool) reader" where
  "unser_bool s = exec_bind (ser_readdata8 s) (\<lambda>(f, s). Inr (f \<noteq> 0, s))"

section \<open>Compact sizes\<close>

definition MAX_SIZE :: nat where
  "MAX_SIZE = 0x02000000"

definition GetSizeOfCompactSize :: "u64 \<Rightarrow> nat" where
  "GetSizeOfCompactSize nSize =
     (if nSize < 253 then 1 else if nSize \<le> 0xFFFF then 3 else if nSize \<le> 0xFFFFFFFF then 5 else 9)"

definition WriteCompactSize :: "u64 \<Rightarrow> bytes" where
  "WriteCompactSize nSize =
     (if nSize < 253 then ser_writedata8 (ucast nSize)
      else if nSize \<le> 0xFFFF then ser_writedata8 253 @ WriteLE16 (ucast nSize)
      else if nSize \<le> 0xFFFFFFFF then ser_writedata8 254 @ WriteLE32 (ucast nSize)
      else ser_writedata8 255 @ WriteLE64 nSize)"

definition ReadCompactSize :: "('e, u64) reader" where
  "ReadCompactSize s =
     exec_bind (ser_readdata8 s) (\<lambda>(chSize, s).
     exec_bind
       (if chSize < 253 then Inr (ucast chSize, s)
        else if chSize = 253 then
          exec_bind (ser_readdata16 s) (\<lambda>(x, s). if x < 253 then Inl Throw else Inr (ucast x, s))
        else if chSize = 254 then
          exec_bind (ser_readdata32 s) (\<lambda>(x, s). if x < 0x10000 then Inl Throw else Inr (ucast x, s))
        else
          exec_bind (ser_readdata64 s) (\<lambda>(x, s). if x < 0x100000000 then Inl Throw else Inr (x, s)))
       (\<lambda>(nSizeRet, s). if of_nat MAX_SIZE < nSizeRet then Inl Throw else Inr (nSizeRet, s)))"

section \<open>Variable-length integers\<close>

text \<open>
  The digits of \<open>tmp\<close> in the order in which they are stored, least significant first; the
  writer then emits them in reverse. \<open>fLen\<close> is the test \<open>len != 0\<close>. The loops end because the
  number shrinks with every digit.
\<close>

lemma varint_continue: "\<not> n \<le> 0x7F \<Longrightarrow> 128 \<le> unat n" for n :: "'a :: len word"
proof -
  assume "\<not> n \<le> 0x7F"
  then have n: "127 mod 2 ^ LENGTH('a) < unat n"
    by (simp add: word_le_nat_alt unsigned_numeral take_bit_eq_mod not_le)
  have "\<not> LENGTH('a) \<le> 6"
  proof
    assume "LENGTH('a) \<le> 6"
    then consider "LENGTH('a) = 1" | "LENGTH('a) = 2" | "LENGTH('a) = 3" | "LENGTH('a) = 4" |
      "LENGTH('a) = 5" | "LENGTH('a) = 6"
      using len_gt_0 [where 'a = 'a] by linarith
    then show False using n unsigned_less [of n, where ?'a = nat] by cases auto
  qed
  then have "(2 :: nat) ^ 7 \<le> 2 ^ LENGTH('a)" by (intro power_increasing) auto
  with n show ?thesis by simp
qed

lemma varint_next: "\<not> n \<le> 0x7F \<Longrightarrow> unat (drop_bit 7 n - 1) = unat n div 128 - 1" for n :: "'a :: len word"
proof -
  assume "\<not> n \<le> 0x7F"
  then have "128 \<le> unat n" by (rule varint_continue)
  moreover have d: "unat (drop_bit 7 n) = unat n div 128"
    by (simp only: unat_drop_bit) simp
  ultimately have "1 \<le> drop_bit 7 n" by (simp add: word_le_nat_alt)
  then show ?thesis using d by (simp add: unat_sub)
qed

lemma varint_next_less: "\<not> n \<le> 0x7F \<Longrightarrow> unat (drop_bit 7 n - 1) < unat n" for n :: "'a :: len word"
  using varint_continue [of n] by (simp add: varint_next)

function varint_tmp :: "bool \<Rightarrow> 'a :: len word \<Rightarrow> bytes" where
  "varint_tmp fLen n =
     (let c = ucast (n AND 0x7F) OR (if fLen then 0x80 else 0) in
      if n \<le> 0x7F then [c] else c # varint_tmp True (drop_bit 7 n - 1))"
  by auto
termination
  by (relation "measure (\<lambda>(_, n). unat n)") (auto simp: varint_next_less)

definition WriteVarInt :: "'a :: len word \<Rightarrow> bytes" where
  "WriteVarInt n = rev (varint_tmp False n)"

function GetSizeOfVarInt :: "'a :: len word \<Rightarrow> nat" where
  "GetSizeOfVarInt n = (if n \<le> 0x7F then 1 else Suc (GetSizeOfVarInt (drop_bit 7 n - 1)))"
  by auto
termination
  by (relation "measure unat") (auto simp: varint_next_less)

declare varint_tmp.simps [simp del] GetSizeOfVarInt.simps [simp del]

fun ReadVarInt_loop :: "'a :: len word \<Rightarrow> ('e, 'a word) reader" where
  "ReadVarInt_loop n [] = Inl Throw"
| "ReadVarInt_loop n (chData # s) =
     (let n = push_bit 7 n OR ucast (chData AND 0x7F)
      in if chData AND 0x80 \<noteq> 0 then ReadVarInt_loop (n + 1) s else Inr (n, s))"

definition ReadVarInt :: "('e, 'a :: len word) reader" where
  "ReadVarInt s = ReadVarInt_loop 0 s"

section \<open>Vectors, strings, optionals and pairs\<close>

text \<open>
  A vector of bytes is read in blocks of at most five million, so that a bogus size does not
  allocate memory before the data is there.
\<close>

definition READ_BLOCK :: nat where
  "READ_BLOCK = 1 + 4999999"

function read_blocks :: "nat \<Rightarrow> ('e, bytes) reader" where
  "read_blocks nSize s =
     (if nSize = 0 then Inr ([], s)
      else let blk = min nSize READ_BLOCK in
        exec_bind (stream_read blk s) (\<lambda>(v, s).
        exec_bind (read_blocks (nSize - blk) s) (\<lambda>(w, s). Inr (v @ w, s))))"
  by auto
termination
  by (relation "measure fst") (auto simp: READ_BLOCK_def)

declare read_blocks.simps [simp del]

definition ser_bytes :: "bytes \<Rightarrow> bytes" where
  "ser_bytes v = WriteCompactSize (of_nat (length v)) @ v"

definition unser_bytes :: "('e, bytes) reader" where
  "unser_bytes s = exec_bind (ReadCompactSize s) (\<lambda>(nSize, s). read_blocks (unat nSize) s)"

definition ser_blob :: "bytes \<Rightarrow> bytes" where
  "ser_blob data = data"

definition unser_blob :: "nat \<Rightarrow> ('e, bytes) reader" where
  "unser_blob width s = stream_read width s"

definition unser_limited_string :: "nat \<Rightarrow> ('e, bytes) reader" where
  "unser_limited_string Limit s =
     exec_bind (ReadCompactSize s) (\<lambda>(size, s).
       if Limit < unat size then Inl Throw else stream_read (unat size) s)"

definition ser_many :: "('a \<Rightarrow> bytes) \<Rightarrow> 'a list \<Rightarrow> bytes" where
  "ser_many ser v = concat (map ser v)"

primrec unser_many :: "('e, 'a) reader \<Rightarrow> nat \<Rightarrow> ('e, 'a list) reader" where
  "unser_many unser 0 s = Inr ([], s)"
| "unser_many unser (Suc n) s =
     exec_bind (unser s) (\<lambda>(x, s).
     exec_bind (unser_many unser n s) (\<lambda>(xs, s). Inr (x # xs, s)))"

definition ser_vector :: "('a \<Rightarrow> bytes) \<Rightarrow> 'a list \<Rightarrow> bytes" where
  "ser_vector ser v = WriteCompactSize (of_nat (length v)) @ ser_many ser v"

definition unser_vector :: "('e, 'a) reader \<Rightarrow> ('e, 'a list) reader" where
  "unser_vector unser s =
     exec_bind (ReadCompactSize s) (\<lambda>(nSize, s). unser_many unser (unat nSize) s)"

definition ser_optional :: "('a \<Rightarrow> bytes) \<Rightarrow> 'a option \<Rightarrow> bytes" where
  "ser_optional ser item =
     (case item of Some x \<Rightarrow> ser_writedata8 0x01 @ ser x | None \<Rightarrow> ser_writedata8 0x00)"

definition unser_optional :: "('e, 'a) reader \<Rightarrow> ('e, 'a option) reader" where
  "unser_optional unser s =
     exec_bind (ser_readdata8 s) (\<lambda>(discriminant, s).
       if discriminant = 0x00 then Inr (None, s)
       else if discriminant = 0x01 then exec_bind (unser s) (\<lambda>(x, s). Inr (Some x, s))
       else Inl Throw)"

definition ser_pair :: "('a \<Rightarrow> bytes) \<Rightarrow> ('b \<Rightarrow> bytes) \<Rightarrow> 'a \<times> 'b \<Rightarrow> bytes" where
  "ser_pair ser1 ser2 item = ser1 (fst item) @ ser2 (snd item)"

definition unser_pair :: "('e, 'a) reader \<Rightarrow> ('e, 'b) reader \<Rightarrow> ('e, 'a \<times> 'b) reader" where
  "unser_pair unser1 unser2 s =
     exec_bind (unser1 s) (\<lambda>(x, s). exec_bind (unser2 s) (\<lambda>(y, s). Inr ((x, y), s)))"

section \<open>Variable-length integers round trip\<close>

lemma mask7: "(0x7F :: 'a :: len word) = mask 7"
  by (simp add: mask_eq_exp_minus_1)

lemma varint_digit:
  fixes n :: "'a :: len word" and f :: bool
  defines "c \<equiv> ucast (n AND 0x7F) OR (if f then 0x80 else 0 :: byte)"
  shows "ucast (c AND 0x7F) = n AND 0x7F" "c AND 0x80 \<noteq> 0 \<longleftrightarrow> f"
proof -
  have b80: "bit (0x80 :: byte) i \<longleftrightarrow> i = 7" for i
  proof -
    have "(0x80 :: byte) = 2 ^ 7" by simp
    then show ?thesis by (simp only: bit_exp_iff possible_bit_word) auto
  qed
  have cb: "bit c i \<longleftrightarrow> i < 7 \<and> bit n i \<or> f \<and> i = 7" for i
  proof -
    have "bit c i \<longleftrightarrow> bit (ucast (n AND 0x7F) :: byte) i \<or> f \<and> bit (0x80 :: byte) i"
      by (simp add: c_def bit_or_iff)
    also have "\<dots> \<longleftrightarrow> bit (ucast (n AND 0x7F) :: byte) i \<or> f \<and> i = 7" by (simp only: b80)
    also have "bit (ucast (n AND 0x7F) :: byte) i \<longleftrightarrow> i < 7 \<and> bit n i"
      by (auto simp: mask7 bit_ucast_iff bit_and_iff bit_mask_iff dest: bit_imp_le_length)
    finally show ?thesis .
  qed
  show "ucast (c AND 0x7F) = n AND 0x7F"
    by (rule bit_eqI) (auto simp: bit_ucast_iff bit_and_iff cb mask7 bit_mask_iff)
  show "c AND 0x80 \<noteq> 0 \<longleftrightarrow> f"
  proof -
    have "c AND 0x80 \<noteq> 0 \<longleftrightarrow> bit c 7"
      using and_exp_eq_0_iff_not_bit [of c 7] by simp
    then show ?thesis by (simp add: cb)
  qed
qed

lemma varint_join: "push_bit 7 (drop_bit 7 n) OR (n AND 0x7F) = (n :: 'a :: len word)"
  by (rule bit_eqI) (auto simp: bit_or_iff bit_push_bit_iff bit_drop_bit_eq bit_and_iff mask7 bit_mask_iff)

lemma varint_small: "n \<le> 0x7F \<Longrightarrow> n AND 0x7F = (n :: 'a :: len word)"
proof -
  assume "n \<le> 0x7F"
  then have "unat n \<le> 127 mod 2 ^ LENGTH('a)"
    by (simp add: word_le_nat_alt unsigned_numeral take_bit_eq_mod)
  also have "\<dots> \<le> 127" by (rule mod_less_eq_dividend)
  finally have "unat (take_bit 7 n) = unat n"
    unfolding unsigned_take_bit_eq by (simp add: take_bit_eq_mod)
  then have "take_bit 7 n = n" by (simp only: word_unat_eq_iff)
  then show ?thesis by (simp only: mask7 flip: take_bit_eq_mask)
qed

lemma ReadVarInt_digits:
  "ReadVarInt_loop 0 (rev (varint_tmp f n) @ r) = (if f then ReadVarInt_loop (n + 1) r else Inr (n, r))"
proof (induction f n arbitrary: r rule: varint_tmp.induct)
  case (1 f n)
  define c where "c = ucast (n AND 0x7F) OR (if f then 0x80 else 0 :: byte)"
  note c = varint_digit [where n = n and f = f, folded c_def]
  show ?case
  proof (cases "n \<le> 0x7F")
    case True
    then have "varint_tmp f n = [c]" by (simp add: varint_tmp.simps [of f n] c_def)
    then show ?thesis using c varint_small [OF True] by simp
  next
    case False
    then have "rev (varint_tmp f n) @ r = rev (varint_tmp True (drop_bit 7 n - 1)) @ c # r"
      by (simp add: varint_tmp.simps [of f n] c_def)
    then show ?thesis using 1 [OF refl False, of "c # r"] c varint_join [of n] by simp
  qed
qed

lemma length_varint_tmp:
  "unat n < 2 ^ k \<Longrightarrow> length (varint_tmp f n) \<le> max 1 ((k + 6) div 7) \<and> 1 \<le> length (varint_tmp f n)"
proof (induction f n arbitrary: k rule: varint_tmp.induct)
  case (1 f n)
  show ?case
  proof (cases "n \<le> 0x7F")
    case True
    then show ?thesis by (simp add: varint_tmp.simps [of f n])
  next
    case False
    then have ge: "2 ^ 7 < (2 :: nat) ^ k" using varint_continue [OF False] 1(2) by simp
    then have k: "7 < k" using power_less_imp_less_exp [of "2 :: nat" 7 k] by simp
    then have "(2 :: nat) ^ k = 2 ^ (k - 7) * 2 ^ 7" by (simp only: flip: power_add) simp
    then have "unat n < 2 ^ (k - 7) * 128" using 1(2) by simp
    then have "unat (drop_bit 7 n - 1) < 2 ^ (k - 7)"
      using False by (simp add: varint_next less_mult_imp_div_less less_imp_diff_less)
    from 1(1) [OF refl False this] have "length (varint_tmp True (drop_bit 7 n - 1)) \<le> max 1 ((k - 7 + 6) div 7)" by simp
    moreover have "max 1 ((k - 7 + 6) div 7) + 1 = (k + 6) div 7" using k by simp
    ultimately show ?thesis using False by (simp add: varint_tmp.simps [of f n])
  qed
qed

lemma length_varint: "length (varint_tmp f n) = GetSizeOfVarInt n"
  by (induction f n rule: varint_tmp.induct)
    (simp add: varint_tmp.simps GetSizeOfVarInt.simps Let_def)

lemma ReadVarInt_WriteVarInt: "ReadVarInt (WriteVarInt n @ r) = Inr (n, r)"
  using ReadVarInt_digits [of False n r] by (simp add: ReadVarInt_def WriteVarInt_def)

section \<open>Fixed-width values and compact sizes round trip\<close>

lemma stream_read_append [simp]: "stream_read (length p) (p @ r) = Inr (p, r)"
  by (simp add: stream_read_def)

lemma stream_readD: "stream_read n s = Inr (p, r) \<Longrightarrow> length p = n \<and> s = p @ r"
  by (auto simp: stream_read_def split: if_splits)

lemma Write_Read16: "length p = 2 \<Longrightarrow> WriteLE16 (ReadLE16 p) = p"
proof -
  assume l: "length p = 2"
  with le_nat_less [of p] have "le_nat p < 2 ^ 16" by simp
  then have "unat (of_nat (le_nat p) :: u16) = le_nat p" by (simp add: unat_of_nat)
  with l show ?thesis using nat_le_le_nat [of p] by (simp add: WriteLE16_def ReadLE16_def)
qed

lemma ser_readdata_write:
  "ser_readdata8 (ser_writedata8 x8 @ r) = Inr (x8, r)"
  "ser_readdata16 (WriteLE16 x16 @ r) = Inr (x16, r)"
  "ser_readdata32 (WriteLE32 x32 @ r) = Inr (x32, r)"
  "ser_readdata64 (WriteLE64 x64 @ r) = Inr (x64, r)"
  using Read_Write(1) [of x16 "[]"] Read_Write(2) [of x32 "[]"] Read_Write(3) [of x64 "[]"]
  by (simp_all add: ser_readdata8_def ser_readdata16_def ser_readdata32_def ser_readdata64_def
      ser_writedata8_def stream_read_def)

lemma ser_readdataD:
  "ser_readdata8 s = Inr (x8, r) \<Longrightarrow> s = ser_writedata8 x8 @ r"
  "ser_readdata16 s = Inr (x16, r) \<Longrightarrow> s = WriteLE16 x16 @ r"
  "ser_readdata32 s = Inr (x32, r) \<Longrightarrow> s = WriteLE32 x32 @ r"
  "ser_readdata64 s = Inr (x64, r) \<Longrightarrow> s = WriteLE64 x64 @ r"
proof -
  show "ser_readdata8 s = Inr (x8, r) \<Longrightarrow> s = ser_writedata8 x8 @ r"
    by (auto simp: ser_readdata8_def ser_writedata8_def length_Suc_conv
        elim!: exec_bind_InrE dest!: stream_readD)
qed (auto simp: ser_readdata16_def ser_readdata32_def ser_readdata64_def Write_Read Write_Read16
    elim!: exec_bind_InrE dest!: stream_readD)

lemma unat_narrow:
  "unat (ucast (n64 :: u64) :: byte) = unat n64 mod 2 ^ 8"
  "unat (ucast (n64 :: u64) :: u16) = unat n64 mod 2 ^ 16"
  "unat (ucast (n64 :: u64) :: u32) = unat n64 mod 2 ^ 32"
  by (simp_all add: unsigned_ucast_eq take_bit_eq_mod)

lemma unat_widen:
  "unat (ucast (b :: byte) :: u64) = unat b"
  "unat (ucast (w16 :: u16) :: u64) = unat w16"
  "unat (ucast (w32 :: u32) :: u64) = unat w32"
  using less_trans [OF unat_byte_less [of b], of "2 ^ 64"] unsigned_less [of w16, where ?'a = nat]
    unsigned_less [of w32, where ?'a = nat]
  by (simp_all add: unsigned_ucast_eq take_bit_nat_eq_self)

lemma ucast_widen_narrow:
  "ucast (ucast (b :: byte) :: u64) = b" "ucast (ucast (w16 :: u16) :: u64) = w16"
  "ucast (ucast (w32 :: u32) :: u64) = w32"
  using unsigned_less [of w16, where ?'a = nat] unsigned_less [of w32, where ?'a = nat]
  by (simp_all add: word_unat_eq_iff unat_narrow unat_widen)

lemma ReadCompactSize_Write:
  assumes "unat n \<le> MAX_SIZE"
  shows "ReadCompactSize (WriteCompactSize n @ r) = Inr (n, r)"
proof -
  have max: "\<not> of_nat MAX_SIZE < n" using assms by (simp add: word_less_nat_alt MAX_SIZE_def)
  consider "unat n < 253" | "253 \<le> unat n" "unat n \<le> 0xFFFF" | "0xFFFF < unat n" by linarith
  then show ?thesis
  proof cases
    case 1
    then have "ucast (ucast n :: byte) = n" "(ucast n :: byte) < 253" "n < 253"
      by (simp_all add: word_unat_eq_iff unat_widen unat_narrow word_less_nat_alt)
    then show ?thesis using max
      by (simp add: WriteCompactSize_def ReadCompactSize_def ser_readdata_write)
  next
    case 2
    then have "ucast (ucast n :: u16) = n" "\<not> (ucast n :: u16) < 253" "\<not> n < 253" "n \<le> 0xFFFF"
      by (simp_all add: word_unat_eq_iff unat_widen unat_narrow word_less_nat_alt word_le_nat_alt)
    then show ?thesis using max
      by (simp add: WriteCompactSize_def ReadCompactSize_def ser_readdata_write)
  next
    case 3
    then have "ucast (ucast n :: u32) = n" "\<not> (ucast n :: u32) < 0x10000" "\<not> n < 253" "\<not> n \<le> 0xFFFF"
      "n \<le> 0xFFFFFFFF"
      using assms by (simp_all add: word_unat_eq_iff unat_widen unat_narrow word_less_nat_alt word_le_nat_alt MAX_SIZE_def)
    then show ?thesis using max
      by (simp add: WriteCompactSize_def ReadCompactSize_def ser_readdata_write)
  qed
qed

lemma byte_255: "\<not> b < 253 \<Longrightarrow> b \<noteq> 253 \<Longrightarrow> b \<noteq> 254 \<Longrightarrow> b = (255 :: byte)"
proof -
  assume "\<not> b < 253" "b \<noteq> 253" "b \<noteq> 254"
  then have "253 \<le> unat b" "unat b \<noteq> 253" "unat b \<noteq> 254"
    by (simp_all add: word_unat_eq_iff word_less_nat_alt)
  moreover have "unat b \<le> 255" using unat_byte_less [of b] by linarith
  ultimately have "unat b = 255" by linarith
  then show ?thesis by (simp add: word_unat_eq_iff)
qed

lemma ReadCompactSizeD:
  assumes "(ReadCompactSize s :: ('e, u64 \<times> bytes) exec) = Inr (n, r)"
  shows "unat n \<le> MAX_SIZE \<and> s = WriteCompactSize n @ r"
proof -
  obtain ch s1 where c: "(ser_readdata8 s :: ('e, byte \<times> bytes) exec) = Inr (ch, s1)"
    and m: "(if ch < 253 then Inr (ucast ch, s1)
        else if ch = 253 then
          exec_bind (ser_readdata16 s1) (\<lambda>(x, s). if x < 253 then Inl Throw else Inr (ucast x, s))
        else if ch = 254 then
          exec_bind (ser_readdata32 s1) (\<lambda>(x, s). if x < 0x10000 then Inl Throw else Inr (ucast x, s))
        else
          exec_bind (ser_readdata64 s1) (\<lambda>(x, s). if x < 0x100000000 then Inl Throw else Inr (x, s)))
       = (Inr (n, r) :: ('e, u64 \<times> bytes) exec)"
    and le: "\<not> of_nat MAX_SIZE < n"
    using assms by (auto simp: ReadCompactSize_def split: if_splits elim!: exec_bind_InrE)
  have n: "unat n \<le> MAX_SIZE" using le by (simp add: word_less_nat_alt MAX_SIZE_def)
  have "s = ser_writedata8 ch @ s1" using ser_readdataD(1) [OF c] .
  moreover have "ser_writedata8 ch @ s1 = WriteCompactSize n @ r"
  proof -
    consider "ch < 253" | "ch = 253" | "ch = 254" | "ch = 255" using byte_255 by blast
    then show ?thesis
    proof cases
      case 1
      then have "n = ucast ch" "s1 = r" using m by auto
      moreover have "(ucast ch :: u64) < 253" using 1 by (simp add: word_less_nat_alt unat_widen)
      ultimately show ?thesis by (simp add: WriteCompactSize_def ucast_widen_narrow)
    next
      case 2
      then obtain x where x: "(ser_readdata16 s1 :: ('e, u16 \<times> bytes) exec) = Inr (x, r)" "\<not> x < 253" "n = ucast x"
        using m by (auto split: if_splits elim!: exec_bind_InrE)
      moreover have "\<not> (ucast x :: u64) < 253" "(ucast x :: u64) \<le> 0xFFFF"
        using x(2) unsigned_less [of x, where ?'a = nat]
        by (simp_all add: word_less_nat_alt word_le_nat_alt unat_widen)
      ultimately show ?thesis using 2 ser_readdataD(2) [OF x(1)]
        by (simp add: WriteCompactSize_def ucast_widen_narrow)
    next
      case 3
      then obtain x where x: "(ser_readdata32 s1 :: ('e, u32 \<times> bytes) exec) = Inr (x, r)" "\<not> x < 0x10000" "n = ucast x"
        using m by (auto split: if_splits elim!: exec_bind_InrE)
      moreover have "\<not> (ucast x :: u64) < 253" "\<not> (ucast x :: u64) \<le> 0xFFFF" "(ucast x :: u64) \<le> 0xFFFFFFFF"
        using x(2) unsigned_less [of x, where ?'a = nat]
        by (simp_all add: word_less_nat_alt word_le_nat_alt unat_widen)
      ultimately show ?thesis using 3 ser_readdataD(3) [OF x(1)]
        by (simp add: WriteCompactSize_def ucast_widen_narrow)
    next
      case 4
      then have "\<not> n < 0x100000000" using m by (auto split: if_splits elim!: exec_bind_InrE)
      then show ?thesis using n by (simp add: word_less_nat_alt MAX_SIZE_def)
    qed
  qed
  ultimately show ?thesis using n by simp
qed

lemma length_WriteCompactSize: "length (WriteCompactSize n) = GetSizeOfCompactSize n"
  by (simp add: WriteCompactSize_def GetSizeOfCompactSize_def ser_writedata8_def)

section \<open>The contract of a serializable type\<close>

text \<open>
  \<open>ok\<close> says which values of the model are values of the C++ type. \<open>roundtrip\<close>: what is
  written is read back and nothing more is consumed. \<open>canonical\<close>: a value that is read is a
  value of the type and the bytes consumed are its encoding.
\<close>

locale codec =
  fixes ser :: "'a \<Rightarrow> bytes" and unser :: "('e, 'a) reader" and ok :: "'a \<Rightarrow> bool"
  assumes roundtrip: "ok x \<Longrightarrow> unser (ser x @ r) = Inr (x, r)"
    and canonical: "unser s = Inr (x, r) \<Longrightarrow> ok x \<and> s = ser x @ r"
begin

lemma unser_iff: "unser s = Inr (x, r) \<longleftrightarrow> ok x \<and> s = ser x @ r"
  by (auto simp: roundtrip dest: canonical)

lemma prefix_free: "ok x \<Longrightarrow> ok y \<Longrightarrow> ser x @ r = ser y @ r' \<Longrightarrow> x = y \<and> r = r'"
  by (metis Pair_inject roundtrip sum.inject(2))

lemma injective: "ok x \<Longrightarrow> ok y \<Longrightarrow> ser x = ser y \<longleftrightarrow> x = y"
  by (metis append_Nil2 prefix_free)

lemma unser_many_iff:
  "unser_many unser n s = Inr (xs, r) \<longleftrightarrow> length xs = n \<and> (\<forall>x \<in> set xs. ok x) \<and> s = ser_many ser xs @ r"
proof (induction n arbitrary: s xs r)
  case 0
  then show ?case by (auto simp: ser_many_def)
next
  case (Suc n)
  show ?case
  proof
    assume "unser_many unser (Suc n) s = Inr (xs, r)"
    then show "length xs = Suc n \<and> (\<forall>x \<in> set xs. ok x) \<and> s = ser_many ser xs @ r"
      by (auto simp: ser_many_def Suc unser_iff elim!: exec_bind_InrE)
  next
    assume "length xs = Suc n \<and> (\<forall>x \<in> set xs. ok x) \<and> s = ser_many ser xs @ r"
    then obtain y ys where "xs = y # ys" "length ys = n" "ok y" "\<forall>x \<in> set ys. ok x"
      "s = ser y @ ser_many ser ys @ r"
      by (auto simp: length_Suc_conv ser_many_def)
    then show "unser_many unser (Suc n) s = Inr (xs, r)"
      using roundtrip [of y "ser_many ser ys @ r"] Suc.IH [of "ser_many ser ys @ r" ys r] by simp
  qed
qed

lemma vector_codec:
  "codec (ser_vector ser) (unser_vector unser) (\<lambda>xs. length xs \<le> MAX_SIZE \<and> (\<forall>x \<in> set xs. ok x))"
proof
  fix xs r
  assume ok: "length xs \<le> MAX_SIZE \<and> (\<forall>x \<in> set xs. ok x)"
  then have u: "unat (of_nat (length xs) :: u64) = length xs"
    by (simp add: unat_of_nat MAX_SIZE_def)
  show "unser_vector unser (ser_vector ser xs @ r) = Inr (xs, r)"
    using ok u unser_many_iff [of "length xs" "ser_many ser xs @ r" xs r]
    by (simp add: unser_vector_def ser_vector_def ReadCompactSize_Write)
next
  fix s xs r
  assume "unser_vector unser s = Inr (xs, r)"
  then obtain n t where n: "(ReadCompactSize s :: ('e, u64 \<times> bytes) exec) = Inr (n, t)" "unser_many unser (unat n) t = Inr (xs, r)"
    by (auto simp: unser_vector_def elim!: exec_bind_InrE)
  from ReadCompactSizeD [OF n(1)] n(2)
  have "length xs = unat n" "unat n \<le> MAX_SIZE" "\<forall>x \<in> set xs. ok x"
    "s = WriteCompactSize n @ ser_many ser xs @ r"
    by (simp_all add: unser_many_iff)
  then show "(length xs \<le> MAX_SIZE \<and> (\<forall>x \<in> set xs. ok x)) \<and> s = ser_vector ser xs @ r"
    by (simp add: ser_vector_def)
qed

lemma optional_codec:
  "codec (ser_optional ser) (unser_optional unser) (\<lambda>v. \<forall>x. v = Some x \<longrightarrow> ok x)"
proof
  fix v :: "'a option" and r
  assume "\<forall>x. v = Some x \<longrightarrow> ok x"
  then show "unser_optional unser (ser_optional ser v @ r) = Inr (v, r)"
    by (cases v) (simp_all add: unser_optional_def ser_optional_def ser_readdata_write roundtrip)
next
  fix s v r
  assume "unser_optional unser s = Inr (v, r)"
  then show "(\<forall>x. v = Some x \<longrightarrow> ok x) \<and> s = ser_optional ser v @ r"
    by (auto simp: unser_optional_def ser_optional_def unser_iff split: if_splits
        elim!: exec_bind_InrE dest!: ser_readdataD)
qed

end

lemma pair_codec:
  assumes "codec ser1 unser1 ok1" "codec ser2 unser2 ok2"
  shows "codec (ser_pair ser1 ser2) (unser_pair unser1 unser2) (\<lambda>(x, y). ok1 x \<and> ok2 y)"
proof
  fix v r
  assume "case v of (x, y) \<Rightarrow> ok1 x \<and> ok2 y"
  then show "unser_pair unser1 unser2 (ser_pair ser1 ser2 v @ r) = Inr (v, r)"
    by (cases v) (simp add: unser_pair_def ser_pair_def codec.roundtrip [OF assms(1)] codec.roundtrip [OF assms(2)])
next
  fix s v r
  assume "unser_pair unser1 unser2 s = Inr (v, r)"
  then show "(case v of (x, y) \<Rightarrow> ok1 x \<and> ok2 y) \<and> s = ser_pair ser1 ser2 v @ r"
    by (auto simp: unser_pair_def ser_pair_def codec.unser_iff [OF assms(1)] codec.unser_iff [OF assms(2)]
        elim!: exec_bind_InrE)
qed

text \<open>The fixed-width types.\<close>

lemma read_blocks_read: "(read_blocks n s :: ('e, bytes \<times> bytes) exec) = stream_read n s"
proof (induction n arbitrary: s rule: less_induct)
  case (less n)
  show ?case
  proof (cases "n = 0")
    case True
    then show ?thesis by (simp add: read_blocks.simps [of 0] stream_read_def)
  next
    case False
    define b where "b = min n READ_BLOCK"
    have b: "b \<le> n" by (simp add: b_def)
    have step: "read_blocks n s = exec_bind (stream_read b s) (\<lambda>(v, s).
        exec_bind (read_blocks (n - b) s) (\<lambda>(w, s). Inr (v @ w, s)))"
      using False by (simp add: read_blocks.simps [of n] b_def Let_def)
    show ?thesis
    proof (cases "length s < b")
      case True
      then show ?thesis using b by (simp add: step stream_read_def)
    next
      case no: False
      then have r: "stream_read b s = (Inr (take b s, drop b s) :: ('e, bytes \<times> bytes) exec)"
        by (simp add: stream_read_def)
      have ih: "read_blocks (n - b) (drop b s) = (stream_read (n - b) (drop b s) :: ('e, bytes \<times> bytes) exec)"
        using False by (intro less) (simp add: b_def READ_BLOCK_def)
      have "take b s @ take (n - b) (drop b s) = take n s"
        using b by (simp add: take_add [symmetric])
      then show ?thesis using no b by (auto simp: step r ih stream_read_def)
    qed
  qed
qed

definition ok_int32 :: "int \<Rightarrow> bool" where
  "ok_int32 n \<longleftrightarrow> INT_MIN \<le> n \<and> n \<le> INT_MAX"

definition ok_bytes :: "bytes \<Rightarrow> bool" where
  "ok_bytes v \<longleftrightarrow> length v \<le> MAX_SIZE"

lemma sint_word_of_int:
  "ok_int32 a \<Longrightarrow> sint (word_of_int a :: u32) = a" "in_int64 b \<Longrightarrow> sint (word_of_int b :: u64) = b"
  unfolding sint_sbintrunc' signed_take_bit_int_eq_self_iff ok_int32_def in_int64_def by simp_all

lemma sint_range: "ok_int32 (sint (x :: u32))" "in_int64 (sint (y :: u64))"
  using sint_ge [of x] sint_lt [of x] sint_ge [of y] sint_lt [of y]
  by (simp_all add: ok_int32_def in_int64_def)

interpretation u8: codec ser_writedata8 ser_readdata8 "\<lambda>_. True"
  by unfold_locales (auto simp: ser_readdata_write dest: ser_readdataD)

interpretation u16: codec WriteLE16 ser_readdata16 "\<lambda>_. True"
  by unfold_locales (auto simp: ser_readdata_write dest: ser_readdataD)

interpretation u32: codec WriteLE32 ser_readdata32 "\<lambda>_. True"
  by unfold_locales (auto simp: ser_readdata_write dest: ser_readdataD)

interpretation u64: codec WriteLE64 ser_readdata64 "\<lambda>_. True"
  by unfold_locales (auto simp: ser_readdata_write dest: ser_readdataD)

interpretation int32: codec ser_int32 unser_int32 ok_int32
proof
  fix x r
  assume "ok_int32 x"
  then show "unser_int32 (ser_int32 x @ r) = Inr (x, r)"
    by (simp add: unser_int32_def ser_int32_def u32.roundtrip sint_word_of_int)
next
  fix s x r
  assume "unser_int32 s = Inr (x, r)"
  then show "ok_int32 x \<and> s = ser_int32 x @ r"
    by (auto simp: unser_int32_def ser_int32_def u32.unser_iff sint_range elim!: exec_bind_InrE)
qed

interpretation int64: codec ser_int64 unser_int64 in_int64
proof
  fix x r
  assume "in_int64 x"
  then show "unser_int64 (ser_int64 x @ r) = Inr (x, r)"
    by (simp add: unser_int64_def ser_int64_def u64.roundtrip sint_word_of_int)
next
  fix s x r
  assume "unser_int64 s = Inr (x, r)"
  then show "in_int64 x \<and> s = ser_int64 x @ r"
    by (auto simp: unser_int64_def ser_int64_def u64.unser_iff sint_range elim!: exec_bind_InrE)
qed

interpretation compact_size: codec WriteCompactSize ReadCompactSize "\<lambda>n. unat n \<le> MAX_SIZE"
  by unfold_locales (auto simp: ReadCompactSize_Write dest: ReadCompactSizeD)

interpretation blob: codec ser_blob "unser_blob n" "\<lambda>x. length x = n" for n
  by unfold_locales (auto simp: ser_blob_def unser_blob_def dest: stream_readD)

interpretation byte_vector: codec ser_bytes unser_bytes ok_bytes
proof
  fix x r
  assume ok: "ok_bytes x"
  then have "unat (of_nat (length x) :: u64) = length x"
    by (simp add: ok_bytes_def unat_of_nat MAX_SIZE_def)
  then show "unser_bytes (ser_bytes x @ r) = Inr (x, r)"
    using ok by (simp add: unser_bytes_def ser_bytes_def compact_size.roundtrip ok_bytes_def read_blocks_read)
next
  fix s x r
  assume "unser_bytes s = Inr (x, r)"
  then show "ok_bytes x \<and> s = ser_bytes x @ r"
    by (auto simp: unser_bytes_def ser_bytes_def compact_size.unser_iff ok_bytes_def read_blocks_read
        elim!: exec_bind_InrE dest!: stream_readD)
qed

lemmas codec_roundtrip = u8.roundtrip u16.roundtrip u32.roundtrip u64.roundtrip int32.roundtrip
  int64.roundtrip compact_size.roundtrip blob.roundtrip byte_vector.roundtrip

lemmas codec_iff = u8.unser_iff u16.unser_iff u32.unser_iff u64.unser_iff int32.unser_iff
  int64.unser_iff compact_size.unser_iff blob.unser_iff byte_vector.unser_iff

section \<open>Properties\<close>

text \<open>C34: Variable-length integers of every width: reading what \<open>WriteVarInt\<close> wrote gives the number back and
  consumes exactly the bytes written, the number of bytes is \<open>GetSizeOfVarInt\<close>, and the loop never runs
  past its buffer of \<open>(8 * sizeof(n) + 6) / 7\<close> bytes.\<close>

theorem varint_roundtrip:
  fixes n :: "'a :: len word"
  shows "ReadVarInt (WriteVarInt n @ r) = Inr (n, r) \<and> length (WriteVarInt n) = GetSizeOfVarInt n \<and>
    length (WriteVarInt n) \<le> (LENGTH('a) + 6) div 7"
proof -
  have "length (varint_tmp False n) \<le> max 1 ((LENGTH('a) + 6) div 7)"
    using length_varint_tmp [of n "LENGTH('a)" False] unsigned_less [of n] by simp
  moreover have "1 \<le> (LENGTH('a) + 6) div 7" using len_gt_0 [where 'a = 'a] by linarith
  ultimately show ?thesis
    using ReadVarInt_WriteVarInt [of n r] by (simp add: WriteVarInt_def length_varint)
qed

text \<open>C35: Compact sizes are canonical: \<open>ReadCompactSize\<close> returns a number exactly when the input starts with
  the encoding that \<open>WriteCompactSize\<close> gives to it and the number is at most \<open>MAX_SIZE\<close>; every other input
  throws. The encoding has \<open>GetSizeOfCompactSize\<close> bytes.\<close>

theorem compact_size_unique:
  "((ReadCompactSize s :: ('e, u64 \<times> bytes) exec) = Inr (n, r) \<longleftrightarrow> unat n \<le> MAX_SIZE \<and> s = WriteCompactSize n @ r) \<and>
   ((ReadCompactSize s :: ('e, u64 \<times> bytes) exec) = Inl Throw \<longleftrightarrow>
      (\<nexists>k t. unat k \<le> MAX_SIZE \<and> s = WriteCompactSize k @ t)) \<and>
   length (WriteCompactSize n) = GetSizeOfCompactSize n"
proof -
  have only: "e = Throw" if "(ReadCompactSize s :: ('e, u64 \<times> bytes) exec) = Inl e" for e
    using that by (auto simp: ReadCompactSize_def ser_readdata8_def ser_readdata16_def ser_readdata32_def
        ser_readdata64_def stream_read_def exec_bind_def split: if_splits sum.splits prod.splits)
  have iff: "(ReadCompactSize s :: ('e, u64 \<times> bytes) exec) = Inr (k, t) \<longleftrightarrow>
      unat k \<le> MAX_SIZE \<and> s = WriteCompactSize k @ t" for k t
    by (rule compact_size.unser_iff)
  have "(ReadCompactSize s :: ('e, u64 \<times> bytes) exec) = Inl Throw \<longleftrightarrow> (\<nexists>k t. unat k \<le> MAX_SIZE \<and> s = WriteCompactSize k @ t)"
    unfolding iff [symmetric] using only
    by (cases "ReadCompactSize s :: ('e, u64 \<times> bytes) exec") auto
  then show ?thesis using iff length_WriteCompactSize by simp
qed

text \<open>The comment at the format promises that every integer has exactly one encoding. \<open>ReadVarInt\<close> does not
  check for overflow: read as a 32-bit integer, the encoding that the comment lists for \<open>2^32\<close> is accepted
  as zero, whose encoding is the single byte 0.\<close>

theorem varint_overflow_accepted:
  "(ReadVarInt [0x8E, 0xFE, 0xFE, 0xFF, 0x00] :: (unit, u32 \<times> bytes) exec) = Inr (0, []) \<and>
   WriteVarInt (2 ^ 32 :: u64) = [0x8E, 0xFE, 0xFE, 0xFF, 0x00] \<and> WriteVarInt (0 :: u32) = [0]"
proof (intro conjI)
  show "(ReadVarInt [0x8E, 0xFE, 0xFE, 0xFF, 0x00] :: (unit, u32 \<times> bytes) exec) = Inr (0, [])"
    by (simp add: ReadVarInt_def)
  show "WriteVarInt (2 ^ 32 :: u64) = [0x8E, 0xFE, 0xFE, 0xFF, 0x00]"
    by (simp add: WriteVarInt_def varint_tmp.simps)
  show "WriteVarInt (0 :: u32) = [0]"
    by (simp add: WriteVarInt_def varint_tmp.simps)
qed

end
