(* ===== verification/Md_Hash.thy ===== *)
theory Md_Hash
  imports Prelude
begin

text \<open>
  The buffering scheme the hash classes of src/src/crypto share. \<open>CSHA256\<close>, \<open>CSHA1\<close>
  and \<open>CRIPEMD160\<close> have the same fields (chaining value \<open>s\<close>, a block buffer \<open>buf\<close>, a
  byte counter \<open>bytes\<close>) and the same body of \<open>Write\<close>, which differs only in the
  \<open>Transform\<close> it calls; \<open>md_Write\<close> is that body. The locale \<open>md_stream\<close> states what a
  caller of such a class relies on and derives that cutting the input into pieces does
  not change the digest.
\<close>

section \<open>State and Write\<close>

record 's md_state =
  md_s :: 's
  md_buf :: bytes
  md_bytes :: nat

definition memcpy_at :: "bytes \<Rightarrow> nat \<Rightarrow> bytes \<Rightarrow> bytes" where
  "memcpy_at b off d = take off b @ d @ drop (off + length d) b"

function md_chunks :: "nat \<Rightarrow> ('s \<Rightarrow> bytes \<Rightarrow> 's) \<Rightarrow> 's \<Rightarrow> nat \<Rightarrow> bytes \<Rightarrow> 's \<times> nat \<times> bytes" where
  "md_chunks B f s n d =
     (if 0 < B \<and> B \<le> length d then md_chunks B f (f s (take B d)) (n + B) (drop B d)
      else (s, n, d))"
  by pat_completeness auto
termination
  by (relation "measure (\<lambda>(B, f, s, n, d). length d)") auto

declare md_chunks.simps [simp del]

definition md_Write :: "nat \<Rightarrow> ('s \<Rightarrow> bytes \<Rightarrow> 's) \<Rightarrow> 's md_state \<Rightarrow> bytes \<Rightarrow> 's md_state" where
  "md_Write B f st data =
     (let bufsize = md_bytes st mod B;
          (s1, buf1, n1, d1, bufsize1) =
            (if bufsize \<noteq> 0 \<and> B \<le> bufsize + length data
             then (let b = memcpy_at (md_buf st) bufsize (take (B - bufsize) data)
                   in (f (md_s st) b, b, md_bytes st + (B - bufsize), drop (B - bufsize) data, 0))
             else (md_s st, md_buf st, md_bytes st, data, bufsize));
          (s2, n2, d2) = md_chunks B f s1 n1 d1
      in if d2 \<noteq> []
         then \<lparr>md_s = s2, md_buf = memcpy_at buf1 bufsize1 d2, md_bytes = n2 + length d2\<rparr>
         else \<lparr>md_s = s2, md_buf = buf1, md_bytes = n2\<rparr>)"

section \<open>What the state stands for\<close>

text \<open>
  \<open>md_comp\<close> folds the compression function over the whole blocks of a message and
  \<open>md_rest\<close> is what is left over; a state stands for the message \<open>m\<close> written so far
  when its chaining value is \<open>md_comp\<close> of \<open>m\<close> and its buffer starts with \<open>md_rest\<close> of \<open>m\<close>.
\<close>

definition md_comp :: "nat \<Rightarrow> ('s \<Rightarrow> bytes \<Rightarrow> 's) \<Rightarrow> 's \<Rightarrow> bytes \<Rightarrow> 's" where
  "md_comp B f s m = fst (md_chunks B f s 0 m)"

definition md_rest :: "nat \<Rightarrow> bytes \<Rightarrow> bytes" where
  "md_rest B m = drop (length m div B * B) m"

definition md_abs :: "nat \<Rightarrow> ('s \<Rightarrow> bytes \<Rightarrow> 's) \<Rightarrow> 's \<Rightarrow> bytes \<Rightarrow> 's md_state \<Rightarrow> bool" where
  "md_abs B f iv m st \<longleftrightarrow>
     md_bytes st = length m \<and> length (md_buf st) = B \<and> md_s st = md_comp B f iv m \<and>
     take (length m mod B) (md_buf st) = md_rest B m"

lemma md_comp_short [simp]: "length m < B \<Longrightarrow> md_comp B f s m = s"
  by (simp add: md_comp_def md_chunks.simps)

lemma md_rest_short [simp]: "length m < B \<Longrightarrow> md_rest B m = m"
  by (simp add: md_rest_def)

lemma length_md_rest [simp]: "length (md_rest B m) = length m mod B"
  by (simp add: md_rest_def minus_div_mult_eq_mod)

lemma md_rest_step: "0 < B \<Longrightarrow> B \<le> length m \<Longrightarrow> md_rest B (drop B m) = md_rest B m"
  by (simp add: md_rest_def le_div_geq add.commute)

lemma md_chunks_eq:
  assumes "0 < B"
  shows "md_chunks B f s n d = (md_comp B f s d, n + length d div B * B, md_rest B d)"
proof -
  have "md_chunks B f s n d =
      (fst (md_chunks B f s k d), n + length d div B * B, md_rest B d)" for k
  using assms proof (induction B f s n d arbitrary: k rule: md_chunks.induct)
    case (1 B f s n d)
    show ?case
    proof (cases "B \<le> length d")
      case True
      have "md_chunks B f s n d = md_chunks B f (f s (take B d)) (n + B) (drop B d)"
        using True 1 by (subst md_chunks.simps) simp
      also have "\<dots> = (fst (md_chunks B f (f s (take B d)) (k + B) (drop B d)),
          (n + B) + length (drop B d) div B * B, md_rest B (drop B d))"
        using 1 True by simp
      also have "md_chunks B f (f s (take B d)) (k + B) (drop B d) = md_chunks B f s k d"
        using True 1(2) by (subst (2) md_chunks.simps) simp
      also have "(n + B) + length (drop B d) div B * B = n + length d div B * B"
        using True 1(2) by (simp add: le_div_geq)
      finally show ?thesis using True 1(2) by (simp add: md_rest_step)
    next
      case False
      then show ?thesis by (simp add: md_chunks.simps)
    qed
  qed
  then show ?thesis unfolding md_comp_def .
qed

lemma md_comp_step:
  assumes "0 < B" "B \<le> length m"
  shows "md_comp B f s m = md_comp B f (f s (take B m)) (drop B m)"
proof -
  have "md_chunks B f s 0 m = md_chunks B f (f s (take B m)) (0 + B) (drop B m)"
    using assms by (subst md_chunks.simps) simp
  then have "fst (md_chunks B f s 0 m) = fst (md_chunks B f (f s (take B m)) B (drop B m))"
    by simp
  then show ?thesis
    using assms(1) by (simp only: md_chunks_eq fst_conv)
qed

lemma md_append:
  assumes "0 < B"
  shows "md_comp B f s (m @ d) = md_comp B f (md_comp B f s m) (md_rest B m @ d)"
    and "md_rest B (m @ d) = md_rest B (md_rest B m @ d)"
proof -
  have "md_comp B f s (m @ d) = md_comp B f (md_comp B f s m) (md_rest B m @ d) \<and>
      md_rest B (m @ d) = md_rest B (md_rest B m @ d)"
  proof (induction m arbitrary: s rule: length_induct)
    case (1 m)
    show ?case
    proof (cases "B \<le> length m")
      case True
      have IH: "md_comp B f s (drop B m @ d) =
          md_comp B f (md_comp B f s (drop B m)) (md_rest B (drop B m) @ d)"
        "md_rest B (drop B m @ d) = md_rest B (md_rest B (drop B m) @ d)" for s
        using 1 True assms by auto
      have "md_comp B f s (m @ d) = md_comp B f (f s (take B m)) (drop B m @ d)"
        using True assms by (subst md_comp_step) auto
      moreover have "md_rest B (m @ d) = md_rest B (drop B m @ d)"
        using True assms md_rest_step [of B "m @ d"] by simp
      ultimately show ?thesis
        using True assms by (simp add: IH md_comp_step [of B m] md_rest_step)
    qed simp
  qed
  then show "md_comp B f s (m @ d) = md_comp B f (md_comp B f s m) (md_rest B m @ d)"
    and "md_rest B (m @ d) = md_rest B (md_rest B m @ d)"
    by simp_all
qed

section \<open>Write refines appending\<close>

lemma memcpy_at_tail:
  assumes "length b = B" "k + length x \<le> B" "take k b = r"
  shows "length (if x \<noteq> [] then memcpy_at b k x else b) = B"
    and "take (k + length x) (if x \<noteq> [] then memcpy_at b k x else b) = r @ x"
  using assms by (auto simp: memcpy_at_def)

lemma md_Write_eq:
  assumes "0 < B" and "md_bytes st mod B = k"
  shows "md_Write B f st d =
     (if k \<noteq> 0 \<and> B \<le> k + length d
      then let b = memcpy_at (md_buf st) k (take (B - k) d); d1 = drop (B - k) d; x = md_rest B d1
           in \<lparr>md_s = md_comp B f (f (md_s st) b) d1,
               md_buf = (if x \<noteq> [] then memcpy_at b 0 x else b),
               md_bytes = md_bytes st + (B - k) + length d1\<rparr>
      else let x = md_rest B d
           in \<lparr>md_s = md_comp B f (md_s st) d,
               md_buf = (if x \<noteq> [] then memcpy_at (md_buf st) k x else md_buf st),
               md_bytes = md_bytes st + length d\<rparr>)"
proof -
  have l: "length x div B * B + length (md_rest B x) = length x" for x :: bytes
    by simp
  have e: "md_rest B x = [] \<Longrightarrow> length x div B * B = length x" for x :: bytes
    using l [of x] by (simp del: length_md_rest)
  show ?thesis
    using assms l by (simp add: md_Write_def Let_def md_chunks_eq add.assoc del: length_md_rest length_drop)
      (auto simp: e simp del: length_drop)
qed

lemma md_Write_abs:
  assumes B: "0 < B" and abs: "md_abs B f iv m st"
  shows "md_abs B f iv (m @ d) (md_Write B f st d)"
proof -
  let ?k = "length m mod B"
  let ?r = "md_rest B m"
  have k: "?k < B" using B by simp
  have n: "md_bytes st = length m" and lb: "length (md_buf st) = B"
    and s: "md_s st = md_comp B f iv m" and r: "take ?k (md_buf st) = ?r"
    using abs by (simp_all add: md_abs_def)
  have comp: "md_comp B f iv (m @ d) = md_comp B f (md_s st) (?r @ d)"
    and rest: "md_rest B (m @ d) = md_rest B (?r @ d)"
    using md_append [OF B] s by simp_all
  have kd: "(length m + length d) mod B = (?k + length d) mod B" by (simp add: mod_simps)
  show ?thesis
  proof (cases "?k \<noteq> 0 \<and> B \<le> ?k + length d")
    case True
    let ?b = "memcpy_at (md_buf st) ?k (take (B - ?k) d)"
    let ?d = "drop (B - ?k) d"
    let ?x = "md_rest B ?d"
    have b: "?b = ?r @ take (B - ?k) d"
      using True r lb by (auto simp: memcpy_at_def min_def)
    then have lb': "length ?b = B" using True k by (auto simp: min_def)
    have split: "take B (?r @ d) = ?b" "drop B (?r @ d) = ?d"
      using True b k by simp_all
    have c: "md_comp B f (md_s st) (?r @ d) = md_comp B f (f (md_s st) ?b) ?d"
      and rr: "md_rest B (?r @ d) = ?x"
      using True B split md_comp_step [of B "?r @ d"] md_rest_step [of B "?r @ d"]
      by simp_all
    have lx: "length ?x = (length m + length d) mod B"
      using rest rr by (metis length_append length_md_rest)
    have "0 + length ?x \<le> B" "take 0 ?b = []" using B by (simp_all del: length_drop)
    note fin = memcpy_at_tail [OF lb' this]
    have "md_Write B f st d = \<lparr>md_s = md_comp B f (f (md_s st) ?b) ?d,
        md_buf = (if ?x \<noteq> [] then memcpy_at ?b 0 ?x else ?b),
        md_bytes = length m + (B - ?k) + length ?d\<rparr>"
      using md_Write_eq [OF B, of st ?k f d] n by (simp only: if_P [OF True] Let_def)
    then show ?thesis
      using True fin comp c rest rr lx k by (simp add: md_abs_def del: length_md_rest)
  next
    case False
    let ?x = "md_rest B d"
    have x: "md_rest B (?r @ d) = ?r @ ?x \<and> md_comp B f (md_s st) (?r @ d) = md_comp B f (md_s st) d"
    proof (cases "?k = 0")
      case True
      then have "?r = []" using r by simp
      then show ?thesis by simp
    next
      case F: False
      then have "length (?r @ d) < B" "length d < B" using False by auto
      then show ?thesis by simp
    qed
    have lx: "?k + length ?x = (length m + length d) mod B"
      using rest x by (metis length_append length_md_rest)
    have "?k + length ?x \<le> B" using lx B by simp
    note fin = memcpy_at_tail [OF lb this r]
    have "md_Write B f st d = \<lparr>md_s = md_comp B f (md_s st) d,
        md_buf = (if ?x \<noteq> [] then memcpy_at (md_buf st) ?k ?x else md_buf st),
        md_bytes = length m + length d\<rparr>"
      using md_Write_eq [OF B, of st ?k f d] n by (simp only: if_not_P [OF False] Let_def)
    then show ?thesis
      using fin comp x rest lx by (simp add: md_abs_def del: length_md_rest)
  qed
qed

section \<open>Padding\<close>

text \<open>
  \<open>Finalize\<close> writes a prefix of a static array (\<open>0x80\<close> and zeros) so long that eight
  more bytes fill a block.
\<close>

definition md_pad :: bytes where
  "md_pad = 0x80 # replicate 63 0"

definition md_padding :: "nat \<Rightarrow> bytes" where
  "md_padding n = 0x80 # replicate ((119 - n mod 64) mod 64) 0"

lemma take_md_pad: "take (1 + ((119 - n mod 64) mod 64)) md_pad = md_padding n"
proof -
  have "(119 - n mod 64) mod 64 \<le> 63"
    using pos_mod_bound [of 64 "int (119 - n mod 64)"] by simp
  then show ?thesis by (simp add: md_pad_def md_padding_def min_def)
qed

lemma padded_length: "64 dvd length m + length (md_padding (length m)) + 8"
proof -
  let ?r = "length m mod 64"
  have r: "?r < 64" by simp
  have "64 dvd (119 - ?r) mod 64 + 9 + ?r"
  proof (cases "?r \<le> 55")
    case True
    then have "119 - ?r = 64 + (55 - ?r)" by simp
    then have "(119 - ?r) mod 64 = (55 - ?r) mod 64" by (simp only: mod_add_self1)
    with True show ?thesis by simp
  next
    case False
    with r have "(119 - ?r) mod 64 = 119 - ?r" by simp
    with False r show ?thesis by simp
  qed
  then have "64 dvd (119 - ?r) mod 64 + 9 + length m"
    unfolding dvd_eq_mod_eq_0 by (simp only: mod_add_right_eq)
  then show ?thesis by (simp add: md_padding_def ac_simps)
qed

lemma upt_8: "[0..<8] = [0, 1, 2, 3, 4, 5, 6, 7 :: nat]"
  by (simp add: upt_rec)

lemma upt_5: "[0..<5] = [0, 1, 2, 3, 4 :: nat]"
  by (simp add: upt_rec)

section \<open>The interface of a hasher class\<close>

text \<open>
  What a caller relies on: \<open>absorbed m st\<close> says that \<open>st\<close> has been fed the message
  \<open>m\<close>, a fresh object has been fed nothing, \<open>Write\<close> appends and \<open>Finalize\<close> returns the
  digest of what was fed, of a fixed size.
\<close>

locale stream_hasher =
  fixes new :: "'h"
    and Write :: "'h \<Rightarrow> bytes \<Rightarrow> 'h"
    and Finalize :: "'h \<Rightarrow> bytes"
    and absorbed :: "bytes \<Rightarrow> 'h \<Rightarrow> bool"
    and digest :: "bytes \<Rightarrow> bytes"
    and OUTPUT_SIZE :: nat
  assumes absorbed_new: "absorbed [] new"
    and absorbed_Write: "absorbed m st \<Longrightarrow> absorbed (m @ d) (Write st d)"
    and Finalize_absorbed: "absorbed m st \<Longrightarrow> Finalize st = digest m"
    and length_digest: "length (digest m) = OUTPUT_SIZE"
begin

lemma absorbed_foldl: "absorbed m st \<Longrightarrow> absorbed (m @ concat ds) (foldl Write st ds)"
proof (induction ds arbitrary: m st)
  case (Cons d ds)
  then have "absorbed (m @ d) (Write st d)" by (intro absorbed_Write)
  then show ?case using Cons.IH [of "m @ d" "Write st d"] by simp
qed simp

lemma stream_digest: "Finalize (foldl Write new ds) = digest (concat ds)"
  using absorbed_foldl [OF absorbed_new] by (simp add: Finalize_absorbed)

lemma chunking_irrelevant:
  "concat ds = concat es \<Longrightarrow> Finalize (foldl Write new ds) = Finalize (foldl Write new es)"
  by (simp add: stream_digest)

lemma one_shot: "Finalize (Write new d) = digest d"
  using stream_digest [of "[d]"] by simp

lemma length_Finalize: "length (Finalize (foldl Write new ds)) = OUTPUT_SIZE"
  by (simp add: stream_digest length_digest)

end

end
