(* ===== verification/Sha256.thy ===== *)
theory Sha256
  imports Md_Hash
begin

text \<open>
  \<open>CSHA256\<close> of src/src/crypto/sha256.cpp. The 64 unrolled calls of \<open>Round\<close> in
  \<open>Transform\<close> pass the eight working variables shifted by one place from call to call;
  here one step applies \<open>Round\<close> and shifts the tuple, and after 64 steps every variable
  is back at its own place. The sixteen schedule words \<open>w0\<close> to \<open>w15\<close> are a list that
  is updated in place, as in the code.
\<close>

section \<open>Compression function\<close>

definition sha256_Ch :: "u32 \<Rightarrow> u32 \<Rightarrow> u32 \<Rightarrow> u32" where
  "sha256_Ch x y z = z XOR (x AND (y XOR z))"

definition sha256_Maj :: "u32 \<Rightarrow> u32 \<Rightarrow> u32 \<Rightarrow> u32" where
  "sha256_Maj x y z = (x AND y) OR (z AND (x OR y))"

definition sha256_Sigma0 :: "u32 \<Rightarrow> u32" where
  "sha256_Sigma0 x = (drop_bit 2 x OR push_bit 30 x) XOR (drop_bit 13 x OR push_bit 19 x)
     XOR (drop_bit 22 x OR push_bit 10 x)"

definition sha256_Sigma1 :: "u32 \<Rightarrow> u32" where
  "sha256_Sigma1 x = (drop_bit 6 x OR push_bit 26 x) XOR (drop_bit 11 x OR push_bit 21 x)
     XOR (drop_bit 25 x OR push_bit 7 x)"

definition sha256_sigma0 :: "u32 \<Rightarrow> u32" where
  "sha256_sigma0 x = (drop_bit 7 x OR push_bit 25 x) XOR (drop_bit 18 x OR push_bit 14 x)
     XOR (drop_bit 3 x)"

definition sha256_sigma1 :: "u32 \<Rightarrow> u32" where
  "sha256_sigma1 x = (drop_bit 17 x OR push_bit 15 x) XOR (drop_bit 19 x OR push_bit 13 x)
     XOR (drop_bit 10 x)"

text \<open>\<open>Round\<close> updates its reference arguments \<open>d\<close> and \<open>h\<close>; the result is that pair.\<close>

definition sha256_Round ::
  "u32 \<Rightarrow> u32 \<Rightarrow> u32 \<Rightarrow> u32 \<Rightarrow> u32 \<Rightarrow> u32 \<Rightarrow> u32 \<Rightarrow> u32 \<Rightarrow> u32 \<Rightarrow> u32 \<Rightarrow> u32 \<times> u32" where
  "sha256_Round a b c d e f g h k w =
     (let t1 = h + sha256_Sigma1 e + sha256_Ch e f g + k + w;
          t2 = sha256_Sigma0 a + sha256_Maj a b c
      in (d + t1, t1 + t2))"

definition sha256_Initialize :: "u32 list" where
  "sha256_Initialize = [0x6a09e667, 0xbb67ae85, 0x3c6ef372, 0xa54ff53a,
     0x510e527f, 0x9b05688c, 0x1f83d9ab, 0x5be0cd19]"

definition sha256_rounds :: "(nat \<times> u32) list" where
  "sha256_rounds = [
     (0, 0x428a2f98), (1, 0x71374491), (2, 0xb5c0fbcf), (3, 0xe9b5dba5),
     (4, 0x3956c25b), (5, 0x59f111f1), (6, 0x923f82a4), (7, 0xab1c5ed5),
     (8, 0xd807aa98), (9, 0x12835b01), (10, 0x243185be), (11, 0x550c7dc3),
     (12, 0x72be5d74), (13, 0x80deb1fe), (14, 0x9bdc06a7), (15, 0xc19bf174),
     (16, 0xe49b69c1), (17, 0xefbe4786), (18, 0x0fc19dc6), (19, 0x240ca1cc),
     (20, 0x2de92c6f), (21, 0x4a7484aa), (22, 0x5cb0a9dc), (23, 0x76f988da),
     (24, 0x983e5152), (25, 0xa831c66d), (26, 0xb00327c8), (27, 0xbf597fc7),
     (28, 0xc6e00bf3), (29, 0xd5a79147), (30, 0x06ca6351), (31, 0x14292967),
     (32, 0x27b70a85), (33, 0x2e1b2138), (34, 0x4d2c6dfc), (35, 0x53380d13),
     (36, 0x650a7354), (37, 0x766a0abb), (38, 0x81c2c92e), (39, 0x92722c85),
     (40, 0xa2bfe8a1), (41, 0xa81a664b), (42, 0xc24b8b70), (43, 0xc76c51a3),
     (44, 0xd192e819), (45, 0xd6990624), (46, 0xf40e3585), (47, 0x106aa070),
     (48, 0x19a4c116), (49, 0x1e376c08), (50, 0x2748774c), (51, 0x34b0bcb5),
     (52, 0x391c0cb3), (53, 0x4ed8aa4a), (54, 0x5b9cca4f), (55, 0x682e6ff3),
     (56, 0x748f82ee), (57, 0x78a5636f), (58, 0x84c87814), (59, 0x8cc70208),
     (60, 0x90befffa), (61, 0xa4506ceb), (62, 0xbef9a3f7), (63, 0xc67178f2)]"

type_synonym sha256_regs = "u32 \<times> u32 \<times> u32 \<times> u32 \<times> u32 \<times> u32 \<times> u32 \<times> u32"

definition sha256_schedule :: "nat \<Rightarrow> u32 list \<Rightarrow> u32 list" where
  "sha256_schedule i w =
     (if i < 16 then w
      else w[i mod 16 := w ! (i mod 16) + (sha256_sigma1 (w ! ((i + 14) mod 16))
             + w ! ((i + 9) mod 16) + sha256_sigma0 (w ! ((i + 1) mod 16)))])"

fun sha256_step :: "sha256_regs \<times> u32 list \<Rightarrow> nat \<times> u32 \<Rightarrow> sha256_regs \<times> u32 list" where
  "sha256_step ((a, b, c, d, e, f, g, h), w) (i, k) =
     (let w' = sha256_schedule i w;
          (d', h') = sha256_Round a b c d e f g h k (w' ! (i mod 16))
      in ((h', a, b, c, d', e, f, g), w'))"

definition sha256_Transform :: "u32 list \<Rightarrow> bytes \<Rightarrow> u32 list" where
  "sha256_Transform s chunk =
     (let w = map (\<lambda>i. ReadBE32 (drop (4 * i) chunk)) [0..<16];
          ((a, b, c, d, e, f, g, h), _) =
            foldl sha256_step ((s ! 0, s ! 1, s ! 2, s ! 3, s ! 4, s ! 5, s ! 6, s ! 7), w)
              sha256_rounds
      in [s ! 0 + a, s ! 1 + b, s ! 2 + c, s ! 3 + d, s ! 4 + e, s ! 5 + f, s ! 6 + g, s ! 7 + h])"

section \<open>The class\<close>

text \<open>The constructor leaves \<open>buf\<close> uninitialised; its content is an argument here.\<close>

type_synonym CSHA256 = "u32 list md_state"

definition CSHA256_new :: "bytes \<Rightarrow> CSHA256" where
  "CSHA256_new junk = \<lparr>md_s = sha256_Initialize, md_buf = junk, md_bytes = 0\<rparr>"

definition CSHA256_Write :: "CSHA256 \<Rightarrow> bytes \<Rightarrow> CSHA256" where
  "CSHA256_Write = md_Write 64 sha256_Transform"

definition CSHA256_FinalizeNoPadding :: "CSHA256 \<Rightarrow> bool \<Rightarrow> (string, bytes) exec" where
  "CSHA256_FinalizeNoPadding st enforce_compression =
     (if enforce_compression \<and> md_bytes st \<noteq> 64 then Inl Throw
      else Inr (let s = md_s st in
        WriteBE32 (s ! 0) @ WriteBE32 (s ! 1) @ WriteBE32 (s ! 2) @ WriteBE32 (s ! 3) @
        WriteBE32 (s ! 4) @ WriteBE32 (s ! 5) @ WriteBE32 (s ! 6) @ WriteBE32 (s ! 7)))"

text \<open>
  \<open>Finalize\<close> pads the object in place and then reads its chaining value:
  \<open>CSHA256_padded\<close> is the object it leaves behind.
\<close>

definition CSHA256_padded :: "CSHA256 \<Rightarrow> CSHA256" where
  "CSHA256_padded st =
     (let sizedesc = WriteBE64 (of_nat (md_bytes st * 8));
          st1 = CSHA256_Write st (take (1 + ((119 - (md_bytes st mod 64)) mod 64)) md_pad)
      in CSHA256_Write st1 sizedesc)"

definition CSHA256_Finalize :: "CSHA256 \<Rightarrow> bytes" where
  "CSHA256_Finalize st =
     (case CSHA256_FinalizeNoPadding (CSHA256_padded st) False of Inr h \<Rightarrow> h | Inl _ \<Rightarrow> [])"

definition CSHA256_Reset :: "CSHA256 \<Rightarrow> CSHA256" where
  "CSHA256_Reset st = st\<lparr>md_bytes := 0, md_s := sha256_Initialize\<rparr>"

section \<open>What it computes\<close>

text \<open>
  The digest of the standard: the message followed by a one bit, zero bits and the
  64-bit big-endian bit count, cut into whole blocks and folded with the compression
  function from the initial value.
\<close>

definition sha256_spec :: "bytes \<Rightarrow> bytes" where
  "sha256_spec m =
     (let s = md_comp 64 sha256_Transform sha256_Initialize
                (m @ md_padding (length m) @ WriteBE64 (of_nat (length m * 8)))
      in concat (map (\<lambda>i. WriteBE32 (s ! i)) [0..<8]))"

lemma CSHA256_padded_abs:
  assumes "md_abs 64 sha256_Transform sha256_Initialize m st"
  shows "md_abs 64 sha256_Transform sha256_Initialize
    (m @ md_padding (length m) @ WriteBE64 (of_nat (length m * 8))) (CSHA256_padded st)"
proof -
  have n: "md_bytes st = length m" using assms by (simp add: md_abs_def)
  let ?p = "md_padding (length m)"
  let ?z = "WriteBE64 (of_nat (length m * 8))"
  have "md_abs 64 sha256_Transform sha256_Initialize ((m @ ?p) @ ?z)
      (CSHA256_Write (CSHA256_Write st ?p) ?z)"
    unfolding CSHA256_Write_def by (intro md_Write_abs) (use assms in auto)
  then show ?thesis
    by (simp add: CSHA256_padded_def n take_md_pad [simplified] Let_def)
qed

lemma CSHA256_Finalize_abs:
  assumes "md_abs 64 sha256_Transform sha256_Initialize m st"
  shows "CSHA256_Finalize st = sha256_spec m"
  using CSHA256_padded_abs [OF assms]
  by (simp add: CSHA256_Finalize_def CSHA256_FinalizeNoPadding_def sha256_spec_def md_abs_def
      Let_def upt_8)

lemma CSHA256_Reset_abs:
  assumes "md_abs 64 sha256_Transform sha256_Initialize m st"
  shows "md_abs 64 sha256_Transform sha256_Initialize [] (CSHA256_Reset st)"
  using assms by (simp add: md_abs_def CSHA256_Reset_def)

lemma length_sha256_spec [simp, length_simps]: "length (sha256_spec m) = 32"
  by (simp add: sha256_spec_def Let_def upt_8)

interpretation sha256: stream_hasher "CSHA256_new (replicate 64 0)" CSHA256_Write CSHA256_Finalize
  "md_abs 64 sha256_Transform sha256_Initialize" sha256_spec 32
proof unfold_locales
  show "md_abs 64 sha256_Transform sha256_Initialize [] (CSHA256_new (replicate 64 0))"
    by (simp add: md_abs_def CSHA256_new_def)
  show "\<And>m st d. md_abs 64 sha256_Transform sha256_Initialize m st \<Longrightarrow>
      md_abs 64 sha256_Transform sha256_Initialize (m @ d) (CSHA256_Write st d)"
    unfolding CSHA256_Write_def by (intro md_Write_abs) auto
qed (auto simp: CSHA256_Finalize_abs)

end
