(* ===== verification/Sha1.thy ===== *)
theory Sha1
  imports Md_Hash
begin

text \<open>
  \<open>CSHA1\<close> of src/src/crypto/sha1.cpp. As for SHA-256, one step stands for one of the 80
  unrolled calls of \<open>Round\<close> and the five working variables shift by one place per call.
\<close>

definition sha1_Round :: "u32 \<Rightarrow> u32 \<Rightarrow> u32 \<Rightarrow> u32 \<Rightarrow> u32 \<Rightarrow> u32 \<Rightarrow> u32 \<Rightarrow> u32 \<Rightarrow> u32 \<times> u32" where
  "sha1_Round a b c d e f k w =
     (push_bit 30 b OR drop_bit 2 b, e + ((push_bit 5 a OR drop_bit 27 a) + f + k + w))"

definition sha1_f1 :: "u32 \<Rightarrow> u32 \<Rightarrow> u32 \<Rightarrow> u32" where
  "sha1_f1 b c d = d XOR (b AND (c XOR d))"

definition sha1_f2 :: "u32 \<Rightarrow> u32 \<Rightarrow> u32 \<Rightarrow> u32" where
  "sha1_f2 b c d = b XOR c XOR d"

definition sha1_f3 :: "u32 \<Rightarrow> u32 \<Rightarrow> u32 \<Rightarrow> u32" where
  "sha1_f3 b c d = (b AND c) OR (d AND (b OR c))"

definition sha1_left :: "u32 \<Rightarrow> u32" where
  "sha1_left x = push_bit 1 x OR drop_bit 31 x"

definition sha1_Initialize :: "u32 list" where
  "sha1_Initialize = [0x67452301, 0xEFCDAB89, 0x98BADCFE, 0x10325476, 0xC3D2E1F0]"

definition sha1_k :: "nat \<Rightarrow> u32" where
  "sha1_k i = (if i < 20 then 0x5A827999 else if i < 40 then 0x6ED9EBA1
     else if i < 60 then 0x8F1BBCDC else 0xCA62C1D6)"

definition sha1_f :: "nat \<Rightarrow> u32 \<Rightarrow> u32 \<Rightarrow> u32 \<Rightarrow> u32" where
  "sha1_f i = (if i < 20 then sha1_f1 else if i < 40 then sha1_f2
     else if i < 60 then sha1_f3 else sha1_f2)"

type_synonym sha1_regs = "u32 \<times> u32 \<times> u32 \<times> u32 \<times> u32"

definition sha1_schedule :: "nat \<Rightarrow> u32 list \<Rightarrow> u32 list" where
  "sha1_schedule i w =
     (if i < 16 then w
      else w[i mod 16 := sha1_left (w ! (i mod 16) XOR w ! ((i + 13) mod 16)
             XOR w ! ((i + 8) mod 16) XOR w ! ((i + 2) mod 16))])"

fun sha1_step :: "sha1_regs \<times> u32 list \<Rightarrow> nat \<Rightarrow> sha1_regs \<times> u32 list" where
  "sha1_step ((a, b, c, d, e), w) i =
     (let w' = sha1_schedule i w;
          (b', e') = sha1_Round a b c d e (sha1_f i b c d) (sha1_k i) (w' ! (i mod 16))
      in ((e', a, b', c, d), w'))"

definition sha1_Transform :: "u32 list \<Rightarrow> bytes \<Rightarrow> u32 list" where
  "sha1_Transform s chunk =
     (let w = map (\<lambda>i. ReadBE32 (drop (4 * i) chunk)) [0..<16];
          ((a, b, c, d, e), _) =
            foldl sha1_step ((s ! 0, s ! 1, s ! 2, s ! 3, s ! 4), w) [0..<80]
      in [s ! 0 + a, s ! 1 + b, s ! 2 + c, s ! 3 + d, s ! 4 + e])"

type_synonym CSHA1 = "u32 list md_state"

definition CSHA1_new :: "bytes \<Rightarrow> CSHA1" where
  "CSHA1_new junk = \<lparr>md_s = sha1_Initialize, md_buf = junk, md_bytes = 0\<rparr>"

definition CSHA1_Write :: "CSHA1 \<Rightarrow> bytes \<Rightarrow> CSHA1" where
  "CSHA1_Write = md_Write 64 sha1_Transform"

definition CSHA1_Finalize :: "CSHA1 \<Rightarrow> bytes" where
  "CSHA1_Finalize st =
     (let sizedesc = WriteBE64 (of_nat (md_bytes st * 8));
          st1 = CSHA1_Write st (take (1 + ((119 - (md_bytes st mod 64)) mod 64)) md_pad);
          s = md_s (CSHA1_Write st1 sizedesc)
      in WriteBE32 (s ! 0) @ WriteBE32 (s ! 1) @ WriteBE32 (s ! 2) @ WriteBE32 (s ! 3) @
         WriteBE32 (s ! 4))"

definition CSHA1_Reset :: "CSHA1 \<Rightarrow> CSHA1" where
  "CSHA1_Reset st = st\<lparr>md_bytes := 0, md_s := sha1_Initialize\<rparr>"

definition sha1_spec :: "bytes \<Rightarrow> bytes" where
  "sha1_spec m =
     (let s = md_comp 64 sha1_Transform sha1_Initialize
                (m @ md_padding (length m) @ WriteBE64 (of_nat (length m * 8)))
      in concat (map (\<lambda>i. WriteBE32 (s ! i)) [0..<5]))"

lemma CSHA1_Finalize_abs:
  assumes "md_abs 64 sha1_Transform sha1_Initialize m st"
  shows "CSHA1_Finalize st = sha1_spec m"
proof -
  have n: "md_bytes st = length m" using assms by (simp add: md_abs_def)
  let ?p = "md_padding (length m)"
  let ?z = "WriteBE64 (of_nat (length m * 8))"
  have "md_abs 64 sha1_Transform sha1_Initialize ((m @ ?p) @ ?z)
      (CSHA1_Write (CSHA1_Write st ?p) ?z)"
    unfolding CSHA1_Write_def by (intro md_Write_abs) (use assms in auto)
  then have "md_s (CSHA1_Write (CSHA1_Write st ?p) ?z) =
      md_comp 64 sha1_Transform sha1_Initialize (m @ ?p @ ?z)"
    by (simp add: md_abs_def)
  then show ?thesis
    by (simp add: CSHA1_Finalize_def sha1_spec_def n take_md_pad [simplified] Let_def upt_5)
qed

lemma length_sha1_spec [simp, length_simps]: "length (sha1_spec m) = 20"
  by (simp add: sha1_spec_def Let_def upt_5)

interpretation sha1: stream_hasher "CSHA1_new (replicate 64 0)" CSHA1_Write CSHA1_Finalize
  "md_abs 64 sha1_Transform sha1_Initialize" sha1_spec 20
proof unfold_locales
  show "md_abs 64 sha1_Transform sha1_Initialize [] (CSHA1_new (replicate 64 0))"
    by (simp add: md_abs_def CSHA1_new_def)
  show "\<And>m st d. md_abs 64 sha1_Transform sha1_Initialize m st \<Longrightarrow>
      md_abs 64 sha1_Transform sha1_Initialize (m @ d) (CSHA1_Write st d)"
    unfolding CSHA1_Write_def by (intro md_Write_abs) auto
qed (auto simp: CSHA1_Finalize_abs)

end
