(* ===== verification/Ripemd160.thy ===== *)
theory Ripemd160
  imports Md_Hash
begin

text \<open>
  \<open>CRIPEMD160\<close> of src/src/crypto/ripemd160.cpp. \<open>Transform\<close> runs two independent lines of
  80 rounds over the same sixteen words; the tables hold, for each unrolled call, the
  index of its message word and its rotation. The functions \<open>R11\<close> to \<open>R51\<close> and \<open>R12\<close> to
  \<open>R52\<close> differ in the boolean function and the constant, selected by the round number.
\<close>

definition ripemd160_f1 :: "u32 \<Rightarrow> u32 \<Rightarrow> u32 \<Rightarrow> u32" where
  "ripemd160_f1 x y z = x XOR y XOR z"

definition ripemd160_f2 :: "u32 \<Rightarrow> u32 \<Rightarrow> u32 \<Rightarrow> u32" where
  "ripemd160_f2 x y z = (x AND y) OR (NOT x AND z)"

definition ripemd160_f3 :: "u32 \<Rightarrow> u32 \<Rightarrow> u32 \<Rightarrow> u32" where
  "ripemd160_f3 x y z = (x OR NOT y) XOR z"

definition ripemd160_f4 :: "u32 \<Rightarrow> u32 \<Rightarrow> u32 \<Rightarrow> u32" where
  "ripemd160_f4 x y z = (x AND z) OR (y AND NOT z)"

definition ripemd160_f5 :: "u32 \<Rightarrow> u32 \<Rightarrow> u32 \<Rightarrow> u32" where
  "ripemd160_f5 x y z = x XOR (y OR NOT z)"

definition ripemd160_Initialize :: "u32 list" where
  "ripemd160_Initialize = [0x67452301, 0xEFCDAB89, 0x98BADCFE, 0x10325476, 0xC3D2E1F0]"

definition ripemd160_rol :: "u32 \<Rightarrow> nat \<Rightarrow> u32" where
  "ripemd160_rol x i = push_bit i x OR drop_bit (32 - i) x"

definition ripemd160_Round ::
  "u32 \<Rightarrow> u32 \<Rightarrow> u32 \<Rightarrow> u32 \<Rightarrow> u32 \<Rightarrow> u32 \<Rightarrow> u32 \<Rightarrow> u32 \<Rightarrow> nat \<Rightarrow> u32 \<times> u32" where
  "ripemd160_Round a b c d e f x k r =
     (ripemd160_rol (a + f + x + k) r + e, ripemd160_rol c 10)"

text \<open>\<open>R11\<close>, \<open>R21\<close>, \<open>R31\<close>, \<open>R41\<close>, \<open>R51\<close>: the left line.\<close>

definition ripemd160_R1 :: "nat \<Rightarrow> u32 \<Rightarrow> u32 \<Rightarrow> u32 \<Rightarrow> u32 \<Rightarrow> u32 \<Rightarrow> u32 \<Rightarrow> nat \<Rightarrow> u32 \<times> u32" where
  "ripemd160_R1 g a b c d e x r =
     (if g = 0 then ripemd160_Round a b c d e (ripemd160_f1 b c d) x 0 r
      else if g = 1 then ripemd160_Round a b c d e (ripemd160_f2 b c d) x 0x5A827999 r
      else if g = 2 then ripemd160_Round a b c d e (ripemd160_f3 b c d) x 0x6ED9EBA1 r
      else if g = 3 then ripemd160_Round a b c d e (ripemd160_f4 b c d) x 0x8F1BBCDC r
      else ripemd160_Round a b c d e (ripemd160_f5 b c d) x 0xA953FD4E r)"

text \<open>\<open>R12\<close>, \<open>R22\<close>, \<open>R32\<close>, \<open>R42\<close>, \<open>R52\<close>: the right line.\<close>

definition ripemd160_R2 :: "nat \<Rightarrow> u32 \<Rightarrow> u32 \<Rightarrow> u32 \<Rightarrow> u32 \<Rightarrow> u32 \<Rightarrow> u32 \<Rightarrow> nat \<Rightarrow> u32 \<times> u32" where
  "ripemd160_R2 g a b c d e x r =
     (if g = 0 then ripemd160_Round a b c d e (ripemd160_f5 b c d) x 0x50A28BE6 r
      else if g = 1 then ripemd160_Round a b c d e (ripemd160_f4 b c d) x 0x5C4DD124 r
      else if g = 2 then ripemd160_Round a b c d e (ripemd160_f3 b c d) x 0x6D703EF3 r
      else if g = 3 then ripemd160_Round a b c d e (ripemd160_f2 b c d) x 0x7A6D76E9 r
      else ripemd160_Round a b c d e (ripemd160_f1 b c d) x 0 r)"

definition ripemd160_line1 :: "(nat \<times> nat) list" where
  "ripemd160_line1 = [
     (0, 11), (1, 14), (2, 15), (3, 12), (4, 5), (5, 8), (6, 7), (7, 9),
     (8, 11), (9, 13), (10, 14), (11, 15), (12, 6), (13, 7), (14, 9), (15, 8),
     (7, 7), (4, 6), (13, 8), (1, 13), (10, 11), (6, 9), (15, 7), (3, 15),
     (12, 7), (0, 12), (9, 15), (5, 9), (2, 11), (14, 7), (11, 13), (8, 12),
     (3, 11), (10, 13), (14, 6), (4, 7), (9, 14), (15, 9), (8, 13), (1, 15),
     (2, 14), (7, 8), (0, 13), (6, 6), (13, 5), (11, 12), (5, 7), (12, 5),
     (1, 11), (9, 12), (11, 14), (10, 15), (0, 14), (8, 15), (12, 9), (4, 8),
     (13, 9), (3, 14), (7, 5), (15, 6), (14, 8), (5, 6), (6, 5), (2, 12),
     (4, 9), (0, 15), (5, 5), (9, 11), (7, 6), (12, 8), (2, 13), (10, 12),
     (14, 5), (1, 12), (3, 13), (8, 14), (11, 11), (6, 8), (15, 5), (13, 6)]"

definition ripemd160_line2 :: "(nat \<times> nat) list" where
  "ripemd160_line2 = [
     (5, 8), (14, 9), (7, 9), (0, 11), (9, 13), (2, 15), (11, 15), (4, 5),
     (13, 7), (6, 7), (15, 8), (8, 11), (1, 14), (10, 14), (3, 12), (12, 6),
     (6, 9), (11, 13), (3, 15), (7, 7), (0, 12), (13, 8), (5, 9), (10, 11),
     (14, 7), (15, 7), (8, 12), (12, 7), (4, 6), (9, 15), (1, 13), (2, 11),
     (15, 9), (5, 7), (1, 15), (3, 11), (7, 8), (14, 6), (6, 6), (9, 14),
     (11, 12), (8, 13), (12, 5), (2, 14), (10, 13), (0, 13), (4, 7), (13, 5),
     (8, 15), (6, 5), (4, 8), (1, 11), (3, 14), (11, 14), (15, 6), (0, 14),
     (5, 6), (12, 9), (2, 12), (13, 9), (9, 12), (7, 5), (10, 15), (14, 8),
     (12, 8), (15, 5), (10, 12), (4, 9), (1, 12), (5, 5), (8, 14), (7, 6),
     (6, 8), (2, 13), (13, 6), (14, 5), (0, 15), (3, 13), (9, 11), (11, 11)]"

type_synonym ripemd160_regs = "u32 \<times> u32 \<times> u32 \<times> u32 \<times> u32"

fun ripemd160_step ::
  "(nat \<Rightarrow> u32 \<Rightarrow> u32 \<Rightarrow> u32 \<Rightarrow> u32 \<Rightarrow> u32 \<Rightarrow> u32 \<Rightarrow> nat \<Rightarrow> u32 \<times> u32) \<Rightarrow> u32 list \<Rightarrow>
    ripemd160_regs \<Rightarrow> nat \<times> nat \<times> nat \<Rightarrow> ripemd160_regs" where
  "ripemd160_step rnd w (a, b, c, d, e) (i, j, r) =
     (let (a', c') = rnd (i div 16) a b c d e (w ! j) r in (e, a', b, c', d))"

definition ripemd160_Transform :: "u32 list \<Rightarrow> bytes \<Rightarrow> u32 list" where
  "ripemd160_Transform s chunk =
     (let regs = (s ! 0, s ! 1, s ! 2, s ! 3, s ! 4);
          w = map (\<lambda>i. ReadLE32 (drop (4 * i) chunk)) [0..<16];
          (a1, b1, c1, d1, e1) =
            foldl (ripemd160_step ripemd160_R1 w) regs (zip [0..<80] ripemd160_line1);
          (a2, b2, c2, d2, e2) =
            foldl (ripemd160_step ripemd160_R2 w) regs (zip [0..<80] ripemd160_line2)
      in [s ! 1 + c1 + d2, s ! 2 + d1 + e2, s ! 3 + e1 + a2, s ! 4 + a1 + b2, s ! 0 + b1 + c2])"

type_synonym CRIPEMD160 = "u32 list md_state"

definition CRIPEMD160_new :: "bytes \<Rightarrow> CRIPEMD160" where
  "CRIPEMD160_new junk = \<lparr>md_s = ripemd160_Initialize, md_buf = junk, md_bytes = 0\<rparr>"

definition CRIPEMD160_Write :: "CRIPEMD160 \<Rightarrow> bytes \<Rightarrow> CRIPEMD160" where
  "CRIPEMD160_Write = md_Write 64 ripemd160_Transform"

definition CRIPEMD160_Finalize :: "CRIPEMD160 \<Rightarrow> bytes" where
  "CRIPEMD160_Finalize st =
     (let sizedesc = WriteLE64 (of_nat (md_bytes st * 8));
          st1 = CRIPEMD160_Write st (take (1 + ((119 - (md_bytes st mod 64)) mod 64)) md_pad);
          s = md_s (CRIPEMD160_Write st1 sizedesc)
      in WriteLE32 (s ! 0) @ WriteLE32 (s ! 1) @ WriteLE32 (s ! 2) @ WriteLE32 (s ! 3) @
         WriteLE32 (s ! 4))"

definition CRIPEMD160_Reset :: "CRIPEMD160 \<Rightarrow> CRIPEMD160" where
  "CRIPEMD160_Reset st = st\<lparr>md_bytes := 0, md_s := ripemd160_Initialize\<rparr>"

definition ripemd160_spec :: "bytes \<Rightarrow> bytes" where
  "ripemd160_spec m =
     (let s = md_comp 64 ripemd160_Transform ripemd160_Initialize
                (m @ md_padding (length m) @ WriteLE64 (of_nat (length m * 8)))
      in concat (map (\<lambda>i. WriteLE32 (s ! i)) [0..<5]))"

lemma CRIPEMD160_Finalize_abs:
  assumes "md_abs 64 ripemd160_Transform ripemd160_Initialize m st"
  shows "CRIPEMD160_Finalize st = ripemd160_spec m"
proof -
  have n: "md_bytes st = length m" using assms by (simp add: md_abs_def)
  let ?p = "md_padding (length m)"
  let ?z = "WriteLE64 (of_nat (length m * 8))"
  have "md_abs 64 ripemd160_Transform ripemd160_Initialize ((m @ ?p) @ ?z)
      (CRIPEMD160_Write (CRIPEMD160_Write st ?p) ?z)"
    unfolding CRIPEMD160_Write_def by (intro md_Write_abs) (use assms in auto)
  then have "md_s (CRIPEMD160_Write (CRIPEMD160_Write st ?p) ?z) =
      md_comp 64 ripemd160_Transform ripemd160_Initialize (m @ ?p @ ?z)"
    by (simp add: md_abs_def)
  then show ?thesis
    by (simp add: CRIPEMD160_Finalize_def ripemd160_spec_def n take_md_pad [simplified] Let_def upt_5)
qed

lemma length_ripemd160_spec [simp, length_simps]: "length (ripemd160_spec m) = 20"
  by (simp add: ripemd160_spec_def Let_def upt_5)

interpretation ripemd160: stream_hasher "CRIPEMD160_new (replicate 64 0)" CRIPEMD160_Write
  CRIPEMD160_Finalize "md_abs 64 ripemd160_Transform ripemd160_Initialize" ripemd160_spec 20
proof unfold_locales
  show "md_abs 64 ripemd160_Transform ripemd160_Initialize [] (CRIPEMD160_new (replicate 64 0))"
    by (simp add: md_abs_def CRIPEMD160_new_def)
  show "\<And>m st d. md_abs 64 ripemd160_Transform ripemd160_Initialize m st \<Longrightarrow>
      md_abs 64 ripemd160_Transform ripemd160_Initialize (m @ d) (CRIPEMD160_Write st d)"
    unfolding CRIPEMD160_Write_def by (intro md_Write_abs) auto
qed (auto simp: CRIPEMD160_Finalize_abs)

end
