(* ===== verification/Hash.thy ===== *)
theory Hash
  imports Sha256 Sha1 Ripemd160
begin

text \<open>
  The composed hashers of src/src/hash.h: \<open>CHash256\<close> (SHA-256 twice), \<open>CHash160\<close>
  (SHA-256, then RIPEMD-160), the functions \<open>Hash\<close> and \<open>Hash160\<close> over byte ranges and
  the stream \<open>CHashWriter\<close>. Their lemmas rest on the \<open>stream_hasher\<close> interface of the
  underlying classes. The buffers of fresh objects are uninitialised in the code; the
  constructors below start them with zeros.
\<close>

section \<open>CHash256 and CHash160\<close>

definition CHash256_new :: CSHA256 where
  "CHash256_new = CSHA256_new (replicate 64 0)"

definition CHash256_Write :: "CSHA256 \<Rightarrow> bytes \<Rightarrow> CSHA256" where
  "CHash256_Write sha d = CSHA256_Write sha d"

definition CHash256_Finalize :: "CSHA256 \<Rightarrow> bytes" where
  "CHash256_Finalize sha =
     (let b = CSHA256_Finalize sha
      in CSHA256_Finalize (CSHA256_Write (CSHA256_Reset (CSHA256_padded sha)) b))"

definition CHash160_new :: CSHA256 where
  "CHash160_new = CSHA256_new (replicate 64 0)"

definition CHash160_Write :: "CSHA256 \<Rightarrow> bytes \<Rightarrow> CSHA256" where
  "CHash160_Write sha d = CSHA256_Write sha d"

definition CHash160_Finalize :: "CSHA256 \<Rightarrow> bytes" where
  "CHash160_Finalize sha =
     (let b = CSHA256_Finalize sha
      in CRIPEMD160_Finalize (CRIPEMD160_Write (CRIPEMD160_new (replicate 64 0)) b))"

interpretation hash256: stream_hasher CHash256_new CHash256_Write CHash256_Finalize
  "md_abs 64 sha256_Transform sha256_Initialize" "\<lambda>m. sha256_spec (sha256_spec m)" 32
proof unfold_locales
  show "md_abs 64 sha256_Transform sha256_Initialize [] CHash256_new"
    unfolding CHash256_new_def by (rule sha256.absorbed_new)
next
  fix m st d
  assume a: "md_abs 64 sha256_Transform sha256_Initialize m st"
  show "md_abs 64 sha256_Transform sha256_Initialize (m @ d) (CHash256_Write st d)"
    unfolding CHash256_Write_def by (rule sha256.absorbed_Write [OF a])
  have "md_abs 64 sha256_Transform sha256_Initialize ([] @ sha256_spec m)
      (CSHA256_Write (CSHA256_Reset (CSHA256_padded st)) (sha256_spec m))"
    by (rule sha256.absorbed_Write, rule CSHA256_Reset_abs, rule CSHA256_padded_abs [OF a])
  then show "CHash256_Finalize st = sha256_spec (sha256_spec m)"
    using sha256.Finalize_absorbed [OF a] sha256.Finalize_absorbed
    by (simp add: CHash256_Finalize_def Let_def)
qed simp

interpretation hash160: stream_hasher CHash160_new CHash160_Write CHash160_Finalize
  "md_abs 64 sha256_Transform sha256_Initialize" "\<lambda>m. ripemd160_spec (sha256_spec m)" 20
proof unfold_locales
  show "md_abs 64 sha256_Transform sha256_Initialize [] CHash160_new"
    unfolding CHash160_new_def by (rule sha256.absorbed_new)
next
  fix m st d
  assume a: "md_abs 64 sha256_Transform sha256_Initialize m st"
  show "md_abs 64 sha256_Transform sha256_Initialize (m @ d) (CHash160_Write st d)"
    unfolding CHash160_Write_def by (rule sha256.absorbed_Write [OF a])
  show "CHash160_Finalize st = ripemd160_spec (sha256_spec m)"
    using sha256.Finalize_absorbed [OF a]
    by (simp add: CHash160_Finalize_def Let_def ripemd160.one_shot)
qed simp

section \<open>Hash functions over byte ranges\<close>

text \<open>
  The one-byte array \<open>pblank\<close> only supplies a valid pointer for an empty range: the
  length written is that of the range.
\<close>

definition Hash1 :: "bytes \<Rightarrow> bytes" where
  "Hash1 p = CHash256_Finalize (CHash256_Write CHash256_new p)"

definition Hash2 :: "bytes \<Rightarrow> bytes \<Rightarrow> bytes" where
  "Hash2 p1 p2 = CHash256_Finalize (CHash256_Write (CHash256_Write CHash256_new p1) p2)"

definition Hash3 :: "bytes \<Rightarrow> bytes \<Rightarrow> bytes \<Rightarrow> bytes" where
  "Hash3 p1 p2 p3 =
     CHash256_Finalize (CHash256_Write (CHash256_Write (CHash256_Write CHash256_new p1) p2) p3)"

definition Hash160 :: "bytes \<Rightarrow> bytes" where
  "Hash160 p = CHash160_Finalize (CHash160_Write CHash160_new p)"

definition CRIPEMD160_hash :: "bytes \<Rightarrow> bytes" where
  "CRIPEMD160_hash p = CRIPEMD160_Finalize (CRIPEMD160_Write (CRIPEMD160_new (replicate 64 0)) p)"

definition CSHA1_hash :: "bytes \<Rightarrow> bytes" where
  "CSHA1_hash p = CSHA1_Finalize (CSHA1_Write (CSHA1_new (replicate 64 0)) p)"

definition CSHA256_hash :: "bytes \<Rightarrow> bytes" where
  "CSHA256_hash p = CSHA256_Finalize (CSHA256_Write (CSHA256_new (replicate 64 0)) p)"

lemma Hash_spec:
  "Hash1 p = sha256_spec (sha256_spec p)"
  "Hash2 p q = Hash1 (p @ q)"
  "Hash3 p q r = Hash1 (p @ q @ r)"
  using hash256.stream_digest [of "[p]"] hash256.stream_digest [of "[p, q]"]
    hash256.stream_digest [of "[p @ q]"] hash256.stream_digest [of "[p, q, r]"]
    hash256.stream_digest [of "[p @ q @ r]"]
  by (simp_all add: Hash1_def Hash2_def Hash3_def)

lemma length_hashes [simp, length_simps]:
  "length (Hash1 p) = 32"
  "length (Hash2 p q) = 32"
  "length (Hash3 p q r) = 32"
  "length (Hash160 p) = 20"
  "length (CRIPEMD160_hash p) = 20"
  "length (CSHA1_hash p) = 20"
  "length (CSHA256_hash p) = 32"
  by (simp_all add: Hash_spec Hash160_def hash160.one_shot CRIPEMD160_hash_def ripemd160.one_shot
      CSHA1_hash_def sha1.one_shot CSHA256_hash_def sha256.one_shot)

section \<open>CHashWriter\<close>

text \<open>A \<open>CHashWriter\<close> feeds every serialized piece to its \<open>CHash256\<close>.\<close>

definition CHashWriter_new :: CSHA256 where
  "CHashWriter_new = CHash256_new"

definition CHashWriter_write :: "CSHA256 \<Rightarrow> bytes \<Rightarrow> CSHA256" where
  "CHashWriter_write ctx pch = CHash256_Write ctx pch"

definition CHashWriter_GetHash :: "CSHA256 \<Rightarrow> bytes" where
  "CHashWriter_GetHash ctx = CHash256_Finalize ctx"

lemma CHashWriter_pieces:
  "CHashWriter_GetHash (foldl CHashWriter_write CHashWriter_new ds) = Hash1 (concat ds)"
proof -
  have w: "CHashWriter_write = CHash256_Write" by (intro ext) (simp add: CHashWriter_write_def)
  show ?thesis
    unfolding w CHashWriter_new_def CHashWriter_GetHash_def
    by (simp add: hash256.stream_digest Hash_spec)
qed

section \<open>Property\<close>

text \<open>C8: the incremental hashers compute the pad-and-compress digest of the concatenation of
  everything written to them, however the input is cut into pieces and whatever the
  uninitialised buffer of a fresh object contains.\<close>

theorem streaming_hash:
  assumes "length junk = 64"
  shows "CSHA256_Finalize (foldl CSHA256_Write (CSHA256_new junk) ds) = sha256_spec (concat ds) \<and>
         CSHA1_Finalize (foldl CSHA1_Write (CSHA1_new junk) ds) = sha1_spec (concat ds) \<and>
         CRIPEMD160_Finalize (foldl CRIPEMD160_Write (CRIPEMD160_new junk) ds) =
           ripemd160_spec (concat ds) \<and>
         CHash256_Finalize (foldl CHash256_Write CHash256_new ds) =
           sha256_spec (sha256_spec (concat ds)) \<and>
         CHash160_Finalize (foldl CHash160_Write CHash160_new ds) =
           ripemd160_spec (sha256_spec (concat ds))"
proof -
  have "md_abs 64 sha256_Transform sha256_Initialize [] (CSHA256_new junk)"
    "md_abs 64 sha1_Transform sha1_Initialize [] (CSHA1_new junk)"
    "md_abs 64 ripemd160_Transform ripemd160_Initialize [] (CRIPEMD160_new junk)"
    using assms by (simp_all add: md_abs_def CSHA256_new_def CSHA1_new_def CRIPEMD160_new_def)
  then show ?thesis
    using sha256.Finalize_absorbed [OF sha256.absorbed_foldl, of "[]" "CSHA256_new junk" ds]
      sha1.Finalize_absorbed [OF sha1.absorbed_foldl, of "[]" "CSHA1_new junk" ds]
      ripemd160.Finalize_absorbed [OF ripemd160.absorbed_foldl, of "[]" "CRIPEMD160_new junk" ds]
    by (simp add: hash256.stream_digest hash160.stream_digest)
qed

theorem streaming_hash_witness:
  "length (replicate 64 (0xff :: byte)) = 64 \<and>
   CSHA256_Finalize (foldl CSHA256_Write (CSHA256_new (replicate 64 0xff)) [[1, 2], [], [3]]) =
     sha256_spec [1, 2, 3]"
  using streaming_hash [of "replicate 64 0xff" "[[1, 2], [], [3]]"] by simp

end
