(* ===== verification/Script.thy ===== *)
theory Script
  imports Prelude
begin

text \<open>
  Scripts: the opcodes, the numbers \<open>CScriptNum\<close> and the class \<open>CScript\<close> of
  src/src/script/script.h and src/src/script/script.cpp. A script is its byte string; an
  iterator into it is the list of bytes from there to the end. An opcode is the number
  of its byte, so that the code's order comparisons read the same here.
\<close>

section \<open>Opcodes\<close>

type_synonym opcodetype = nat
type_synonym valtype = bytes
type_synonym script = bytes

abbreviation (input) OP_0 :: opcodetype where
  "OP_0 \<equiv> 0x00"

abbreviation (input) OP_FALSE :: opcodetype where
  "OP_FALSE \<equiv> 0x00"

abbreviation (input) OP_PUSHDATA1 :: opcodetype where
  "OP_PUSHDATA1 \<equiv> 0x4c"

abbreviation (input) OP_PUSHDATA2 :: opcodetype where
  "OP_PUSHDATA2 \<equiv> 0x4d"

abbreviation (input) OP_PUSHDATA4 :: opcodetype where
  "OP_PUSHDATA4 \<equiv> 0x4e"

abbreviation (input) OP_1NEGATE :: opcodetype where
  "OP_1NEGATE \<equiv> 0x4f"

abbreviation (input) OP_RESERVED :: opcodetype where
  "OP_RESERVED \<equiv> 0x50"

abbreviation (input) OP_1 :: opcodetype where
  "OP_1 \<equiv> 0x51"

abbreviation (input) OP_TRUE :: opcodetype where
  "OP_TRUE \<equiv> 0x51"

abbreviation (input) OP_2 :: opcodetype where
  "OP_2 \<equiv> 0x52"

abbreviation (input) OP_3 :: opcodetype where
  "OP_3 \<equiv> 0x53"

abbreviation (input) OP_4 :: opcodetype where
  "OP_4 \<equiv> 0x54"

abbreviation (input) OP_5 :: opcodetype where
  "OP_5 \<equiv> 0x55"

abbreviation (input) OP_6 :: opcodetype where
  "OP_6 \<equiv> 0x56"

abbreviation (input) OP_7 :: opcodetype where
  "OP_7 \<equiv> 0x57"

abbreviation (input) OP_8 :: opcodetype where
  "OP_8 \<equiv> 0x58"

abbreviation (input) OP_9 :: opcodetype where
  "OP_9 \<equiv> 0x59"

abbreviation (input) OP_10 :: opcodetype where
  "OP_10 \<equiv> 0x5a"

abbreviation (input) OP_11 :: opcodetype where
  "OP_11 \<equiv> 0x5b"

abbreviation (input) OP_12 :: opcodetype where
  "OP_12 \<equiv> 0x5c"

abbreviation (input) OP_13 :: opcodetype where
  "OP_13 \<equiv> 0x5d"

abbreviation (input) OP_14 :: opcodetype where
  "OP_14 \<equiv> 0x5e"

abbreviation (input) OP_15 :: opcodetype where
  "OP_15 \<equiv> 0x5f"

abbreviation (input) OP_16 :: opcodetype where
  "OP_16 \<equiv> 0x60"

abbreviation (input) OP_NOP :: opcodetype where
  "OP_NOP \<equiv> 0x61"

abbreviation (input) OP_VER :: opcodetype where
  "OP_VER \<equiv> 0x62"

abbreviation (input) OP_IF :: opcodetype where
  "OP_IF \<equiv> 0x63"

abbreviation (input) OP_NOTIF :: opcodetype where
  "OP_NOTIF \<equiv> 0x64"

abbreviation (input) OP_VERIF :: opcodetype where
  "OP_VERIF \<equiv> 0x65"

abbreviation (input) OP_VERNOTIF :: opcodetype where
  "OP_VERNOTIF \<equiv> 0x66"

abbreviation (input) OP_ELSE :: opcodetype where
  "OP_ELSE \<equiv> 0x67"

abbreviation (input) OP_ENDIF :: opcodetype where
  "OP_ENDIF \<equiv> 0x68"

abbreviation (input) OP_VERIFY :: opcodetype where
  "OP_VERIFY \<equiv> 0x69"

abbreviation (input) OP_RETURN :: opcodetype where
  "OP_RETURN \<equiv> 0x6a"

abbreviation (input) OP_TOALTSTACK :: opcodetype where
  "OP_TOALTSTACK \<equiv> 0x6b"

abbreviation (input) OP_FROMALTSTACK :: opcodetype where
  "OP_FROMALTSTACK \<equiv> 0x6c"

abbreviation (input) OP_2DROP :: opcodetype where
  "OP_2DROP \<equiv> 0x6d"

abbreviation (input) OP_2DUP :: opcodetype where
  "OP_2DUP \<equiv> 0x6e"

abbreviation (input) OP_3DUP :: opcodetype where
  "OP_3DUP \<equiv> 0x6f"

abbreviation (input) OP_2OVER :: opcodetype where
  "OP_2OVER \<equiv> 0x70"

abbreviation (input) OP_2ROT :: opcodetype where
  "OP_2ROT \<equiv> 0x71"

abbreviation (input) OP_2SWAP :: opcodetype where
  "OP_2SWAP \<equiv> 0x72"

abbreviation (input) OP_IFDUP :: opcodetype where
  "OP_IFDUP \<equiv> 0x73"

abbreviation (input) OP_DEPTH :: opcodetype where
  "OP_DEPTH \<equiv> 0x74"

abbreviation (input) OP_DROP :: opcodetype where
  "OP_DROP \<equiv> 0x75"

abbreviation (input) OP_DUP :: opcodetype where
  "OP_DUP \<equiv> 0x76"

abbreviation (input) OP_NIP :: opcodetype where
  "OP_NIP \<equiv> 0x77"

abbreviation (input) OP_OVER :: opcodetype where
  "OP_OVER \<equiv> 0x78"

abbreviation (input) OP_PICK :: opcodetype where
  "OP_PICK \<equiv> 0x79"

abbreviation (input) OP_ROLL :: opcodetype where
  "OP_ROLL \<equiv> 0x7a"

abbreviation (input) OP_ROT :: opcodetype where
  "OP_ROT \<equiv> 0x7b"

abbreviation (input) OP_SWAP :: opcodetype where
  "OP_SWAP \<equiv> 0x7c"

abbreviation (input) OP_TUCK :: opcodetype where
  "OP_TUCK \<equiv> 0x7d"

abbreviation (input) OP_CAT :: opcodetype where
  "OP_CAT \<equiv> 0x7e"

abbreviation (input) OP_SUBSTR :: opcodetype where
  "OP_SUBSTR \<equiv> 0x7f"

abbreviation (input) OP_LEFT :: opcodetype where
  "OP_LEFT \<equiv> 0x80"

abbreviation (input) OP_RIGHT :: opcodetype where
  "OP_RIGHT \<equiv> 0x81"

abbreviation (input) OP_SIZE :: opcodetype where
  "OP_SIZE \<equiv> 0x82"

abbreviation (input) OP_INVERT :: opcodetype where
  "OP_INVERT \<equiv> 0x83"

abbreviation (input) OP_AND :: opcodetype where
  "OP_AND \<equiv> 0x84"

abbreviation (input) OP_OR :: opcodetype where
  "OP_OR \<equiv> 0x85"

abbreviation (input) OP_XOR :: opcodetype where
  "OP_XOR \<equiv> 0x86"

abbreviation (input) OP_EQUAL :: opcodetype where
  "OP_EQUAL \<equiv> 0x87"

abbreviation (input) OP_EQUALVERIFY :: opcodetype where
  "OP_EQUALVERIFY \<equiv> 0x88"

abbreviation (input) OP_RESERVED1 :: opcodetype where
  "OP_RESERVED1 \<equiv> 0x89"

abbreviation (input) OP_RESERVED2 :: opcodetype where
  "OP_RESERVED2 \<equiv> 0x8a"

abbreviation (input) OP_1ADD :: opcodetype where
  "OP_1ADD \<equiv> 0x8b"

abbreviation (input) OP_1SUB :: opcodetype where
  "OP_1SUB \<equiv> 0x8c"

abbreviation (input) OP_2MUL :: opcodetype where
  "OP_2MUL \<equiv> 0x8d"

abbreviation (input) OP_2DIV :: opcodetype where
  "OP_2DIV \<equiv> 0x8e"

abbreviation (input) OP_NEGATE :: opcodetype where
  "OP_NEGATE \<equiv> 0x8f"

abbreviation (input) OP_ABS :: opcodetype where
  "OP_ABS \<equiv> 0x90"

abbreviation (input) OP_NOT :: opcodetype where
  "OP_NOT \<equiv> 0x91"

abbreviation (input) OP_0NOTEQUAL :: opcodetype where
  "OP_0NOTEQUAL \<equiv> 0x92"

abbreviation (input) OP_ADD :: opcodetype where
  "OP_ADD \<equiv> 0x93"

abbreviation (input) OP_SUB :: opcodetype where
  "OP_SUB \<equiv> 0x94"

abbreviation (input) OP_MUL :: opcodetype where
  "OP_MUL \<equiv> 0x95"

abbreviation (input) OP_DIV :: opcodetype where
  "OP_DIV \<equiv> 0x96"

abbreviation (input) OP_MOD :: opcodetype where
  "OP_MOD \<equiv> 0x97"

abbreviation (input) OP_LSHIFT :: opcodetype where
  "OP_LSHIFT \<equiv> 0x98"

abbreviation (input) OP_RSHIFT :: opcodetype where
  "OP_RSHIFT \<equiv> 0x99"

abbreviation (input) OP_BOOLAND :: opcodetype where
  "OP_BOOLAND \<equiv> 0x9a"

abbreviation (input) OP_BOOLOR :: opcodetype where
  "OP_BOOLOR \<equiv> 0x9b"

abbreviation (input) OP_NUMEQUAL :: opcodetype where
  "OP_NUMEQUAL \<equiv> 0x9c"

abbreviation (input) OP_NUMEQUALVERIFY :: opcodetype where
  "OP_NUMEQUALVERIFY \<equiv> 0x9d"

abbreviation (input) OP_NUMNOTEQUAL :: opcodetype where
  "OP_NUMNOTEQUAL \<equiv> 0x9e"

abbreviation (input) OP_LESSTHAN :: opcodetype where
  "OP_LESSTHAN \<equiv> 0x9f"

abbreviation (input) OP_GREATERTHAN :: opcodetype where
  "OP_GREATERTHAN \<equiv> 0xa0"

abbreviation (input) OP_LESSTHANOREQUAL :: opcodetype where
  "OP_LESSTHANOREQUAL \<equiv> 0xa1"

abbreviation (input) OP_GREATERTHANOREQUAL :: opcodetype where
  "OP_GREATERTHANOREQUAL \<equiv> 0xa2"

abbreviation (input) OP_MIN :: opcodetype where
  "OP_MIN \<equiv> 0xa3"

abbreviation (input) OP_MAX :: opcodetype where
  "OP_MAX \<equiv> 0xa4"

abbreviation (input) OP_WITHIN :: opcodetype where
  "OP_WITHIN \<equiv> 0xa5"

abbreviation (input) OP_RIPEMD160 :: opcodetype where
  "OP_RIPEMD160 \<equiv> 0xa6"

abbreviation (input) OP_SHA1 :: opcodetype where
  "OP_SHA1 \<equiv> 0xa7"

abbreviation (input) OP_SHA256 :: opcodetype where
  "OP_SHA256 \<equiv> 0xa8"

abbreviation (input) OP_HASH160 :: opcodetype where
  "OP_HASH160 \<equiv> 0xa9"

abbreviation (input) OP_HASH256 :: opcodetype where
  "OP_HASH256 \<equiv> 0xaa"

abbreviation (input) OP_CODESEPARATOR :: opcodetype where
  "OP_CODESEPARATOR \<equiv> 0xab"

abbreviation (input) OP_CHECKSIG :: opcodetype where
  "OP_CHECKSIG \<equiv> 0xac"

abbreviation (input) OP_CHECKSIGVERIFY :: opcodetype where
  "OP_CHECKSIGVERIFY \<equiv> 0xad"

abbreviation (input) OP_CHECKMULTISIG :: opcodetype where
  "OP_CHECKMULTISIG \<equiv> 0xae"

abbreviation (input) OP_CHECKMULTISIGVERIFY :: opcodetype where
  "OP_CHECKMULTISIGVERIFY \<equiv> 0xaf"

abbreviation (input) OP_NOP1 :: opcodetype where
  "OP_NOP1 \<equiv> 0xb0"

abbreviation (input) OP_NOP2 :: opcodetype where
  "OP_NOP2 \<equiv> 0xb1"

abbreviation (input) OP_CHECKLOCKTIMEVERIFY :: opcodetype where
  "OP_CHECKLOCKTIMEVERIFY \<equiv> 0xb1"

abbreviation (input) OP_NOP3 :: opcodetype where
  "OP_NOP3 \<equiv> 0xb2"

abbreviation (input) OP_NOP4 :: opcodetype where
  "OP_NOP4 \<equiv> 0xb3"

abbreviation (input) OP_NOP5 :: opcodetype where
  "OP_NOP5 \<equiv> 0xb4"

abbreviation (input) OP_NOP6 :: opcodetype where
  "OP_NOP6 \<equiv> 0xb5"

abbreviation (input) OP_NOP7 :: opcodetype where
  "OP_NOP7 \<equiv> 0xb6"

abbreviation (input) OP_NOP8 :: opcodetype where
  "OP_NOP8 \<equiv> 0xb7"

abbreviation (input) OP_NOP9 :: opcodetype where
  "OP_NOP9 \<equiv> 0xb8"

abbreviation (input) OP_NOP10 :: opcodetype where
  "OP_NOP10 \<equiv> 0xb9"

abbreviation (input) OP_INVALIDOPCODE :: opcodetype where
  "OP_INVALIDOPCODE \<equiv> 0xff"

abbreviation (input) MAX_SCRIPT_ELEMENT_SIZE :: nat where
  "MAX_SCRIPT_ELEMENT_SIZE \<equiv> 520"

abbreviation (input) MAX_SCRIPT_SIZE :: nat where
  "MAX_SCRIPT_SIZE \<equiv> 10000"

abbreviation (input) LOCKTIME_THRESHOLD :: nat where
  "LOCKTIME_THRESHOLD \<equiv> 500000000"

definition opcode_names :: "(opcodetype \<times> string) list" where
  "opcode_names = [
     (OP_0, ''0''),
     (OP_PUSHDATA1, ''OP_PUSHDATA1''),
     (OP_PUSHDATA2, ''OP_PUSHDATA2''),
     (OP_PUSHDATA4, ''OP_PUSHDATA4''),
     (OP_1NEGATE, ''-1''),
     (OP_RESERVED, ''OP_RESERVED''),
     (OP_1, ''1''),
     (OP_2, ''2''),
     (OP_3, ''3''),
     (OP_4, ''4''),
     (OP_5, ''5''),
     (OP_6, ''6''),
     (OP_7, ''7''),
     (OP_8, ''8''),
     (OP_9, ''9''),
     (OP_10, ''10''),
     (OP_11, ''11''),
     (OP_12, ''12''),
     (OP_13, ''13''),
     (OP_14, ''14''),
     (OP_15, ''15''),
     (OP_16, ''16''),
     (OP_NOP, ''OP_NOP''),
     (OP_VER, ''OP_VER''),
     (OP_IF, ''OP_IF''),
     (OP_NOTIF, ''OP_NOTIF''),
     (OP_VERIF, ''OP_VERIF''),
     (OP_VERNOTIF, ''OP_VERNOTIF''),
     (OP_ELSE, ''OP_ELSE''),
     (OP_ENDIF, ''OP_ENDIF''),
     (OP_VERIFY, ''OP_VERIFY''),
     (OP_RETURN, ''OP_RETURN''),
     (OP_TOALTSTACK, ''OP_TOALTSTACK''),
     (OP_FROMALTSTACK, ''OP_FROMALTSTACK''),
     (OP_2DROP, ''OP_2DROP''),
     (OP_2DUP, ''OP_2DUP''),
     (OP_3DUP, ''OP_3DUP''),
     (OP_2OVER, ''OP_2OVER''),
     (OP_2ROT, ''OP_2ROT''),
     (OP_2SWAP, ''OP_2SWAP''),
     (OP_IFDUP, ''OP_IFDUP''),
     (OP_DEPTH, ''OP_DEPTH''),
     (OP_DROP, ''OP_DROP''),
     (OP_DUP, ''OP_DUP''),
     (OP_NIP, ''OP_NIP''),
     (OP_OVER, ''OP_OVER''),
     (OP_PICK, ''OP_PICK''),
     (OP_ROLL, ''OP_ROLL''),
     (OP_ROT, ''OP_ROT''),
     (OP_SWAP, ''OP_SWAP''),
     (OP_TUCK, ''OP_TUCK''),
     (OP_CAT, ''OP_CAT''),
     (OP_SUBSTR, ''OP_SUBSTR''),
     (OP_LEFT, ''OP_LEFT''),
     (OP_RIGHT, ''OP_RIGHT''),
     (OP_SIZE, ''OP_SIZE''),
     (OP_INVERT, ''OP_INVERT''),
     (OP_AND, ''OP_AND''),
     (OP_OR, ''OP_OR''),
     (OP_XOR, ''OP_XOR''),
     (OP_EQUAL, ''OP_EQUAL''),
     (OP_EQUALVERIFY, ''OP_EQUALVERIFY''),
     (OP_RESERVED1, ''OP_RESERVED1''),
     (OP_RESERVED2, ''OP_RESERVED2''),
     (OP_1ADD, ''OP_1ADD''),
     (OP_1SUB, ''OP_1SUB''),
     (OP_2MUL, ''OP_2MUL''),
     (OP_2DIV, ''OP_2DIV''),
     (OP_NEGATE, ''OP_NEGATE''),
     (OP_ABS, ''OP_ABS''),
     (OP_NOT, ''OP_NOT''),
     (OP_0NOTEQUAL, ''OP_0NOTEQUAL''),
     (OP_ADD, ''OP_ADD''),
     (OP_SUB, ''OP_SUB''),
     (OP_MUL, ''OP_MUL''),
     (OP_DIV, ''OP_DIV''),
     (OP_MOD, ''OP_MOD''),
     (OP_LSHIFT, ''OP_LSHIFT''),
     (OP_RSHIFT, ''OP_RSHIFT''),
     (OP_BOOLAND, ''OP_BOOLAND''),
     (OP_BOOLOR, ''OP_BOOLOR''),
     (OP_NUMEQUAL, ''OP_NUMEQUAL''),
     (OP_NUMEQUALVERIFY, ''OP_NUMEQUALVERIFY''),
     (OP_NUMNOTEQUAL, ''OP_NUMNOTEQUAL''),
     (OP_LESSTHAN, ''OP_LESSTHAN''),
     (OP_GREATERTHAN, ''OP_GREATERTHAN''),
     (OP_LESSTHANOREQUAL, ''OP_LESSTHANOREQUAL''),
     (OP_GREATERTHANOREQUAL, ''OP_GREATERTHANOREQUAL''),
     (OP_MIN, ''OP_MIN''),
     (OP_MAX, ''OP_MAX''),
     (OP_WITHIN, ''OP_WITHIN''),
     (OP_RIPEMD160, ''OP_RIPEMD160''),
     (OP_SHA1, ''OP_SHA1''),
     (OP_SHA256, ''OP_SHA256''),
     (OP_HASH160, ''OP_HASH160''),
     (OP_HASH256, ''OP_HASH256''),
     (OP_CODESEPARATOR, ''OP_CODESEPARATOR''),
     (OP_CHECKSIG, ''OP_CHECKSIG''),
     (OP_CHECKSIGVERIFY, ''OP_CHECKSIGVERIFY''),
     (OP_CHECKMULTISIG, ''OP_CHECKMULTISIG''),
     (OP_CHECKMULTISIGVERIFY, ''OP_CHECKMULTISIGVERIFY''),
     (OP_NOP1, ''OP_NOP1''),
     (OP_NOP2, ''OP_NOP2''),
     (OP_NOP3, ''OP_NOP3''),
     (OP_NOP4, ''OP_NOP4''),
     (OP_NOP5, ''OP_NOP5''),
     (OP_NOP6, ''OP_NOP6''),
     (OP_NOP7, ''OP_NOP7''),
     (OP_NOP8, ''OP_NOP8''),
     (OP_NOP9, ''OP_NOP9''),
     (OP_NOP10, ''OP_NOP10''),
     (OP_INVALIDOPCODE, ''OP_INVALIDOPCODE'')]"

definition GetOpName :: "opcodetype \<Rightarrow> string" where
  "GetOpName opcode =
     (case map_of opcode_names opcode of Some s \<Rightarrow> s | None \<Rightarrow> ''OP_UNKNOWN'')"

section \<open>CScriptNum\<close>

text \<open>
  A \<open>CScriptNum\<close> is its \<open>m_value\<close>. Its constructors and operators throw
  \<open>scriptnum_error\<close> (\<open>Throw\<close>) or fail an assertion (\<open>Abort\<close>).
\<close>

definition set_vch_sum :: "bytes \<Rightarrow> u64" where
  "set_vch_sum vch =
     foldl (\<lambda>result i. result OR push_bit (8 * i) (ucast (vch ! i))) 0 [0..<length vch]"

definition CScriptNum_set_vch :: "valtype \<Rightarrow> ('e, int) exec" where
  "CScriptNum_set_vch vch =
     (if vch = [] then Inr 0
      else if vch = [0, 0, 0, 0, 0, 0, 0, 128, 128] then Inr INT64_MIN
      else if 8 < length vch then Inl Throw
      else let result = set_vch_sum vch
           in if last vch AND 0x80 \<noteq> 0
              then Inr (- sint (result AND NOT (push_bit (8 * (length vch - 1)) 0x80)))
              else Inr (sint result))"

definition CScriptNum_from_vch :: "valtype \<Rightarrow> bool \<Rightarrow> nat \<Rightarrow> ('e, int) exec" where
  "CScriptNum_from_vch vch fRequireMinimal nMaxNumSize =
     (if nMaxNumSize < length vch then Inl Throw
      else if fRequireMinimal \<and> 0 < length vch \<and> last vch AND 0x7f = 0 \<and>
              (length vch \<le> 1 \<or> vch ! (length vch - 2) AND 0x80 = 0)
      then Inl Throw
      else CScriptNum_set_vch vch)"

abbreviation (input) nDefaultMaxNumSize :: nat where
  "nDefaultMaxNumSize \<equiv> 4"

fun serialize_abs :: "nat \<Rightarrow> bytes" where
  "serialize_abs absvalue =
     (if absvalue = 0 then [] else of_nat (absvalue mod 256) # serialize_abs (absvalue div 256))"

declare serialize_abs.simps [simp del]

definition CScriptNum_serialize :: "int \<Rightarrow> bytes" where
  "CScriptNum_serialize val =
     (if val = 0 then []
      else if val = INT64_MIN then [0, 0, 0, 0, 0, 0, 0, 128, 128]
      else let neg = val < 0;
               absvalue = nat (if neg then - val else val);
               result = serialize_abs absvalue
           in if last result AND 0x80 \<noteq> 0 then result @ [if neg then 0x80 else 0]
              else if neg then butlast result @ [last result OR 0x80]
              else result)"

definition CScriptNum_getvch :: "int \<Rightarrow> bytes" where
  "CScriptNum_getvch m_value = CScriptNum_serialize m_value"

definition CScriptNum_plus :: "int \<Rightarrow> int \<Rightarrow> ('e, int) exec" where
  "CScriptNum_plus m_value rhs =
     (if rhs = 0 \<or> (0 < rhs \<and> m_value \<le> INT64_MAX - rhs) \<or>
         (rhs < 0 \<and> INT64_MIN - rhs \<le> m_value)
      then Inr (m_value + rhs) else Inl Abort)"

definition CScriptNum_minus :: "int \<Rightarrow> int \<Rightarrow> ('e, int) exec" where
  "CScriptNum_minus m_value rhs =
     (if rhs = 0 \<or> (0 < rhs \<and> INT64_MIN + rhs \<le> m_value) \<or>
         (rhs < 0 \<and> m_value \<le> INT64_MAX + rhs)
      then Inr (m_value - rhs) else Inl Abort)"

definition CScriptNum_uminus :: "int \<Rightarrow> ('e, int) exec" where
  "CScriptNum_uminus m_value = (if m_value \<noteq> INT64_MIN then Inr (- m_value) else Inl Abort)"

definition CScriptNum_getint :: "int \<Rightarrow> int" where
  "CScriptNum_getint m_value =
     (if INT_MAX < m_value then INT_MAX else if m_value < INT_MIN then INT_MIN else m_value)"

section \<open>Building scripts\<close>

definition script_push_data :: "script \<Rightarrow> valtype \<Rightarrow> script" where
  "script_push_data s b =
     (if length b < OP_PUSHDATA1 then s @ [of_nat (length b)] @ b
      else if length b \<le> 0xff then s @ [of_nat OP_PUSHDATA1, of_nat (length b)] @ b
      else if length b \<le> 0xffff
      then s @ [of_nat OP_PUSHDATA2] @ WriteLE16 (of_nat (length b)) @ b
      else s @ [of_nat OP_PUSHDATA4] @ WriteLE32 (of_nat (length b)) @ b)"

definition script_push_opcode :: "script \<Rightarrow> opcodetype \<Rightarrow> ('e, script) exec" where
  "script_push_opcode s opcode = (if 0xff < opcode then Inl Throw else Inr (s @ [of_nat opcode]))"

definition script_push_int64 :: "script \<Rightarrow> int \<Rightarrow> script" where
  "script_push_int64 s n =
     (if n = -1 \<or> (1 \<le> n \<and> n \<le> 16) then s @ [of_int (n + (int OP_1 - 1))]
      else if n = 0 then s @ [of_nat OP_0]
      else script_push_data s (CScriptNum_serialize n))"

definition script_push_scriptnum :: "script \<Rightarrow> int \<Rightarrow> script" where
  "script_push_scriptnum s b = script_push_data s (CScriptNum_getvch b)"

section \<open>Reading scripts\<close>

text \<open>
  \<open>GetOp2\<close> returns its result, the opcode, the pushed data and the iterator it leaves:
  on failure the opcode is \<open>OP_INVALIDOPCODE\<close> and the iterator stands after the bytes
  already consumed.
\<close>

definition GetOp2_operand :: "opcodetype \<Rightarrow> bytes \<Rightarrow> (nat \<times> bytes) option" where
  "GetOp2_operand opcode pc =
     (if opcode < OP_PUSHDATA1 then Some (opcode, pc)
      else if opcode = OP_PUSHDATA1 then
        (if length pc < 1 then None else Some (unat (hd pc), tl pc))
      else if opcode = OP_PUSHDATA2 then
        (if length pc < 2 then None else Some (unat (ReadLE16 pc), drop 2 pc))
      else if length pc < 4 then None else Some (unat (ReadLE32 pc), drop 4 pc))"

definition GetOp2 :: "bytes \<Rightarrow> bool \<times> opcodetype \<times> valtype \<times> bytes" where
  "GetOp2 pc =
     (case pc of [] \<Rightarrow> (False, OP_INVALIDOPCODE, [], pc)
      | b # pc1 \<Rightarrow>
          let opcode = unat b in
          if opcode \<le> OP_PUSHDATA4 then
            (case GetOp2_operand opcode pc1 of
               None \<Rightarrow> (False, OP_INVALIDOPCODE, [], pc1)
             | Some (nSize, pc2) \<Rightarrow>
                 if length pc2 < nSize then (False, OP_INVALIDOPCODE, [], pc2)
                 else (True, opcode, take nSize pc2, drop nSize pc2))
          else (True, opcode, [], pc1))"

lemma GetOp2_operand_length:
  "GetOp2_operand opcode pc = Some (n, pc') \<Longrightarrow> length pc' \<le> length pc"
  by (auto simp: GetOp2_operand_def split: if_splits)

lemma GetOp2_shorter:
  assumes "GetOp2 pc = (ok, opcode, vch, pc')" "pc \<noteq> []"
  shows "length pc' < length pc"
  using assms
  by (auto simp: GetOp2_def Let_def split: list.splits if_splits option.splits
      dest!: GetOp2_operand_length)

definition DecodeOP_N :: "opcodetype \<Rightarrow> ('e, nat) exec" where
  "DecodeOP_N opcode =
     (if opcode = OP_0 then Inr 0
      else if OP_1 \<le> opcode \<and> opcode \<le> OP_16 then Inr (opcode - (OP_1 - 1))
      else Inl Abort)"

definition EncodeOP_N :: "int \<Rightarrow> ('e, opcodetype) exec" where
  "EncodeOP_N n =
     (if 0 \<le> n \<and> n \<le> 16 then (if n = 0 then Inr OP_0 else Inr (OP_1 + nat n - 1))
      else Inl Abort)"

section \<open>Counting signature operations\<close>

function GetSigOpCount_loop :: "bool \<Rightarrow> opcodetype \<Rightarrow> nat \<Rightarrow> bytes \<Rightarrow> ('e, nat) exec" where
  "GetSigOpCount_loop fAccurate lastOpcode n pc =
     (if pc = [] then Inr n
      else case GetOp2 pc of (ok, opcode, _, pc') \<Rightarrow>
        if \<not> ok then Inr n
        else if opcode = OP_CHECKSIG \<or> opcode = OP_CHECKSIGVERIFY
        then GetSigOpCount_loop fAccurate opcode (n + 1) pc'
        else if opcode = OP_CHECKMULTISIG \<or> opcode = OP_CHECKMULTISIGVERIFY
        then (if fAccurate \<and> OP_1 \<le> lastOpcode \<and> lastOpcode \<le> OP_16
              then (case DecodeOP_N lastOpcode of Inl e \<Rightarrow> Inl e
                    | Inr k \<Rightarrow> GetSigOpCount_loop fAccurate opcode (n + k) pc')
              else GetSigOpCount_loop fAccurate opcode (n + 20) pc')
        else GetSigOpCount_loop fAccurate opcode n pc')"
  by pat_completeness auto
termination
  by (relation "measure (\<lambda>(f, l, n, pc). length pc)") (auto dest: GetOp2_shorter [OF sym])

declare GetSigOpCount_loop.simps [simp del]

definition GetSigOpCount :: "script \<Rightarrow> bool \<Rightarrow> ('e, nat) exec" where
  "GetSigOpCount s fAccurate = GetSigOpCount_loop fAccurate OP_INVALIDOPCODE 0 s"

section \<open>Recognising script shapes\<close>

definition IsPayToPublicKeyHash :: "script \<Rightarrow> bool" where
  "IsPayToPublicKeyHash s \<longleftrightarrow>
     length s = 25 \<and> s ! 0 = of_nat OP_DUP \<and> s ! 1 = of_nat OP_HASH160 \<and> s ! 2 = 0x14 \<and>
     s ! 23 = of_nat OP_EQUALVERIFY \<and> s ! 24 = of_nat OP_CHECKSIG"

definition IsPayToScriptHash :: "script \<Rightarrow> bool" where
  "IsPayToScriptHash s \<longleftrightarrow>
     length s = 23 \<and> s ! 0 = of_nat OP_HASH160 \<and> s ! 1 = 0x14 \<and> s ! 22 = of_nat OP_EQUAL"

function IsPushOnly_from :: "bytes \<Rightarrow> bool" where
  "IsPushOnly_from pc =
     (if pc = [] then True
      else case GetOp2 pc of (ok, opcode, _, pc') \<Rightarrow>
        if \<not> ok then False else if OP_16 < opcode then False else IsPushOnly_from pc')"
  by pat_completeness auto
termination
  by (relation "measure length") (auto dest: GetOp2_shorter [OF sym])

declare IsPushOnly_from.simps [simp del]

definition IsPushOnly :: "script \<Rightarrow> bool" where
  "IsPushOnly s = IsPushOnly_from s"

definition IsUnspendable :: "script \<Rightarrow> bool" where
  "IsUnspendable s \<longleftrightarrow> (0 < length s \<and> hd s = of_nat OP_RETURN) \<or> MAX_SCRIPT_SIZE < length s"

text \<open>\<open>IsNormalPaymentScript\<close> ignores the result of \<open>GetOp\<close>.\<close>

function IsNormalPaymentScript_loop :: "nat \<Rightarrow> bytes \<Rightarrow> bool" where
  "IsNormalPaymentScript_loop i pc =
     (if pc = [] then True
      else case GetOp2 pc of (_, opcode, _, pc') \<Rightarrow>
        if i = 0 \<and> opcode \<noteq> OP_DUP then False
        else if i = 1 \<and> opcode \<noteq> OP_HASH160 then False
        else if i = 3 \<and> opcode \<noteq> OP_EQUALVERIFY then False
        else if i = 4 \<and> opcode \<noteq> OP_CHECKSIG then False
        else if i = 5 then False
        else IsNormalPaymentScript_loop (i + 1) pc')"
  by pat_completeness auto
termination
  by (relation "measure (\<lambda>(i, pc). length pc)") (auto dest: GetOp2_shorter [OF sym])

declare IsNormalPaymentScript_loop.simps [simp del]

definition IsNormalPaymentScript :: "script \<Rightarrow> bool" where
  "IsNormalPaymentScript s = (if length s \<noteq> 25 then False else IsNormalPaymentScript_loop 0 s)"

datatype ScriptType = UNKNOWN | P2PKH | P2SH

definition CScript_GetType :: "script \<Rightarrow> ScriptType" where
  "CScript_GetType s =
     (if IsPayToPublicKeyHash s then P2PKH else if IsPayToScriptHash s then P2SH else UNKNOWN)"

definition AddressHash :: "script \<Rightarrow> bytes" where
  "AddressHash s =
     (if IsPayToPublicKeyHash s then take 20 (drop 3 s)
      else if IsPayToScriptHash s then take 20 (drop 2 s)
      else replicate 20 0)"

text \<open>The last item a P2SH \<open>scriptSig\<close> pushes, \<open>None\<close> where the code returns 0 early.\<close>

function last_push :: "valtype \<Rightarrow> bytes \<Rightarrow> valtype option" where
  "last_push data pc =
     (if pc = [] then Some data
      else case GetOp2 pc of (ok, opcode, vch, pc') \<Rightarrow>
        if \<not> ok then None else if OP_16 < opcode then None else last_push vch pc')"
  by pat_completeness auto
termination
  by (relation "measure (\<lambda>(d, pc). length pc)") (auto dest: GetOp2_shorter [OF sym])

declare last_push.simps [simp del]

definition GetSigOpCount_scriptSig :: "script \<Rightarrow> script \<Rightarrow> ('e, nat) exec" where
  "GetSigOpCount_scriptSig s scriptSig =
     (if \<not> IsPayToScriptHash s then GetSigOpCount s True
      else case last_push [] scriptSig of None \<Rightarrow> Inr 0 | Some data \<Rightarrow> GetSigOpCount data True)"

end
