(* ===== verification/Amount.thy ===== *)
theory Amount
  imports Prelude
begin

text \<open>
  Amounts of money and fee rates: src/src/amount.h and src/src/amount.cpp. \<open>CAmount\<close> is a
  signed 64-bit integer. A product of an amount and a \<open>size_t\<close> is computed in unsigned 64-bit
  arithmetic, so the definitions of the fee rates write the wrap-around out.
\<close>

abbreviation (input) COIN :: int where "COIN \<equiv> 100000000"
abbreviation (input) CENT :: int where "CENT \<equiv> 1000000"

definition MAX_MONEY :: int where
  "MAX_MONEY = 160000000 * COIN"

definition MoneyRange :: "int \<Rightarrow> bool" where
  "MoneyRange nVal \<longleftrightarrow> 0 \<le> nVal \<and> nVal \<le> MAX_MONEY"

text \<open>Conversion to \<open>uint64_t\<close> and back to \<open>int64_t\<close>.\<close>

definition to_uint64 :: "int \<Rightarrow> int" where
  "to_uint64 n = n mod 2 ^ 64"

definition to_int64 :: "int \<Rightarrow> int" where
  "to_int64 n = (n + 2 ^ 63) mod 2 ^ 64 - 2 ^ 63"

definition CFeeRate_new :: "int \<Rightarrow> nat \<Rightarrow> int" where
  "CFeeRate_new nFeePaid nSize =
     (if 0 < nSize then to_int64 (to_uint64 (nFeePaid * 1000) div int nSize) else 0)"

definition GetFee :: "int \<Rightarrow> nat \<Rightarrow> int" where
  "GetFee nSatoshisPerK nSize =
     (let nFee = to_int64 (to_uint64 (to_uint64 nSatoshisPerK * int nSize) div 1000)
      in if nFee = 0 \<and> 0 < nSatoshisPerK then nSatoshisPerK else nFee)"

definition GetFeePerK :: "int \<Rightarrow> int" where
  "GetFeePerK nSatoshisPerK = GetFee nSatoshisPerK 1000"

lemma to_int64_id: "in_int64 n \<Longrightarrow> to_int64 n = n"
  by (simp add: to_int64_def in_int64_def)

lemma to_uint64_id: "0 \<le> n \<Longrightarrow> n < 2 ^ 64 \<Longrightarrow> to_uint64 n = n"
  by (simp add: to_uint64_def)

lemma GetFee_exact:
  assumes "0 \<le> r" "r * int n < 2 ^ 63"
  shows "GetFee r n = (if r * int n div 1000 = 0 \<and> 0 < r then r else r * int n div 1000)"
proof (cases "n = 0")
  case True
  then show ?thesis by (simp add: GetFee_def Let_def to_uint64_def to_int64_def)
next
  case False
  then have "r * 1 \<le> r * int n" using assms(1) by (intro mult_left_mono) auto
  then have r: "to_uint64 r = r" using assms by (intro to_uint64_id) auto
  have p: "to_uint64 (r * int n) = r * int n" using assms by (intro to_uint64_id) auto
  have "0 \<le> x div 1000 \<and> x div 1000 \<le> x" if "0 \<le> x" for x :: int using that by linarith
  from this [of "r * int n"] have "in_int64 (r * int n div 1000)"
    using assms by (auto simp: in_int64_def)
  then have q: "to_int64 (r * int n div 1000) = r * int n div 1000" by (rule to_int64_id)
  show ?thesis unfolding GetFee_def Let_def r p q ..
qed

end
