(* ===== verification/Transaction.thy ===== *)
theory Transaction
  imports Serialize Hash Script Amount
begin

text \<open>
  Transactions: the data types of src/src/primitives/transaction.h and of
  src/src/zcash/Proof.hpp with their serialization, the transaction identifier and the sums of
  transparent and shielded values of src/src/primitives/transaction.cpp. Every writer and reader
  pair is shown to satisfy the contract \<open>codec\<close>, so a transaction has exactly one encoding.
  The members \<open>prevPubKey\<close> of \<open>CTxIn\<close> and \<open>nRounds\<close> of \<open>CTxOut\<close>, which are never serialized,
  and the cached \<open>hash\<close> of \<open>CTransaction\<close> are left out; the hash is recomputed.
\<close>

section \<open>Proofs and shielded descriptions\<close>

abbreviation (input) G1_PREFIX_MASK :: byte where "G1_PREFIX_MASK \<equiv> 0x02"
abbreviation (input) G2_PREFIX_MASK :: byte where "G2_PREFIX_MASK \<equiv> 0x0a"
abbreviation (input) GROTH_PROOF_SIZE :: nat where "GROTH_PROOF_SIZE \<equiv> 48 + 96 + 48"
abbreviation (input) ZC_NOTECIPHERTEXT_SIZE :: nat where "ZC_NOTECIPHERTEXT_SIZE \<equiv> 1 + 8 + 32 + 32 + 512 + 16"
abbreviation (input) ZC_SAPLING_ENCCIPHERTEXT_SIZE :: nat where
  "ZC_SAPLING_ENCCIPHERTEXT_SIZE \<equiv> 1 + 11 + 8 + 32 + 512 + 16"
abbreviation (input) ZC_SAPLING_OUTCIPHERTEXT_SIZE :: nat where
  "ZC_SAPLING_OUTCIPHERTEXT_SIZE \<equiv> 32 + 32 + 16"
abbreviation (input) ZC_NUM_JS_INPUTS :: nat where "ZC_NUM_JS_INPUTS \<equiv> 2"
abbreviation (input) ZC_NUM_JS_OUTPUTS :: nat where "ZC_NUM_JS_OUTPUTS \<equiv> 2"

text \<open>A compressed point: its flag and the bytes of its coordinate.\<close>

type_synonym compressed_point = "bool \<times> bytes"

definition ser_point :: "byte \<Rightarrow> compressed_point \<Rightarrow> bytes" where
  "ser_point prefix p = ser_writedata8 (if fst p then prefix OR 1 else prefix) @ ser_blob (snd p)"

definition unser_point :: "byte \<Rightarrow> nat \<Rightarrow> ('e, compressed_point) reader" where
  "unser_point prefix width s =
     exec_bind (ser_readdata8 s) (\<lambda>(leadingByte, s).
       if leadingByte AND NOT 1 \<noteq> prefix then Inl Throw
       else exec_bind (unser_blob width s) (\<lambda>(x, s). Inr ((leadingByte AND 1 \<noteq> 0, x), s)))"

record PHGRProof =
  g_A :: compressed_point
  g_A_prime :: compressed_point
  g_B :: compressed_point
  g_B_prime :: compressed_point
  g_C :: compressed_point
  g_C_prime :: compressed_point
  g_K :: compressed_point
  g_H :: compressed_point

definition ser_PHGRProof :: "PHGRProof \<Rightarrow> bytes" where
  "ser_PHGRProof p =
     ser_point G1_PREFIX_MASK (g_A p) @ ser_point G1_PREFIX_MASK (g_A_prime p) @
     ser_point G2_PREFIX_MASK (g_B p) @ ser_point G1_PREFIX_MASK (g_B_prime p) @
     ser_point G1_PREFIX_MASK (g_C p) @ ser_point G1_PREFIX_MASK (g_C_prime p) @
     ser_point G1_PREFIX_MASK (g_K p) @ ser_point G1_PREFIX_MASK (g_H p)"

definition unser_PHGRProof :: "('e, PHGRProof) reader" where
  "unser_PHGRProof s =
     exec_bind (unser_point G1_PREFIX_MASK 32 s) (\<lambda>(a, s).
     exec_bind (unser_point G1_PREFIX_MASK 32 s) (\<lambda>(a', s).
     exec_bind (unser_point G2_PREFIX_MASK 64 s) (\<lambda>(b, s).
     exec_bind (unser_point G1_PREFIX_MASK 32 s) (\<lambda>(b', s).
     exec_bind (unser_point G1_PREFIX_MASK 32 s) (\<lambda>(c, s).
     exec_bind (unser_point G1_PREFIX_MASK 32 s) (\<lambda>(c', s).
     exec_bind (unser_point G1_PREFIX_MASK 32 s) (\<lambda>(k, s).
     exec_bind (unser_point G1_PREFIX_MASK 32 s) (\<lambda>(h, s).
       Inr (\<lparr>g_A = a, g_A_prime = a', g_B = b, g_B_prime = b', g_C = c, g_C_prime = c',
             g_K = k, g_H = h\<rparr>, s)))))))))"

datatype SproutProof = SproutPHGR PHGRProof | SproutGroth bytes

definition SproutProofMatches :: "bool \<Rightarrow> SproutProof \<Rightarrow> bool" where
  "SproutProofMatches useGroth p = (case p of SproutPHGR _ \<Rightarrow> \<not> useGroth | SproutGroth _ \<Rightarrow> useGroth)"

definition ser_SproutProof :: "SproutProof \<Rightarrow> bytes" where
  "ser_SproutProof p = (case p of SproutPHGR q \<Rightarrow> ser_PHGRProof q | SproutGroth q \<Rightarrow> ser_blob q)"

definition unser_SproutProof :: "bool \<Rightarrow> ('e, SproutProof) reader" where
  "unser_SproutProof useGroth s =
     (if useGroth then exec_bind (unser_blob GROTH_PROOF_SIZE s) (\<lambda>(q, s). Inr (SproutGroth q, s))
      else exec_bind (unser_PHGRProof s) (\<lambda>(q, s). Inr (SproutPHGR q, s)))"

record SpendDescription =
  sd_cv :: bytes
  sd_anchor :: bytes
  nullifier :: bytes
  rk :: bytes
  sd_zkproof :: bytes
  spendAuthSig :: bytes

definition ser_SpendDescription :: "SpendDescription \<Rightarrow> bytes" where
  "ser_SpendDescription d =
     ser_blob (sd_cv d) @ ser_blob (sd_anchor d) @ ser_blob (nullifier d) @ ser_blob (rk d) @
     ser_blob (sd_zkproof d) @ ser_blob (spendAuthSig d)"

definition unser_SpendDescription :: "('e, SpendDescription) reader" where
  "unser_SpendDescription s =
     exec_bind (unser_blob 32 s) (\<lambda>(cv, s).
     exec_bind (unser_blob 32 s) (\<lambda>(anchor, s).
     exec_bind (unser_blob 32 s) (\<lambda>(nf, s).
     exec_bind (unser_blob 32 s) (\<lambda>(rk, s).
     exec_bind (unser_blob GROTH_PROOF_SIZE s) (\<lambda>(zkproof, s).
     exec_bind (unser_blob 64 s) (\<lambda>(sig, s).
       Inr (\<lparr>sd_cv = cv, sd_anchor = anchor, nullifier = nf, rk = rk, sd_zkproof = zkproof,
             spendAuthSig = sig\<rparr>, s)))))))"

record OutputDescription =
  od_cv :: bytes
  cm :: bytes
  od_ephemeralKey :: bytes
  encCiphertext :: bytes
  outCiphertext :: bytes
  od_zkproof :: bytes

definition ser_OutputDescription :: "OutputDescription \<Rightarrow> bytes" where
  "ser_OutputDescription d =
     ser_blob (od_cv d) @ ser_blob (cm d) @ ser_blob (od_ephemeralKey d) @
     ser_blob (encCiphertext d) @ ser_blob (outCiphertext d) @ ser_blob (od_zkproof d)"

definition unser_OutputDescription :: "('e, OutputDescription) reader" where
  "unser_OutputDescription s =
     exec_bind (unser_blob 32 s) (\<lambda>(cv, s).
     exec_bind (unser_blob 32 s) (\<lambda>(c, s).
     exec_bind (unser_blob 32 s) (\<lambda>(epk, s).
     exec_bind (unser_blob ZC_SAPLING_ENCCIPHERTEXT_SIZE s) (\<lambda>(enc, s).
     exec_bind (unser_blob ZC_SAPLING_OUTCIPHERTEXT_SIZE s) (\<lambda>(out, s).
     exec_bind (unser_blob GROTH_PROOF_SIZE s) (\<lambda>(zkproof, s).
       Inr (\<lparr>od_cv = cv, cm = c, od_ephemeralKey = epk, encCiphertext = enc, outCiphertext = out,
             od_zkproof = zkproof\<rparr>, s)))))))"

record JSDescription =
  vpub_old :: int
  vpub_new :: int
  js_anchor :: bytes
  js_nullifiers :: "bytes list"
  commitments :: "bytes list"
  js_ephemeralKey :: bytes
  ciphertexts :: "bytes list"
  randomSeed :: bytes
  macs :: "bytes list"
  js_proof :: SproutProof

definition ser_JSDescription :: "JSDescription \<Rightarrow> bytes" where
  "ser_JSDescription d =
     ser_int64 (vpub_old d) @ ser_int64 (vpub_new d) @ ser_blob (js_anchor d) @
     ser_many ser_blob (js_nullifiers d) @ ser_many ser_blob (commitments d) @
     ser_blob (js_ephemeralKey d) @ ser_blob (randomSeed d) @ ser_many ser_blob (macs d) @
     ser_SproutProof (js_proof d) @ ser_many ser_blob (ciphertexts d)"

definition unser_JSDescription :: "bool \<Rightarrow> ('e, JSDescription) reader" where
  "unser_JSDescription useGroth s =
     exec_bind (unser_int64 s) (\<lambda>(old, s).
     exec_bind (unser_int64 s) (\<lambda>(new, s).
     exec_bind (unser_blob 32 s) (\<lambda>(anchor, s).
     exec_bind (unser_many (unser_blob 32) ZC_NUM_JS_INPUTS s) (\<lambda>(nfs, s).
     exec_bind (unser_many (unser_blob 32) ZC_NUM_JS_OUTPUTS s) (\<lambda>(cms, s).
     exec_bind (unser_blob 32 s) (\<lambda>(epk, s).
     exec_bind (unser_blob 32 s) (\<lambda>(seed, s).
     exec_bind (unser_many (unser_blob 32) ZC_NUM_JS_INPUTS s) (\<lambda>(ms, s).
     exec_bind (unser_SproutProof useGroth s) (\<lambda>(p, s).
     exec_bind (unser_many (unser_blob ZC_NOTECIPHERTEXT_SIZE) ZC_NUM_JS_OUTPUTS s) (\<lambda>(cs, s).
       Inr (\<lparr>vpub_old = old, vpub_new = new, js_anchor = anchor, js_nullifiers = nfs,
             commitments = cms, js_ephemeralKey = epk, ciphertexts = cs, randomSeed = seed,
             macs = ms, js_proof = p\<rparr>, s)))))))))))"

section \<open>Inputs and outputs\<close>

record COutPoint =
  op_hash :: bytes
  op_n :: u32

definition ser_COutPoint :: "COutPoint \<Rightarrow> bytes" where
  "ser_COutPoint p = ser_blob (op_hash p) @ WriteLE32 (op_n p)"

definition unser_COutPoint :: "('e, COutPoint) reader" where
  "unser_COutPoint s =
     exec_bind (unser_blob 32 s) (\<lambda>(h, s).
     exec_bind (ser_readdata32 s) (\<lambda>(n, s). Inr (\<lparr>op_hash = h, op_n = n\<rparr>, s)))"

definition uint256_null :: bytes where
  "uint256_null = replicate 32 0"

definition uint256_IsNull :: "bytes \<Rightarrow> bool" where
  "uint256_IsNull data \<longleftrightarrow> (\<forall>b \<in> set data. b = 0)"

definition COutPoint_null :: COutPoint where
  "COutPoint_null = \<lparr>op_hash = uint256_null, op_n = - 1\<rparr>"

definition COutPoint_IsNull :: "COutPoint \<Rightarrow> bool" where
  "COutPoint_IsNull p \<longleftrightarrow> uint256_IsNull (op_hash p) \<and> op_n p = - 1"

record CTxIn =
  prevout :: COutPoint
  scriptSig :: bytes
  nSequence :: u32

definition ser_CTxIn :: "CTxIn \<Rightarrow> bytes" where
  "ser_CTxIn i = ser_COutPoint (prevout i) @ ser_bytes (scriptSig i) @ WriteLE32 (nSequence i)"

definition unser_CTxIn :: "('e, CTxIn) reader" where
  "unser_CTxIn s =
     exec_bind (unser_COutPoint s) (\<lambda>(p, s).
     exec_bind (unser_bytes s) (\<lambda>(sig, s).
     exec_bind (ser_readdata32 s) (\<lambda>(n, s).
       Inr (\<lparr>prevout = p, scriptSig = sig, nSequence = n\<rparr>, s))))"

definition CTxIn_IsFinal :: "CTxIn \<Rightarrow> bool" where
  "CTxIn_IsFinal i \<longleftrightarrow> nSequence i = - 1"

record CTxOut =
  nValue :: int
  scriptPubKey :: bytes

definition ser_CTxOut :: "CTxOut \<Rightarrow> bytes" where
  "ser_CTxOut t = ser_int64 (nValue t) @ ser_bytes (scriptPubKey t)"

definition unser_CTxOut :: "('e, CTxOut) reader" where
  "unser_CTxOut s =
     exec_bind (unser_int64 s) (\<lambda>(v, s).
     exec_bind (unser_bytes s) (\<lambda>(k, s). Inr (\<lparr>nValue = v, scriptPubKey = k\<rparr>, s)))"

definition CTxOut_null :: CTxOut where
  "CTxOut_null = \<lparr>nValue = - 1, scriptPubKey = []\<rparr>"

definition CTxOut_IsNull :: "CTxOut \<Rightarrow> bool" where
  "CTxOut_IsNull t \<longleftrightarrow> nValue t = - 1"

section \<open>Transactions\<close>

abbreviation (input) OVERWINTER_TX_VERSION :: int where "OVERWINTER_TX_VERSION \<equiv> 3"
abbreviation (input) SAPLING_TX_VERSION :: int where "SAPLING_TX_VERSION \<equiv> 4"
abbreviation (input) OVERWINTER_VERSION_GROUP_ID :: u32 where "OVERWINTER_VERSION_GROUP_ID \<equiv> 0x03C48270"
abbreviation (input) SAPLING_VERSION_GROUP_ID :: u32 where "SAPLING_VERSION_GROUP_ID \<equiv> 0x892F2085"

record CTransaction =
  fOverwintered :: bool
  nVersion :: int
  nVersionGroupId :: u32
  vin :: "CTxIn list"
  vout :: "CTxOut list"
  nLockTime :: u32
  nExpiryHeight :: u32
  valueBalance :: int
  vShieldedSpend :: "SpendDescription list"
  vShieldedOutput :: "OutputDescription list"
  vjoinsplit :: "JSDescription list"
  joinSplitPubKey :: bytes
  joinSplitSig :: bytes
  bindingSig :: bytes

definition CTransaction_new :: CTransaction where
  "CTransaction_new =
     \<lparr>fOverwintered = False, nVersion = 1, nVersionGroupId = 0, vin = [], vout = [], nLockTime = 0,
      nExpiryHeight = 0, valueBalance = 0, vShieldedSpend = [], vShieldedOutput = [],
      vjoinsplit = [], joinSplitPubKey = replicate 32 0, joinSplitSig = replicate 64 0,
      bindingSig = replicate 64 0\<rparr>"

definition GetHeader :: "CTransaction \<Rightarrow> u32" where
  "GetHeader tx =
     (if fOverwintered tx then word_of_int (nVersion tx) OR push_bit 31 1 else word_of_int (nVersion tx))"

definition isOverwinterV3 :: "CTransaction \<Rightarrow> bool" where
  "isOverwinterV3 tx \<longleftrightarrow> fOverwintered tx \<and> nVersionGroupId tx = OVERWINTER_VERSION_GROUP_ID \<and>
     nVersion tx = OVERWINTER_TX_VERSION"

definition isSaplingV4 :: "CTransaction \<Rightarrow> bool" where
  "isSaplingV4 tx \<longleftrightarrow> fOverwintered tx \<and> nVersionGroupId tx = SAPLING_VERSION_GROUP_ID \<and>
     nVersion tx = SAPLING_TX_VERSION"

definition useGroth :: "u32 \<Rightarrow> bool" where
  "useGroth header \<longleftrightarrow> drop_bit 31 header \<noteq> 0 \<and> SAPLING_TX_VERSION \<le> uint (header AND 0x7FFFFFFF)"

text \<open>
  The serialization of a transaction in the five groups of its fields: the header with the
  version group, the transparent part, the Sapling part, the JoinSplits and the binding
  signature. Each writer is followed by the reader of the same group, which fills in a
  transaction that starts with the defaults.
\<close>

definition tx_write_header :: "CTransaction \<Rightarrow> bytes" where
  "tx_write_header tx =
     WriteLE32 (GetHeader tx) @ (if fOverwintered tx then WriteLE32 (nVersionGroupId tx) else [])"

definition tx_read_header :: "('e, u32 \<times> CTransaction) reader" where
  "tx_read_header s =
     exec_bind (ser_readdata32 s) (\<lambda>(header, s).
     let tx = CTransaction_new\<lparr>fOverwintered := drop_bit 31 header \<noteq> 0,
                               nVersion := uint (header AND 0x7FFFFFFF)\<rparr> in
     exec_bind (if fOverwintered tx
                then exec_bind (ser_readdata32 s) (\<lambda>(g, s). Inr (tx\<lparr>nVersionGroupId := g\<rparr>, s))
                else Inr (tx, s)) (\<lambda>(tx, s).
     if fOverwintered tx \<and> \<not> (isOverwinterV3 tx \<or> isSaplingV4 tx) then Inl Throw
     else Inr ((header, tx), s)))"

definition tx_write_transparent :: "CTransaction \<Rightarrow> bytes" where
  "tx_write_transparent tx =
     ser_vector ser_CTxIn (vin tx) @ ser_vector ser_CTxOut (vout tx) @ WriteLE32 (nLockTime tx) @
     (if isOverwinterV3 tx \<or> isSaplingV4 tx then WriteLE32 (nExpiryHeight tx) else [])"

definition tx_read_transparent :: "CTransaction \<Rightarrow> ('e, CTransaction) reader" where
  "tx_read_transparent tx s =
     exec_bind (unser_vector unser_CTxIn s) (\<lambda>(i, s).
     exec_bind (unser_vector unser_CTxOut s) (\<lambda>(v, s).
     exec_bind (ser_readdata32 s) (\<lambda>(l, s).
       if isOverwinterV3 tx \<or> isSaplingV4 tx
       then exec_bind (ser_readdata32 s) (\<lambda>(e, s).
              Inr (tx\<lparr>vin := i, vout := v, nLockTime := l, nExpiryHeight := e\<rparr>, s))
       else Inr (tx\<lparr>vin := i, vout := v, nLockTime := l\<rparr>, s))))"

definition tx_write_sapling :: "CTransaction \<Rightarrow> bytes" where
  "tx_write_sapling tx =
     (if isSaplingV4 tx
      then ser_int64 (valueBalance tx) @ ser_vector ser_SpendDescription (vShieldedSpend tx) @
           ser_vector ser_OutputDescription (vShieldedOutput tx) else [])"

definition tx_read_sapling :: "CTransaction \<Rightarrow> ('e, CTransaction) reader" where
  "tx_read_sapling tx s =
     (if isSaplingV4 tx
      then exec_bind (unser_int64 s) (\<lambda>(b, s).
           exec_bind (unser_vector unser_SpendDescription s) (\<lambda>(sp, s).
           exec_bind (unser_vector unser_OutputDescription s) (\<lambda>(so, s).
             Inr (tx\<lparr>valueBalance := b, vShieldedSpend := sp, vShieldedOutput := so\<rparr>, s))))
      else Inr (tx, s))"

definition tx_write_joinsplits :: "CTransaction \<Rightarrow> bytes" where
  "tx_write_joinsplits tx =
     (if 2 \<le> nVersion tx
      then ser_vector ser_JSDescription (vjoinsplit tx) @
           (if vjoinsplit tx \<noteq> [] then ser_blob (joinSplitPubKey tx) @ ser_blob (joinSplitSig tx) else [])
      else [])"

definition tx_read_joinsplits :: "u32 \<Rightarrow> CTransaction \<Rightarrow> ('e, CTransaction) reader" where
  "tx_read_joinsplits header tx s =
     (if 2 \<le> nVersion tx
      then exec_bind (unser_vector (unser_JSDescription (useGroth header)) s) (\<lambda>(js, s).
             if js \<noteq> []
             then exec_bind (unser_blob 32 s) (\<lambda>(pk, s).
                  exec_bind (unser_blob 64 s) (\<lambda>(sig, s).
                    Inr (tx\<lparr>vjoinsplit := js, joinSplitPubKey := pk, joinSplitSig := sig\<rparr>, s)))
             else Inr (tx\<lparr>vjoinsplit := js\<rparr>, s))
      else Inr (tx, s))"

definition hasBindingSig :: "CTransaction \<Rightarrow> bool" where
  "hasBindingSig tx \<longleftrightarrow> isSaplingV4 tx \<and> \<not> (vShieldedSpend tx = [] \<and> vShieldedOutput tx = [])"

definition tx_write_binding :: "CTransaction \<Rightarrow> bytes" where
  "tx_write_binding tx = (if hasBindingSig tx then ser_blob (bindingSig tx) else [])"

definition tx_read_binding :: "CTransaction \<Rightarrow> ('e, CTransaction) reader" where
  "tx_read_binding tx s =
     (if hasBindingSig tx
      then exec_bind (unser_blob 64 s) (\<lambda>(b, s). Inr (tx\<lparr>bindingSig := b\<rparr>, s))
      else Inr (tx, s))"

definition ser_CTransaction :: "CTransaction \<Rightarrow> bytes" where
  "ser_CTransaction tx =
     tx_write_header tx @ tx_write_transparent tx @ tx_write_sapling tx @ tx_write_joinsplits tx @
     tx_write_binding tx"

text \<open>The writer throws for an unknown format and for a Sprout proof of the wrong kind.\<close>

definition CTransaction_Serialize :: "CTransaction \<Rightarrow> ('e, bytes) exec" where
  "CTransaction_Serialize tx =
     (if fOverwintered tx \<and> \<not> (isOverwinterV3 tx \<or> isSaplingV4 tx) then Inl Throw
      else if 2 \<le> nVersion tx \<and>
        (\<exists>js \<in> set (vjoinsplit tx). \<not> SproutProofMatches (useGroth (GetHeader tx)) (js_proof js))
      then Inl Throw
      else Inr (ser_CTransaction tx))"

definition unser_CTransaction :: "('e, CTransaction) reader" where
  "unser_CTransaction s =
     exec_bind (tx_read_header s) (\<lambda>((header, tx), s).
     exec_bind (tx_read_transparent tx s) (\<lambda>(tx, s).
     exec_bind (tx_read_sapling tx s) (\<lambda>(tx, s).
     exec_bind (tx_read_joinsplits header tx s) (\<lambda>(tx, s). tx_read_binding tx s))))"



section \<open>Every encoding is unique\<close>

lemma codec_of_iff: "(\<And>s x r. unser s = Inr (x, r) \<longleftrightarrow> ok x \<and> s = ser x @ r) \<Longrightarrow> codec ser unser ok"
  by unfold_locales auto

definition ok_point :: "nat \<Rightarrow> compressed_point \<Rightarrow> bool" where
  "ok_point width p \<longleftrightarrow> length (snd p) = width"

lemma lead_byte:
  fixes prefix :: byte
  assumes "prefix AND 1 = 0"
  shows "(if f then prefix OR 1 else prefix) AND NOT 1 = prefix"
    "(if f then prefix OR 1 else prefix) AND 1 \<noteq> 0 \<longleftrightarrow> f"
    "b AND NOT 1 = prefix \<Longrightarrow> (if b AND 1 \<noteq> 0 then prefix OR 1 else prefix) = b"
proof -
  have p: "\<not> bit prefix 0" using assms by (simp add: and_one_eq odd_iff_mod_2_eq_one bit_0)
  have o: "bit (1 :: byte) i \<longleftrightarrow> i = 0" for i by (simp add: bit_1_iff)
  have one: "x AND 1 \<noteq> 0 \<longleftrightarrow> bit x 0" for x :: byte by (simp add: and_one_eq odd_iff_mod_2_eq_one bit_0)
  show "(if f then prefix OR 1 else prefix) AND NOT 1 = prefix"
    using p by (intro bit_eqI) (auto simp: bit_and_iff bit_or_iff bit_not_iff o intro: gr0I)
  show "(if f then prefix OR 1 else prefix) AND 1 \<noteq> 0 \<longleftrightarrow> f"
    unfolding one using p by (auto simp: bit_or_iff o)
  assume b: "b AND NOT 1 = prefix"
  show "(if b AND 1 \<noteq> 0 then prefix OR 1 else prefix) = b"
    unfolding one b [symmetric] by (intro bit_eqI) (auto simp: bit_and_iff bit_or_iff bit_not_iff o intro: gr0I)
qed

lemma point_codec:
  assumes "prefix AND 1 = (0 :: byte)"
  shows "codec (ser_point prefix) (unser_point prefix width) (ok_point width)"
proof
  fix p :: compressed_point and r :: bytes
  assume "ok_point width p"
  then show "unser_point prefix width (ser_point prefix p @ r) = Inr (p, r)"
    using lead_byte(1,2) [OF assms, of "fst p"]
    by (cases p) (simp add: unser_point_def ser_point_def ok_point_def codec_roundtrip del: not_one_eq)
next
  fix s :: bytes and p :: compressed_point and r :: bytes
  assume "unser_point prefix width s = Inr (p, r)"
  then obtain b x where p: "p = (b AND 1 \<noteq> 0, x)" "s = ser_writedata8 b @ ser_blob x @ r" "length x = width"
    and b: "b AND NOT 1 = prefix"
    by (auto simp: unser_point_def codec_iff split: if_splits elim!: exec_bind_InrE simp del: not_one_eq)
  have "(if fst p then prefix OR 1 else prefix) = b" using lead_byte(3) [OF assms b] by (simp add: p)
  then show "ok_point width p \<and> s = ser_point prefix p @ r"
    by (simp add: ser_point_def ok_point_def p)
qed

interpretation g1: codec "ser_point G1_PREFIX_MASK" "unser_point G1_PREFIX_MASK 32" "ok_point 32"
  by (rule point_codec) simp

interpretation g2: codec "ser_point G2_PREFIX_MASK" "unser_point G2_PREFIX_MASK 64" "ok_point 64"
  by (rule point_codec) simp

definition ok_PHGRProof :: "PHGRProof \<Rightarrow> bool" where
  "ok_PHGRProof p \<longleftrightarrow> ok_point 32 (g_A p) \<and> ok_point 32 (g_A_prime p) \<and> ok_point 64 (g_B p) \<and>
     ok_point 32 (g_B_prime p) \<and> ok_point 32 (g_C p) \<and> ok_point 32 (g_C_prime p) \<and>
     ok_point 32 (g_K p) \<and> ok_point 32 (g_H p)"

interpretation phgr: codec ser_PHGRProof unser_PHGRProof ok_PHGRProof
proof
  fix p :: PHGRProof and r :: bytes
  assume "ok_PHGRProof p"
  then show "unser_PHGRProof (ser_PHGRProof p @ r) = Inr (p, r)"
    by (simp add: unser_PHGRProof_def ser_PHGRProof_def ok_PHGRProof_def g1.roundtrip g2.roundtrip)
next
  fix s :: bytes and p :: PHGRProof and r :: bytes
  assume "unser_PHGRProof s = Inr (p, r)"
  then show "ok_PHGRProof p \<and> s = ser_PHGRProof p @ r"
    by (auto simp: unser_PHGRProof_def ser_PHGRProof_def ok_PHGRProof_def g1.unser_iff g2.unser_iff
        elim!: exec_bind_InrE)
qed

definition ok_SproutProof :: "bool \<Rightarrow> SproutProof \<Rightarrow> bool" where
  "ok_SproutProof g p \<longleftrightarrow> SproutProofMatches g p \<and>
     (case p of SproutPHGR q \<Rightarrow> ok_PHGRProof q | SproutGroth q \<Rightarrow> length q = GROTH_PROOF_SIZE)"

interpretation sprout_proof: codec ser_SproutProof "unser_SproutProof g" "ok_SproutProof g" for g
proof
  fix p :: SproutProof and r :: bytes
  assume "ok_SproutProof g p"
  then show "unser_SproutProof g (ser_SproutProof p @ r) = Inr (p, r)"
    by (auto simp: unser_SproutProof_def ser_SproutProof_def ok_SproutProof_def SproutProofMatches_def
        phgr.roundtrip blob.roundtrip split: SproutProof.splits)
next
  fix s :: bytes and p :: SproutProof and r :: bytes
  assume "unser_SproutProof g s = Inr (p, r)"
  then show "ok_SproutProof g p \<and> s = ser_SproutProof p @ r"
    by (auto simp: unser_SproutProof_def ser_SproutProof_def ok_SproutProof_def SproutProofMatches_def
        phgr.unser_iff blob.unser_iff split: if_splits elim!: exec_bind_InrE)
qed

definition ok_SpendDescription :: "SpendDescription \<Rightarrow> bool" where
  "ok_SpendDescription d \<longleftrightarrow> length (sd_cv d) = 32 \<and> length (sd_anchor d) = 32 \<and> length (nullifier d) = 32 \<and> length (rk d) = 32 \<and>
     length (sd_zkproof d) = GROTH_PROOF_SIZE \<and> length (spendAuthSig d) = 64"

interpretation spend: codec ser_SpendDescription "unser_SpendDescription" "ok_SpendDescription"
proof
  fix d :: SpendDescription and r :: bytes
  assume "ok_SpendDescription d"
  then show "unser_SpendDescription (ser_SpendDescription d @ r) = Inr (d, r)"
    by (simp add: unser_SpendDescription_def ser_SpendDescription_def ok_SpendDescription_def blob.roundtrip)
next
  fix s :: bytes and d :: SpendDescription and r :: bytes
  assume "unser_SpendDescription s = Inr (d, r)"
  then show "ok_SpendDescription d \<and> s = ser_SpendDescription d @ r"
    by (auto simp: unser_SpendDescription_def ser_SpendDescription_def ok_SpendDescription_def blob.unser_iff elim!: exec_bind_InrE)
qed

definition ok_OutputDescription :: "OutputDescription \<Rightarrow> bool" where
  "ok_OutputDescription d \<longleftrightarrow> length (od_cv d) = 32 \<and> length (cm d) = 32 \<and> length (od_ephemeralKey d) = 32 \<and>
     length (encCiphertext d) = ZC_SAPLING_ENCCIPHERTEXT_SIZE \<and>
     length (outCiphertext d) = ZC_SAPLING_OUTCIPHERTEXT_SIZE \<and> length (od_zkproof d) = GROTH_PROOF_SIZE"

interpretation sapling_output: codec ser_OutputDescription "unser_OutputDescription" "ok_OutputDescription"
proof
  fix d :: OutputDescription and r :: bytes
  assume "ok_OutputDescription d"
  then show "unser_OutputDescription (ser_OutputDescription d @ r) = Inr (d, r)"
    by (simp add: unser_OutputDescription_def ser_OutputDescription_def ok_OutputDescription_def blob.roundtrip)
next
  fix s :: bytes and d :: OutputDescription and r :: bytes
  assume "unser_OutputDescription s = Inr (d, r)"
  then show "ok_OutputDescription d \<and> s = ser_OutputDescription d @ r"
    by (auto simp: unser_OutputDescription_def ser_OutputDescription_def ok_OutputDescription_def blob.unser_iff elim!: exec_bind_InrE)
qed

definition ok_blobs :: "nat \<Rightarrow> nat \<Rightarrow> bytes list \<Rightarrow> bool" where
  "ok_blobs n width xs \<longleftrightarrow> length xs = n \<and> (\<forall>x \<in> set xs. length x = width)"

lemma blobs_iff: "unser_many (unser_blob width) n s = Inr (xs, r) \<longleftrightarrow> ok_blobs n width xs \<and> s = ser_many ser_blob xs @ r"
  by (auto simp: blob.unser_many_iff ok_blobs_def)

lemma blobs_roundtrip: "ok_blobs n width xs \<Longrightarrow> unser_many (unser_blob width) n (ser_many ser_blob xs @ r) = Inr (xs, r)"
  by (simp add: blobs_iff)

definition ok_JSDescription :: "bool \<Rightarrow> JSDescription \<Rightarrow> bool" where
  "ok_JSDescription g d \<longleftrightarrow> in_int64 (vpub_old d) \<and> in_int64 (vpub_new d) \<and> length (js_anchor d) = 32 \<and>
     ok_blobs ZC_NUM_JS_INPUTS 32 (js_nullifiers d) \<and> ok_blobs ZC_NUM_JS_OUTPUTS 32 (commitments d) \<and>
     length (js_ephemeralKey d) = 32 \<and> length (randomSeed d) = 32 \<and> ok_blobs ZC_NUM_JS_INPUTS 32 (macs d) \<and>
     ok_SproutProof g (js_proof d) \<and> ok_blobs ZC_NUM_JS_OUTPUTS ZC_NOTECIPHERTEXT_SIZE (ciphertexts d)"

interpretation joinsplit: codec ser_JSDescription "unser_JSDescription g" "ok_JSDescription g" for g
proof
  fix d :: JSDescription and r :: bytes
  assume "ok_JSDescription g d"
  then show "unser_JSDescription g (ser_JSDescription d @ r) = Inr (d, r)"
    by (simp add: unser_JSDescription_def ser_JSDescription_def ok_JSDescription_def int64.roundtrip blob.roundtrip
        blobs_roundtrip sprout_proof.roundtrip del: unser_many.simps)
next
  fix s :: bytes and d :: JSDescription and r :: bytes
  assume "unser_JSDescription g s = Inr (d, r)"
  then show "ok_JSDescription g d \<and> s = ser_JSDescription d @ r"
    by (auto simp: unser_JSDescription_def ser_JSDescription_def ok_JSDescription_def int64.unser_iff blob.unser_iff
        blobs_iff sprout_proof.unser_iff simp del: unser_many.simps elim!: exec_bind_InrE)
qed

definition ok_COutPoint :: "COutPoint \<Rightarrow> bool" where
  "ok_COutPoint d \<longleftrightarrow> length (op_hash d) = 32"

interpretation outpoint: codec ser_COutPoint "unser_COutPoint" "ok_COutPoint"
proof
  fix d :: COutPoint and r :: bytes
  assume "ok_COutPoint d"
  then show "unser_COutPoint (ser_COutPoint d @ r) = Inr (d, r)"
    by (simp add: unser_COutPoint_def ser_COutPoint_def ok_COutPoint_def blob.roundtrip u32.roundtrip)
next
  fix s :: bytes and d :: COutPoint and r :: bytes
  assume "unser_COutPoint s = Inr (d, r)"
  then show "ok_COutPoint d \<and> s = ser_COutPoint d @ r"
    by (auto simp: unser_COutPoint_def ser_COutPoint_def ok_COutPoint_def blob.unser_iff u32.unser_iff elim!: exec_bind_InrE)
qed

definition ok_CTxIn :: "CTxIn \<Rightarrow> bool" where
  "ok_CTxIn d \<longleftrightarrow> ok_COutPoint (prevout d) \<and> ok_bytes (scriptSig d)"

interpretation txin: codec ser_CTxIn "unser_CTxIn" "ok_CTxIn"
proof
  fix d :: CTxIn and r :: bytes
  assume "ok_CTxIn d"
  then show "unser_CTxIn (ser_CTxIn d @ r) = Inr (d, r)"
    by (simp add: unser_CTxIn_def ser_CTxIn_def ok_CTxIn_def outpoint.roundtrip byte_vector.roundtrip u32.roundtrip)
next
  fix s :: bytes and d :: CTxIn and r :: bytes
  assume "unser_CTxIn s = Inr (d, r)"
  then show "ok_CTxIn d \<and> s = ser_CTxIn d @ r"
    by (auto simp: unser_CTxIn_def ser_CTxIn_def ok_CTxIn_def outpoint.unser_iff byte_vector.unser_iff u32.unser_iff elim!: exec_bind_InrE)
qed

definition ok_CTxOut :: "CTxOut \<Rightarrow> bool" where
  "ok_CTxOut d \<longleftrightarrow> in_int64 (nValue d) \<and> ok_bytes (scriptPubKey d)"

interpretation txout: codec ser_CTxOut "unser_CTxOut" "ok_CTxOut"
proof
  fix d :: CTxOut and r :: bytes
  assume "ok_CTxOut d"
  then show "unser_CTxOut (ser_CTxOut d @ r) = Inr (d, r)"
    by (simp add: unser_CTxOut_def ser_CTxOut_def ok_CTxOut_def int64.roundtrip byte_vector.roundtrip)
next
  fix s :: bytes and d :: CTxOut and r :: bytes
  assume "unser_CTxOut s = Inr (d, r)"
  then show "ok_CTxOut d \<and> s = ser_CTxOut d @ r"
    by (auto simp: unser_CTxOut_def ser_CTxOut_def ok_CTxOut_def int64.unser_iff byte_vector.unser_iff elim!: exec_bind_InrE)
qed

definition ok_vector :: "('a \<Rightarrow> bool) \<Rightarrow> 'a list \<Rightarrow> bool" where
  "ok_vector ok xs \<longleftrightarrow> length xs \<le> MAX_SIZE \<and> (\<forall>x \<in> set xs. ok x)"

lemma vector_of_codec: "codec ser unser ok \<Longrightarrow> codec (ser_vector ser) (unser_vector unser) (ok_vector ok)"
  unfolding ok_vector_def by (rule codec.vector_codec)

interpretation vin: codec "ser_vector ser_CTxIn" "unser_vector unser_CTxIn" "ok_vector ok_CTxIn"
  by (rule vector_of_codec) (rule txin.codec_axioms)

interpretation vout: codec "ser_vector ser_CTxOut" "unser_vector unser_CTxOut" "ok_vector ok_CTxOut"
  by (rule vector_of_codec) (rule txout.codec_axioms)

interpretation spends: codec "ser_vector ser_SpendDescription" "unser_vector unser_SpendDescription"
    "ok_vector ok_SpendDescription"
  by (rule vector_of_codec) (rule spend.codec_axioms)

interpretation sapling_outputs: codec "ser_vector ser_OutputDescription" "unser_vector unser_OutputDescription"
    "ok_vector ok_OutputDescription"
  by (rule vector_of_codec) (rule sapling_output.codec_axioms)

interpretation joinsplits: codec "ser_vector ser_JSDescription" "unser_vector (unser_JSDescription g)"
    "ok_vector (ok_JSDescription g)" for g
  by (rule vector_of_codec) (rule joinsplit.codec_axioms)

text \<open>The header word holds the version in its low 31 bits and the Overwinter flag on top.\<close>

lemma top_bit: "drop_bit 31 (h :: u32) \<noteq> 0 \<longleftrightarrow> bit h 31"
proof
  assume "drop_bit 31 h \<noteq> 0"
  then obtain n where "bit (drop_bit 31 h) n" by (auto simp: bit_eq_iff)
  then have "bit h (31 + n)" by (simp add: bit_drop_bit_eq)
  with bit_imp_le_length [of h "31 + n"] show "bit h 31" by (cases "n = 0") auto
next
  assume "bit h 31"
  then have "bit (drop_bit 31 h) 0" by (simp add: bit_drop_bit_eq)
  then show "drop_bit 31 h \<noteq> 0" by auto
qed

lemma mask31: "(0x7FFFFFFF :: u32) = mask 31"
  by (simp add: mask_eq_exp_minus_1)

lemma push31: "bit (push_bit 31 (1 :: u32)) i \<longleftrightarrow> i = 31"
  by (auto simp: bit_push_bit_iff bit_1_iff simp del: push_bit_of_1)

lemma GetHeader_parts:
  assumes "0 \<le> nVersion tx" "nVersion tx < 2 ^ 31"
  shows "drop_bit 31 (GetHeader tx) \<noteq> 0 \<longleftrightarrow> fOverwintered tx"
    "uint (GetHeader tx AND 0x7FFFFFFF) = nVersion tx"
proof -
  define w :: u32 where "w = word_of_int (nVersion tx)"
  have w: "uint w = nVersion tx" using assms by (simp add: w_def uint_word_of_int)
  have hi: "\<not> bit w i" if "31 \<le> i" for i
  proof
    assume "bit w i"
    then have "bit (unat w) i" using bit_imp_le_length [of w i] by (simp add: bit_unsigned_iff)
    then have "2 ^ i \<le> unat w" by (metis bit_iff_odd div_less even_zero not_le)
    moreover have "(2 :: nat) ^ 31 \<le> 2 ^ i" using that by (intro power_increasing) auto
    moreover have "unat w < 2 ^ 31" using w assms(2) by (simp flip: nat_uint_eq) 
    ultimately show False by linarith
  qed
  have h: "bit (GetHeader tx) i \<longleftrightarrow> bit w i \<or> fOverwintered tx \<and> i = 31" for i
    by (simp add: GetHeader_def w_def [symmetric] bit_or_iff push31 del: push_bit_of_1)
  show "drop_bit 31 (GetHeader tx) \<noteq> 0 \<longleftrightarrow> fOverwintered tx"
    unfolding top_bit h using hi [of 31] by simp
  have lo: "bit w i \<Longrightarrow> i < 31" for i using hi [of i] by force
  have "GetHeader tx AND 0x7FFFFFFF = w"
    by (rule bit_eqI) (auto simp: bit_and_iff mask31 bit_mask_iff h dest: lo)
  then show "uint (GetHeader tx AND 0x7FFFFFFF) = nVersion tx" by (simp only: w)
qed

lemma GetHeader_of_parts:
  assumes "fOverwintered tx \<longleftrightarrow> drop_bit 31 h \<noteq> 0" "nVersion tx = uint (h AND 0x7FFFFFFF)"
  shows "GetHeader tx = h" "0 \<le> nVersion tx" "nVersion tx < 2 ^ 31"
proof -
  have w: "word_of_int (nVersion tx) = h AND 0x7FFFFFFF" using assms(2) by simp
  show "GetHeader tx = h"
  proof (rule bit_eqI)
    fix i
    assume "possible_bit TYPE(u32) i"
    then have "i < 32" by simp
    then have "i < 31 \<or> i = 31" by auto
    then show "bit (GetHeader tx) i \<longleftrightarrow> bit h i"
      using assms(1) [unfolded top_bit]
      by (auto simp: GetHeader_def w bit_or_iff push31 bit_and_iff mask31 bit_mask_iff simp del: push_bit_of_1)
  qed
  show "0 \<le> nVersion tx" using assms(2) by simp
  have "h AND 0x7FFFFFFF = take_bit 31 h" by (simp only: mask31 take_bit_eq_mask)
  then have "uint (h AND 0x7FFFFFFF) = take_bit 31 (uint h)" by (simp only: unsigned_take_bit_eq)
  then show "nVersion tx < 2 ^ 31" using assms(2) by (simp only: take_bit_int_less_exp)
qed

lemma tx_version_updates [simp]:
  "isSaplingV4 (tx\<lparr>vin := a\<rparr>) = isSaplingV4 tx" "isSaplingV4 (tx\<lparr>vout := b\<rparr>) = isSaplingV4 tx"
  "isSaplingV4 (tx\<lparr>nLockTime := c\<rparr>) = isSaplingV4 tx" "isSaplingV4 (tx\<lparr>nExpiryHeight := d\<rparr>) = isSaplingV4 tx"
  "isSaplingV4 (tx\<lparr>valueBalance := e\<rparr>) = isSaplingV4 tx" "isSaplingV4 (tx\<lparr>vShieldedSpend := f\<rparr>) = isSaplingV4 tx"
  "isSaplingV4 (tx\<lparr>vShieldedOutput := g\<rparr>) = isSaplingV4 tx" "isSaplingV4 (tx\<lparr>vjoinsplit := h\<rparr>) = isSaplingV4 tx"
  "isSaplingV4 (tx\<lparr>joinSplitPubKey := i\<rparr>) = isSaplingV4 tx" "isSaplingV4 (tx\<lparr>joinSplitSig := j\<rparr>) = isSaplingV4 tx"
  "isSaplingV4 (tx\<lparr>bindingSig := k\<rparr>) = isSaplingV4 tx"
  "isOverwinterV3 (tx\<lparr>vin := a\<rparr>) = isOverwinterV3 tx" "isOverwinterV3 (tx\<lparr>vout := b\<rparr>) = isOverwinterV3 tx"
  "isOverwinterV3 (tx\<lparr>nLockTime := c\<rparr>) = isOverwinterV3 tx"
  "isOverwinterV3 (tx\<lparr>nExpiryHeight := d\<rparr>) = isOverwinterV3 tx"
  "isOverwinterV3 (tx\<lparr>valueBalance := e\<rparr>) = isOverwinterV3 tx"
  "isOverwinterV3 (tx\<lparr>vShieldedSpend := f\<rparr>) = isOverwinterV3 tx"
  "isOverwinterV3 (tx\<lparr>vShieldedOutput := g\<rparr>) = isOverwinterV3 tx"
  "isOverwinterV3 (tx\<lparr>vjoinsplit := h\<rparr>) = isOverwinterV3 tx"
  "isOverwinterV3 (tx\<lparr>joinSplitPubKey := i\<rparr>) = isOverwinterV3 tx"
  "isOverwinterV3 (tx\<lparr>joinSplitSig := j\<rparr>) = isOverwinterV3 tx"
  "isOverwinterV3 (tx\<lparr>bindingSig := k\<rparr>) = isOverwinterV3 tx"
  by (simp_all add: isSaplingV4_def isOverwinterV3_def)

text \<open>The values of the model that are transactions: every field is in the range of its C++ type,
  and the fields that the format does not have keep their defaults.\<close>

definition ok_tx_header :: "CTransaction \<Rightarrow> bool" where
  "ok_tx_header tx \<longleftrightarrow> 0 \<le> nVersion tx \<and> nVersion tx < 2 ^ 31 \<and>
     (if fOverwintered tx then isOverwinterV3 tx \<or> isSaplingV4 tx else nVersionGroupId tx = 0)"

definition ok_tx_transparent :: "CTransaction \<Rightarrow> bool" where
  "ok_tx_transparent tx \<longleftrightarrow> ok_vector ok_CTxIn (vin tx) \<and> ok_vector ok_CTxOut (vout tx) \<and>
     (isOverwinterV3 tx \<or> isSaplingV4 tx \<or> nExpiryHeight tx = 0)"

definition ok_tx_sapling :: "CTransaction \<Rightarrow> bool" where
  "ok_tx_sapling tx \<longleftrightarrow>
     (if isSaplingV4 tx
      then in_int64 (valueBalance tx) \<and> ok_vector ok_SpendDescription (vShieldedSpend tx) \<and>
           ok_vector ok_OutputDescription (vShieldedOutput tx)
      else valueBalance tx = 0 \<and> vShieldedSpend tx = [] \<and> vShieldedOutput tx = [])"

definition ok_tx_joinsplits :: "CTransaction \<Rightarrow> bool" where
  "ok_tx_joinsplits tx \<longleftrightarrow>
     (if 2 \<le> nVersion tx then ok_vector (ok_JSDescription (useGroth (GetHeader tx))) (vjoinsplit tx)
      else vjoinsplit tx = []) \<and>
     (if vjoinsplit tx = [] then joinSplitPubKey tx = replicate 32 0 \<and> joinSplitSig tx = replicate 64 0
      else length (joinSplitPubKey tx) = 32 \<and> length (joinSplitSig tx) = 64)"

definition ok_CTransaction :: "CTransaction \<Rightarrow> bool" where
  "ok_CTransaction tx \<longleftrightarrow> ok_tx_header tx \<and> ok_tx_transparent tx \<and> ok_tx_sapling tx \<and>
     ok_tx_joinsplits tx \<and>
     (if hasBindingSig tx then length (bindingSig tx) = 64 else bindingSig tx = replicate 64 0)"

text \<open>What each reader does to the transaction it fills in.\<close>

lemma tx_read_headerD:
  assumes "(tx_read_header s :: ('e, _) exec) = Inr ((h, tx), r)"
  shows "tx = CTransaction_new\<lparr>fOverwintered := fOverwintered tx, nVersion := nVersion tx,
      nVersionGroupId := nVersionGroupId tx\<rparr> \<and>
    h = GetHeader tx \<and> s = tx_write_header tx @ r \<and> ok_tx_header tx"
proof (cases "drop_bit 31 h \<noteq> 0")
  case True
  obtain g where tx: "tx = CTransaction_new\<lparr>fOverwintered := True, nVersion := uint (h AND 0x7FFFFFFF), nVersionGroupId := g\<rparr>"
    and s: "s = WriteLE32 h @ WriteLE32 g @ r" and ok: "isOverwinterV3 tx \<or> isSaplingV4 tx"
    using assms True
    by (auto simp: tx_read_header_def u32.unser_iff Let_def split: if_splits elim!: exec_bind_InrE)
  have f: "fOverwintered tx \<longleftrightarrow> drop_bit 31 h \<noteq> 0" "nVersion tx = uint (h AND 0x7FFFFFFF)"
    using True by (simp_all add: tx)
  note H = GetHeader_of_parts [OF f]
  have "tx_write_header tx = WriteLE32 h @ WriteLE32 g" by (simp add: tx_write_header_def H(1)) (simp add: tx)
  moreover have "ok_tx_header tx" using H(2,3) ok by (simp add: ok_tx_header_def) (simp add: tx)
  moreover have "tx = CTransaction_new\<lparr>fOverwintered := fOverwintered tx, nVersion := nVersion tx,
      nVersionGroupId := nVersionGroupId tx\<rparr>" by (simp add: tx)
  ultimately show ?thesis using s H(1) by simp
next
  case False
  have tx: "tx = CTransaction_new\<lparr>fOverwintered := False, nVersion := uint (h AND 0x7FFFFFFF)\<rparr>"
    and s: "s = WriteLE32 h @ r"
    using assms False
    by (auto simp: tx_read_header_def u32.unser_iff Let_def split: if_splits elim!: exec_bind_InrE)
  have f: "fOverwintered tx \<longleftrightarrow> drop_bit 31 h \<noteq> 0" "nVersion tx = uint (h AND 0x7FFFFFFF)"
    using False by (simp_all add: tx)
  note H = GetHeader_of_parts [OF f]
  have "tx_write_header tx = WriteLE32 h" by (simp add: tx_write_header_def H(1)) (simp add: tx)
  moreover have "ok_tx_header tx" using H(2,3) by (simp add: ok_tx_header_def) (simp add: tx CTransaction_new_def)
  moreover have "tx = CTransaction_new\<lparr>fOverwintered := fOverwintered tx, nVersion := nVersion tx,
      nVersionGroupId := nVersionGroupId tx\<rparr>" by (simp add: tx CTransaction_new_def)
  ultimately show ?thesis using s H(1) by simp
qed

lemma tx_read_transparentD:
  assumes "tx_read_transparent tx s = Inr (tx', r)"
  shows "tx' = tx\<lparr>vin := vin tx', vout := vout tx', nLockTime := nLockTime tx', nExpiryHeight := nExpiryHeight tx'\<rparr> \<and>
    s = tx_write_transparent tx' @ r \<and> ok_vector ok_CTxIn (vin tx') \<and> ok_vector ok_CTxOut (vout tx') \<and>
    (isOverwinterV3 tx \<or> isSaplingV4 tx \<or> nExpiryHeight tx' = nExpiryHeight tx)"
  using assms
  by (auto simp: tx_read_transparent_def tx_write_transparent_def vin.unser_iff vout.unser_iff
      u32.unser_iff split: if_splits elim!: exec_bind_InrE)

lemma tx_read_saplingD:
  assumes "tx_read_sapling tx s = Inr (tx', r)"
  shows "tx' = tx\<lparr>valueBalance := valueBalance tx', vShieldedSpend := vShieldedSpend tx', vShieldedOutput := vShieldedOutput tx'\<rparr> \<and>
    s = tx_write_sapling tx' @ r \<and>
    (if isSaplingV4 tx then in_int64 (valueBalance tx') \<and> ok_vector ok_SpendDescription (vShieldedSpend tx') \<and>
       ok_vector ok_OutputDescription (vShieldedOutput tx')
     else tx' = tx)"
  using assms
  by (auto simp: tx_read_sapling_def tx_write_sapling_def int64.unser_iff spends.unser_iff
      sapling_outputs.unser_iff split: if_splits elim!: exec_bind_InrE)

lemma tx_read_joinsplitsD:
  assumes "tx_read_joinsplits h tx s = Inr (tx', r)" "joinSplitPubKey tx = replicate 32 0"
    "joinSplitSig tx = replicate 64 0" "vjoinsplit tx = []"
  shows "tx' = tx\<lparr>vjoinsplit := vjoinsplit tx', joinSplitPubKey := joinSplitPubKey tx', joinSplitSig := joinSplitSig tx'\<rparr> \<and>
    s = tx_write_joinsplits tx' @ r \<and>
    (if 2 \<le> nVersion tx then ok_vector (ok_JSDescription (useGroth h)) (vjoinsplit tx') else vjoinsplit tx' = []) \<and>
    (if vjoinsplit tx' = [] then joinSplitPubKey tx' = replicate 32 0 \<and> joinSplitSig tx' = replicate 64 0
     else length (joinSplitPubKey tx') = 32 \<and> length (joinSplitSig tx') = 64)"
  using assms
  by (auto simp: tx_read_joinsplits_def tx_write_joinsplits_def joinsplits.unser_iff blob.unser_iff
      split: if_splits elim!: exec_bind_InrE)

lemma tx_read_bindingD:
  assumes "tx_read_binding tx s = Inr (tx', r)" "bindingSig tx = replicate 64 0"
  shows "tx' = tx\<lparr>bindingSig := bindingSig tx'\<rparr> \<and> s = tx_write_binding tx' @ r \<and>
    (if hasBindingSig tx then length (bindingSig tx') = 64 else bindingSig tx' = replicate 64 0)"
  using assms
  by (auto simp: tx_read_binding_def tx_write_binding_def hasBindingSig_def blob.unser_iff
      split: if_splits elim!: exec_bind_InrE)

lemma tx_write_cong:
  assumes "fOverwintered a = fOverwintered b" "nVersion a = nVersion b" "nVersionGroupId a = nVersionGroupId b"
  shows "isSaplingV4 a = isSaplingV4 b" "isOverwinterV3 a = isOverwinterV3 b" "GetHeader a = GetHeader b"
    "tx_write_header a = tx_write_header b" "ok_tx_header a = ok_tx_header b"
    "vin a = vin b \<Longrightarrow> vout a = vout b \<Longrightarrow> nLockTime a = nLockTime b \<Longrightarrow> nExpiryHeight a = nExpiryHeight b \<Longrightarrow>
       tx_write_transparent a = tx_write_transparent b"
    "valueBalance a = valueBalance b \<Longrightarrow> vShieldedSpend a = vShieldedSpend b \<Longrightarrow>
       vShieldedOutput a = vShieldedOutput b \<Longrightarrow> tx_write_sapling a = tx_write_sapling b"
    "vjoinsplit a = vjoinsplit b \<Longrightarrow> joinSplitPubKey a = joinSplitPubKey b \<Longrightarrow>
       joinSplitSig a = joinSplitSig b \<Longrightarrow> tx_write_joinsplits a = tx_write_joinsplits b"
    "vShieldedSpend a = vShieldedSpend b \<Longrightarrow> vShieldedOutput a = vShieldedOutput b \<Longrightarrow>
       hasBindingSig a = hasBindingSig b"
  using assms
  by (simp_all add: isSaplingV4_def isOverwinterV3_def GetHeader_def tx_write_header_def ok_tx_header_def
      tx_write_transparent_def tx_write_sapling_def tx_write_joinsplits_def hasBindingSig_def)

text \<open>The defaults that stay in place while the groups are read.\<close>

lemma tx_canonical:
  assumes "(unser_CTransaction s :: ('e, _) exec) = Inr (tx, r)"
  shows "ok_CTransaction tx \<and> s = ser_CTransaction tx @ r"
proof -
  obtain h t1 s1 t2 s2 t3 s3 t4 s4 where
    r: "(tx_read_header s :: ('e, _) exec) = Inr ((h, t1), s1)"
      "(tx_read_transparent t1 s1 :: ('e, _) exec) = Inr (t2, s2)"
      "(tx_read_sapling t2 s2 :: ('e, _) exec) = Inr (t3, s3)"
      "(tx_read_joinsplits h t3 s3 :: ('e, _) exec) = Inr (t4, s4)"
      "(tx_read_binding t4 s4 :: ('e, _) exec) = Inr (tx, r)"
    using assms by (auto simp: unser_CTransaction_def elim!: exec_bind_InrE)
  note d1 = tx_read_headerD [OF r(1)]
  note d2 = tx_read_transparentD [OF r(2)]
  note d3 = tx_read_saplingD [OF r(3)]
  have e1: "t1 = CTransaction_new\<lparr>fOverwintered := fOverwintered t1, nVersion := nVersion t1,
      nVersionGroupId := nVersionGroupId t1\<rparr>"
    and e2: "t2 = t1\<lparr>vin := vin t2, vout := vout t2, nLockTime := nLockTime t2, nExpiryHeight := nExpiryHeight t2\<rparr>"
    and e3: "t3 = t2\<lparr>valueBalance := valueBalance t3, vShieldedSpend := vShieldedSpend t3, vShieldedOutput := vShieldedOutput t3\<rparr>"
    using d1 d2 d3 by blast+
  have f1: "nExpiryHeight t1 = 0" "valueBalance t1 = 0" "vShieldedSpend t1 = []" "vShieldedOutput t1 = []"
    "vjoinsplit t1 = []" "joinSplitPubKey t1 = replicate 32 0" "joinSplitSig t1 = replicate 64 0"
    "bindingSig t1 = replicate 64 0"
    by (subst e1; simp add: CTransaction_new_def)+
  have f2: "fOverwintered t2 = fOverwintered t1" "nVersion t2 = nVersion t1" "nVersionGroupId t2 = nVersionGroupId t1"
    "valueBalance t2 = 0" "vShieldedSpend t2 = []" "vShieldedOutput t2 = []" "vjoinsplit t2 = []"
    "joinSplitPubKey t2 = replicate 32 0" "joinSplitSig t2 = replicate 64 0" "bindingSig t2 = replicate 64 0"
    by (subst e2; simp add: f1)+
  have f3: "fOverwintered t3 = fOverwintered t1" "nVersion t3 = nVersion t1" "nVersionGroupId t3 = nVersionGroupId t1"
    "vin t3 = vin t2" "vout t3 = vout t2" "nLockTime t3 = nLockTime t2" "nExpiryHeight t3 = nExpiryHeight t2"
    "vjoinsplit t3 = []" "joinSplitPubKey t3 = replicate 32 0" "joinSplitSig t3 = replicate 64 0"
    "bindingSig t3 = replicate 64 0"
    by (subst e3; simp add: f2)+
  note d4 = tx_read_joinsplitsD [OF r(4) f3(9,10,8)]
  have e4: "t4 = t3\<lparr>vjoinsplit := vjoinsplit t4, joinSplitPubKey := joinSplitPubKey t4, joinSplitSig := joinSplitSig t4\<rparr>"
    using d4 by blast
  have f4: "fOverwintered t4 = fOverwintered t1" "nVersion t4 = nVersion t1" "nVersionGroupId t4 = nVersionGroupId t1"
    "vin t4 = vin t2" "vout t4 = vout t2" "nLockTime t4 = nLockTime t2" "nExpiryHeight t4 = nExpiryHeight t2"
    "valueBalance t4 = valueBalance t3" "vShieldedSpend t4 = vShieldedSpend t3" "vShieldedOutput t4 = vShieldedOutput t3"
    "bindingSig t4 = replicate 64 0"
    by (subst e4; simp add: f3)+
  note d5 = tx_read_bindingD [OF r(5) f4(11)]
  have e5: "tx = t4\<lparr>bindingSig := bindingSig tx\<rparr>" using d5 by blast
  have f5: "fOverwintered tx = fOverwintered t1" "nVersion tx = nVersion t1" "nVersionGroupId tx = nVersionGroupId t1"
    "vin tx = vin t2" "vout tx = vout t2" "nLockTime tx = nLockTime t2" "nExpiryHeight tx = nExpiryHeight t2"
    "valueBalance tx = valueBalance t3" "vShieldedSpend tx = vShieldedSpend t3" "vShieldedOutput tx = vShieldedOutput t3"
    "vjoinsplit tx = vjoinsplit t4" "joinSplitPubKey tx = joinSplitPubKey t4" "joinSplitSig tx = joinSplitSig t4"
    by (subst e5; simp add: f4)+
  note c1 = tx_write_cong [OF f5(1,2,3)]
  have V2: "isSaplingV4 t2 = isSaplingV4 tx" "isOverwinterV3 t2 = isOverwinterV3 tx"
    "isSaplingV4 t1 = isSaplingV4 tx" "isOverwinterV3 t1 = isOverwinterV3 tx"
    using c1(1,2) tx_write_cong(1,2) [OF f2(1,2,3)] by simp_all
  have w: "tx_write_header t1 = tx_write_header tx" "tx_write_transparent t2 = tx_write_transparent tx"
    "tx_write_sapling t3 = tx_write_sapling tx" "tx_write_joinsplits t4 = tx_write_joinsplits tx"
    "hasBindingSig t4 = hasBindingSig tx" "GetHeader t1 = GetHeader tx" "ok_tx_header t1 = ok_tx_header tx"
    using c1(3,4,5) tx_write_cong [of t2 tx] tx_write_cong [of t3 tx] tx_write_cong [of t4 tx] f2 f3 f4 f5
    by simp_all
  have "s = ser_CTransaction tx @ r"
    using d1 d2 d3 d4 d5 by (simp add: ser_CTransaction_def w)
  moreover have "ok_tx_header tx" "ok_tx_transparent tx"
    using d1 d2 by (simp_all add: w ok_tx_transparent_def f5 V2 f1)
  moreover have "ok_tx_sapling tx"
    using d3 f2 by (auto simp: ok_tx_sapling_def f5 V2 split: if_splits)
  moreover have "ok_tx_joinsplits tx"
    using d4 d1 by (auto simp: ok_tx_joinsplits_def f5 f3 w)
  ultimately show ?thesis using d5 by (simp add: ok_CTransaction_def w)
qed

lemma tx_header_roundtrip:
  assumes "ok_tx_header tx"
  shows "tx_read_header (tx_write_header tx @ r) =
    Inr ((GetHeader tx, CTransaction_new\<lparr>fOverwintered := fOverwintered tx, nVersion := nVersion tx,
      nVersionGroupId := nVersionGroupId tx\<rparr>), r)"
proof -
  note H = GetHeader_parts [of tx]
  have "isOverwinterV3 (CTransaction_new\<lparr>fOverwintered := True, nVersion := nVersion tx,
      nVersionGroupId := nVersionGroupId tx\<rparr>) = isOverwinterV3 tx"
    "isSaplingV4 (CTransaction_new\<lparr>fOverwintered := True, nVersion := nVersion tx,
      nVersionGroupId := nVersionGroupId tx\<rparr>) = isSaplingV4 tx" if "fOverwintered tx"
    using that by (simp_all add: isOverwinterV3_def isSaplingV4_def)
  then show ?thesis
    using assms H by (auto simp: tx_read_header_def tx_write_header_def ok_tx_header_def u32.roundtrip Let_def
        CTransaction_new_def)
qed

lemma tx_roundtrip:
  assumes "ok_CTransaction tx"
  shows "unser_CTransaction (ser_CTransaction tx @ r) = Inr (tx, r)"
proof -
  have ok: "ok_tx_header tx" "ok_tx_transparent tx" "ok_tx_sapling tx" "ok_tx_joinsplits tx"
    using assms by (simp_all add: ok_CTransaction_def)
  define t1 where "t1 = CTransaction_new\<lparr>fOverwintered := fOverwintered tx, nVersion := nVersion tx,
      nVersionGroupId := nVersionGroupId tx\<rparr>"
  define t2 where "t2 = t1\<lparr>vin := vin tx, vout := vout tx, nLockTime := nLockTime tx, nExpiryHeight := nExpiryHeight tx\<rparr>"
  define t3 where "t3 = t2\<lparr>valueBalance := valueBalance tx, vShieldedSpend := vShieldedSpend tx,
      vShieldedOutput := vShieldedOutput tx\<rparr>"
  define t4 where "t4 = t3\<lparr>vjoinsplit := vjoinsplit tx, joinSplitPubKey := joinSplitPubKey tx,
      joinSplitSig := joinSplitSig tx\<rparr>"
  have V: "isSaplingV4 t1 = isSaplingV4 tx" "isOverwinterV3 t1 = isOverwinterV3 tx"
    by (simp_all add: t1_def isSaplingV4_def isOverwinterV3_def)
  have nv: "nVersion t3 = nVersion tx" by (simp add: t3_def t2_def t1_def)
  have r1: "tx_read_header (tx_write_header tx @ x) = Inr ((GetHeader tx, t1), x)" for x
    unfolding t1_def by (rule tx_header_roundtrip [OF ok(1)])
  have "nExpiryHeight t1 = 0" by (simp add: t1_def CTransaction_new_def)
  then have r2: "tx_read_transparent t1 (tx_write_transparent tx @ x) = Inr (t2, x)" for x
    using ok(2) by (auto simp: tx_read_transparent_def tx_write_transparent_def ok_tx_transparent_def V
        vin.roundtrip vout.roundtrip u32.roundtrip t2_def)
  have "valueBalance t2 = 0" "vShieldedSpend t2 = []" "vShieldedOutput t2 = []"
    by (simp_all add: t2_def t1_def CTransaction_new_def)
  then have r3: "tx_read_sapling t2 (tx_write_sapling tx @ x) = Inr (t3, x)" for x
    using ok(3) V by (auto simp: tx_read_sapling_def tx_write_sapling_def ok_tx_sapling_def t2_def t3_def
        int64.roundtrip spends.roundtrip sapling_outputs.roundtrip split: if_splits)
  have "vjoinsplit t3 = []" "joinSplitPubKey t3 = replicate 32 0" "joinSplitSig t3 = replicate 64 0"
    by (simp_all add: t3_def t2_def t1_def CTransaction_new_def)
  then have r4: "tx_read_joinsplits (GetHeader tx) t3 (tx_write_joinsplits tx @ x) = Inr (t4, x)" for x
    using ok(4) nv by (auto simp: tx_read_joinsplits_def tx_write_joinsplits_def ok_tx_joinsplits_def t4_def
        joinsplits.roundtrip blob.roundtrip split: if_splits)
  have hb: "hasBindingSig t4 = hasBindingSig tx"
    by (simp add: hasBindingSig_def t4_def t3_def t2_def V)
  have "bindingSig t4 = replicate 64 0" by (simp add: t4_def t3_def t2_def t1_def CTransaction_new_def)
  moreover have e: "t4\<lparr>bindingSig := bindingSig tx\<rparr> = tx"
    by (cases tx) (simp add: t4_def t3_def t2_def t1_def CTransaction_new_def)
  ultimately have r5: "tx_read_binding t4 (tx_write_binding tx @ x) = Inr (tx, x)" for x
    using assms hb by (auto simp: tx_read_binding_def tx_write_binding_def ok_CTransaction_def blob.roundtrip)
  show ?thesis
    by (simp add: unser_CTransaction_def ser_CTransaction_def r1 r2 r3 r4 r5)
qed

interpretation tx: codec ser_CTransaction unser_CTransaction ok_CTransaction
  by unfold_locales (auto simp: tx_roundtrip dest: tx_canonical)



section \<open>Identifiers and values\<close>

definition SerializeHash :: "bytes \<Rightarrow> bytes" where
  "SerializeHash obj = CHashWriter_GetHash (CHashWriter_write CHashWriter_new obj)"

definition CTransaction_GetHash :: "CTransaction \<Rightarrow> bytes" where
  "CTransaction_GetHash tx = SerializeHash (ser_CTransaction tx)"

definition COutPoint_GetHash :: "COutPoint \<Rightarrow> bytes" where
  "COutPoint_GetHash p = Hash2 (op_hash p) (WriteLE32 (op_n p))"

definition CTxOut_GetHash :: "CTxOut \<Rightarrow> bytes" where
  "CTxOut_GetHash t = SerializeHash (ser_CTxOut t)"

definition IsNull_tx :: "CTransaction \<Rightarrow> bool" where
  "IsNull_tx tx \<longleftrightarrow> vin tx = [] \<and> vout tx = []"

definition IsCoinBase :: "CTransaction \<Rightarrow> bool" where
  "IsCoinBase tx \<longleftrightarrow> length (vin tx) = 1 \<and> COutPoint_IsNull (prevout (vin tx ! 0))"

text \<open>
  The two conversions of a \<open>CMutableTransaction\<close>: the copying constructor takes over every field,
  the moving constructor does not name \<open>bindingSig\<close>, which keeps its initializer.
\<close>

definition CTransaction_copy :: "CTransaction \<Rightarrow> CTransaction" where
  "CTransaction_copy tx =
     \<lparr>fOverwintered = fOverwintered tx, nVersion = nVersion tx, nVersionGroupId = nVersionGroupId tx,
      vin = vin tx, vout = vout tx, nLockTime = nLockTime tx, nExpiryHeight = nExpiryHeight tx,
      valueBalance = valueBalance tx, vShieldedSpend = vShieldedSpend tx,
      vShieldedOutput = vShieldedOutput tx, vjoinsplit = vjoinsplit tx,
      joinSplitPubKey = joinSplitPubKey tx, joinSplitSig = joinSplitSig tx, bindingSig = bindingSig tx\<rparr>"

definition CTransaction_move :: "CTransaction \<Rightarrow> CTransaction" where
  "CTransaction_move tx =
     \<lparr>fOverwintered = fOverwintered tx, nVersion = nVersion tx, nVersionGroupId = nVersionGroupId tx,
      vin = vin tx, vout = vout tx, nLockTime = nLockTime tx, nExpiryHeight = nExpiryHeight tx,
      valueBalance = valueBalance tx, vShieldedSpend = vShieldedSpend tx,
      vShieldedOutput = vShieldedOutput tx, vjoinsplit = vjoinsplit tx,
      joinSplitPubKey = joinSplitPubKey tx, joinSplitSig = joinSplitSig tx,
      bindingSig = replicate 64 0\<rparr>"

text \<open>One step of the sums: the value is added and then both are range-checked.\<close>

fun sum_in_range :: "int \<Rightarrow> int list \<Rightarrow> ('e, int) exec" where
  "sum_in_range acc [] = Inr acc"
| "sum_in_range acc (v # vs) =
     (if \<not> MoneyRange v \<or> \<not> MoneyRange (acc + v) then Inl Throw else sum_in_range (acc + v) vs)"

definition GetValueOut :: "CTransaction \<Rightarrow> ('e, int) exec" where
  "GetValueOut tx =
     exec_bind (sum_in_range 0 (map nValue (vout tx))) (\<lambda>nValueOut.
     exec_bind (if valueBalance tx \<le> 0 then sum_in_range nValueOut [- valueBalance tx]
                else Inr nValueOut) (\<lambda>nValueOut.
     sum_in_range nValueOut (map vpub_old (vjoinsplit tx))))"

definition GetShieldedValueIn :: "CTransaction \<Rightarrow> ('e, int) exec" where
  "GetShieldedValueIn tx =
     exec_bind (if 0 \<le> valueBalance tx then sum_in_range 0 [valueBalance tx] else Inr 0) (\<lambda>nVal.
     sum_in_range nVal (map vpub_new (vjoinsplit tx)))"

primrec modified_size_loop :: "nat \<Rightarrow> CTxIn list \<Rightarrow> nat" where
  "modified_size_loop nTxSize [] = nTxSize"
| "modified_size_loop nTxSize (i # is) =
     (let offset = 41 + min 110 (length (scriptSig i))
      in modified_size_loop (if offset < nTxSize then nTxSize - offset else nTxSize) is)"

definition CalculateModifiedSize :: "CTransaction \<Rightarrow> nat \<Rightarrow> nat" where
  "CalculateModifiedSize tx nTxSize =
     modified_size_loop (if nTxSize = 0 then length (ser_CTransaction tx) else nTxSize) (vin tx)"

definition GetDustThreshold :: "CTxOut \<Rightarrow> int \<Rightarrow> int" where
  "GetDustThreshold t minRelayTxFee =
     (if IsUnspendable (scriptPubKey t) then 0
      else let nSize = length (ser_CTxOut t) + 148 in 3 * GetFee minRelayTxFee nSize)"

definition IsDust :: "CTxOut \<Rightarrow> int \<Rightarrow> bool" where
  "IsDust t minRelayTxFee \<longleftrightarrow> nValue t < GetDustThreshold t minRelayTxFee"

lemma sum_in_range_cases:
  "sum_in_range t vs = Inl Throw \<or> (\<exists>r. sum_in_range t vs = Inr r)"
  by (induction t vs rule: sum_in_range.induct) auto

lemma sum_list_nonneg_range: "\<forall>v \<in> set vs. MoneyRange v \<Longrightarrow> 0 \<le> sum_list vs"
  by (intro sum_list_nonneg) (auto simp: MoneyRange_def)

lemma sum_in_range_iff:
  "MoneyRange t \<Longrightarrow> sum_in_range t vs = Inr r \<longleftrightarrow>
     (\<forall>v \<in> set vs. MoneyRange v) \<and> r = t + sum_list vs \<and> MoneyRange r"
proof (induction vs arbitrary: t)
  case (Cons v vs)
  have "MoneyRange (t + v)" if "MoneyRange v" "\<forall>v \<in> set vs. MoneyRange v" "MoneyRange (t + (v + sum_list vs))"
    using that Cons.prems sum_list_nonneg_range [of vs] by (auto simp: MoneyRange_def)
  then show ?case using Cons by (auto simp: add.assoc)
qed auto

lemma MoneyRange_0 [simp]: "MoneyRange 0"
  by (simp add: MoneyRange_def MAX_MONEY_def)

text \<open>The value a transaction takes from the transparent pool.\<close>

definition value_out_parts :: "CTransaction \<Rightarrow> int list" where
  "value_out_parts tx = map nValue (vout tx) @ (if valueBalance tx \<le> 0 then [- valueBalance tx] else []) @
     map vpub_old (vjoinsplit tx)"

lemma sum_in_range_append:
  "exec_bind (sum_in_range t xs) (\<lambda>u. sum_in_range u ys) = sum_in_range t (xs @ ys)"
  by (induction t xs rule: sum_in_range.induct) auto

lemma GetValueOut_parts: "GetValueOut tx = sum_in_range 0 (value_out_parts tx)"
proof -
  have "GetValueOut tx = exec_bind (sum_in_range 0 (map nValue (vout tx))) (\<lambda>u.
     sum_in_range u ((if valueBalance tx \<le> 0 then [- valueBalance tx] else []) @ map vpub_old (vjoinsplit tx)))"
    unfolding GetValueOut_def sum_in_range_append [symmetric] by (intro arg_cong2 [where f = exec_bind] refl ext) simp
  then show ?thesis by (simp only: sum_in_range_append value_out_parts_def)
qed

section \<open>Properties\<close>

lemma ok_CTransaction_Serialize:
  assumes "ok_CTransaction tx"
  shows "CTransaction_Serialize tx = Inr (ser_CTransaction tx)"
proof -
  have "SproutProofMatches (useGroth (GetHeader tx)) (js_proof js)"
    if "2 \<le> nVersion tx" "js \<in> set (vjoinsplit tx)" for js
    using assms that by (auto simp: ok_CTransaction_def ok_tx_joinsplits_def ok_vector_def
        ok_JSDescription_def ok_SproutProof_def)
  then show ?thesis
    using assms by (auto simp: CTransaction_Serialize_def ok_CTransaction_def ok_tx_header_def)
qed

text \<open>C13: A transaction has exactly one encoding. The reader accepts a byte stream exactly if the stream
  starts with the bytes that the writer produces for some transaction whose fields are in range, and
  it returns that transaction and the rest of the stream. In particular the writer does not throw on
  a transaction that was read, and reading back what was written gives the same transaction.\<close>

theorem tx_encoding_unique:
  "(unser_CTransaction s :: ('e, CTransaction \<times> bytes) exec) = Inr (tx, r) \<longleftrightarrow>
     ok_CTransaction tx \<and> s = ser_CTransaction tx @ r \<and>
     (CTransaction_Serialize tx :: ('e, bytes) exec) = Inr (ser_CTransaction tx)"
  using ok_CTransaction_Serialize [of tx] tx.unser_iff [of s tx r] by auto

text \<open>C33: The sum of the transparent outputs, of a negative Sapling balance and of the values entering
  the JoinSplits: it is returned exactly if every part and the total are in the money range, and it
  is then the exact sum; in every other case the function throws.\<close>

theorem value_out_exact:
  "((GetValueOut tx :: ('e, int) exec) = Inr v \<longleftrightarrow>
      list_all MoneyRange (value_out_parts tx) \<and> v = sum_list (value_out_parts tx) \<and> MoneyRange v) \<and>
   ((GetValueOut tx :: ('e, int) exec) = Inl Throw \<or> (\<exists>v. (GetValueOut tx :: ('e, int) exec) = Inr v))"
  using sum_in_range_cases [of 0 "value_out_parts tx"]
  by (simp add: GetValueOut_parts sum_in_range_iff list_all_iff)

text \<open>C36: Constructing a transaction by moving a mutable transaction loses the binding signature: for
  every Sapling transaction with shielded inputs or outputs and a binding signature that is not all
  zero the copying constructor keeps the encoding, and with it the transaction identifier, while the
  moving constructor changes it.\<close>

theorem move_drops_binding_sig:
  assumes "hasBindingSig tx" and "length (bindingSig tx) = 64" and "bindingSig tx \<noteq> replicate 64 0"
  shows "ser_CTransaction (CTransaction_copy tx) = ser_CTransaction tx \<and>
    ser_CTransaction (CTransaction_move tx) \<noteq> ser_CTransaction tx"
proof -
  have "CTransaction_copy tx = tx" by (cases tx) (simp add: CTransaction_copy_def)
  moreover have m: "CTransaction_move tx = tx\<lparr>bindingSig := replicate 64 0\<rparr>"
    by (cases tx) (simp add: CTransaction_move_def)
  have "ser_CTransaction (CTransaction_move tx) \<noteq> ser_CTransaction tx"
    using assms tx_write_cong [of "tx\<lparr>bindingSig := replicate 64 0\<rparr>" tx]
    by (simp add: m ser_CTransaction_def tx_write_binding_def ser_blob_def)
  ultimately show ?thesis by simp
qed

definition sapling_spend_example :: CTransaction where
  "sapling_spend_example = CTransaction_new\<lparr>fOverwintered := True, nVersion := 4,
     nVersionGroupId := SAPLING_VERSION_GROUP_ID,
     vShieldedSpend := [\<lparr>sd_cv = replicate 32 1, sd_anchor = replicate 32 2, nullifier = replicate 32 3,
       rk = replicate 32 4, sd_zkproof = replicate 192 5, spendAuthSig = replicate 64 6\<rparr>],
     bindingSig := replicate 64 7\<rparr>"

theorem move_drops_binding_sig_witness:
  "hasBindingSig sapling_spend_example \<and>
   ser_CTransaction (CTransaction_copy sapling_spend_example) = ser_CTransaction sapling_spend_example \<and>
   ser_CTransaction (CTransaction_move sapling_spend_example) \<noteq> ser_CTransaction sapling_spend_example"
proof -
  have h: "hasBindingSig sapling_spend_example"
    by (simp add: hasBindingSig_def isSaplingV4_def sapling_spend_example_def)
  moreover have "length (bindingSig sapling_spend_example) = 64"
    "bindingSig sapling_spend_example \<noteq> replicate 64 0"
    by (simp_all add: sapling_spend_example_def)
  ultimately show ?thesis using move_drops_binding_sig by blast
qed

end
