(* ===== verification/Coins.thy ===== *)
theory Coins
  imports Transaction Script "HOL-Library.AList"
begin

text \<open>
  The unspent outputs of src/src/coins.h and src/src/coins.cpp: coins, the cache entries with their
  flags, and caches stacked on the database of src/src/txdb.cpp.
  A view is the database or a cache on another view; reading through a cache fills it and the caches
  below. The hash maps are association lists, in the order in which an iterator visits them. The two
  members that the code selects by a shielded type are one function of that type. \<open>CCoinsModifier\<close>
  is a scope: \<open>ModifyCoins\<close> takes what is done in it as a function, so no two modifiers are alive at
  once. The commitment trees are values of the type \<open>'t\<close>, with their roots as a parameter. Memory
  statistics and the history trees are left out.
\<close>

section \<open>Coins\<close>

record CCoins =
  fCoinBase :: bool
  co_vout :: "CTxOut list"
  co_nHeight :: int
  co_nVersion :: int

definition CCoins_Clear :: CCoins where
  "CCoins_Clear = \<lparr>fCoinBase = False, co_vout = [], co_nHeight = 0, co_nVersion = 0\<rparr>"

definition Cleanup :: "CCoins \<Rightarrow> CCoins" where
  "Cleanup x = x\<lparr>co_vout := rev (dropWhile CTxOut_IsNull (rev (co_vout x)))\<rparr>"

definition ClearUnspendable :: "CCoins \<Rightarrow> CCoins" where
  "ClearUnspendable x =
     Cleanup (x\<lparr>co_vout := map (\<lambda>out. if IsUnspendable (scriptPubKey out) then CTxOut_null else out) (co_vout x)\<rparr>)"

definition FromTx :: "CTransaction \<Rightarrow> int \<Rightarrow> CCoins" where
  "FromTx tx nHeightIn =
     ClearUnspendable \<lparr>fCoinBase = IsCoinBase tx, co_vout = vout tx, co_nHeight = nHeightIn, co_nVersion = nVersion tx\<rparr>"

definition IsPruned :: "CCoins \<Rightarrow> bool" where
  "IsPruned x \<longleftrightarrow> list_all CTxOut_IsNull (co_vout x)"

definition CCoins_eq :: "CCoins \<Rightarrow> CCoins \<Rightarrow> bool" where
  "CCoins_eq a b \<longleftrightarrow>
     IsPruned a \<and> IsPruned b \<or>
     fCoinBase a = fCoinBase b \<and> co_nHeight a = co_nHeight b \<and> co_nVersion a = co_nVersion b \<and> co_vout a = co_vout b"

definition IsAvailable :: "CCoins \<Rightarrow> u32 \<Rightarrow> bool" where
  "IsAvailable x nPos \<longleftrightarrow> unat nPos < length (co_vout x) \<and> \<not> CTxOut_IsNull (co_vout x ! unat nPos)"

definition Spend :: "CCoins \<Rightarrow> u32 \<Rightarrow> CCoins \<times> bool" where
  "Spend x nPos =
     (if length (co_vout x) \<le> unat nPos \<or> CTxOut_IsNull (co_vout x ! unat nPos) then (x, False)
      else (Cleanup (x\<lparr>co_vout := (co_vout x)[unat nPos := CTxOut_null]\<rparr>), True))"

section \<open>Views\<close>

datatype ShieldedType = SPROUT | SAPLING

record CCoinsCacheEntry =
  ce_coins :: CCoins
  ce_DIRTY :: bool
  ce_FRESH :: bool

record CNullifiersCacheEntry =
  ne_entered :: bool
  ne_DIRTY :: bool

record 't CAnchorsCacheEntry =
  ae_entered :: bool
  ae_tree :: 't
  ae_DIRTY :: bool

record 't CCoinsViewCache =
  hashBlock :: bytes
  cacheCoins :: "(bytes \<times> CCoinsCacheEntry) list"
  hashAnchor :: "ShieldedType \<Rightarrow> bytes"
  cacheAnchors :: "ShieldedType \<Rightarrow> (bytes \<times> 't CAnchorsCacheEntry) list"
  cacheNullifiers :: "ShieldedType \<Rightarrow> (bytes \<times> CNullifiersCacheEntry) list"

text \<open>The database: a batch is written at once.\<close>

record 't CCoinsViewDB =
  db_bestBlock :: "bytes option"
  db_coins :: "(bytes \<times> CCoins) list"
  db_bestAnchor :: "ShieldedType \<Rightarrow> bytes option"
  db_anchors :: "ShieldedType \<Rightarrow> (bytes \<times> 't) list"
  db_nullifiers :: "ShieldedType \<Rightarrow> (bytes \<times> bool) list"

datatype 't CCoinsView = DB "'t CCoinsViewDB" | Cache "'t CCoinsViewCache" "'t CCoinsView"

text \<open>The operations of the commitment trees.\<close>

record 't TreeOps =
  tree_root :: "ShieldedType \<Rightarrow> 't \<Rightarrow> bytes"
  tree_new :: "ShieldedType \<Rightarrow> 't"
  tree_empty_root :: "ShieldedType \<Rightarrow> bytes"
  tree_append :: "ShieldedType \<Rightarrow> 't \<Rightarrow> bytes \<Rightarrow> 't option"

definition CCoinsViewCache_new :: "'t CCoinsViewCache" where
  "CCoinsViewCache_new =
     \<lparr>hashBlock = uint256_null, cacheCoins = [], hashAnchor = (\<lambda>_. uint256_null), cacheAnchors = (\<lambda>_. []), cacheNullifiers = (\<lambda>_. [])\<rparr>"

section \<open>Reading\<close>

definition FetchCoins_insert :: "'t CCoinsViewCache \<Rightarrow> bytes \<Rightarrow> CCoins option \<Rightarrow> 't CCoinsViewCache" where
  "FetchCoins_insert c txid r =
     (case r of
        None \<Rightarrow> c
      | Some tmp \<Rightarrow>
          c\<lparr>cacheCoins := (txid, \<lparr>ce_coins = tmp, ce_DIRTY = False, ce_FRESH = IsPruned tmp\<rparr>) # cacheCoins c\<rparr>)"

fun GetCoins :: "'t CCoinsView \<Rightarrow> bytes \<Rightarrow> CCoins option \<times> 't CCoinsView" where
  "GetCoins (DB db) txid = (map_of (db_coins db) txid, DB db)"
| "GetCoins (Cache c base) txid =
     (case map_of (cacheCoins c) txid of
        Some e \<Rightarrow> (Some (ce_coins e), Cache c base)
      | None \<Rightarrow> (case GetCoins base txid of (r, base) \<Rightarrow> (r, Cache (FetchCoins_insert c txid r) base)))"

fun HaveCoins :: "'t CCoinsView \<Rightarrow> bytes \<Rightarrow> bool \<times> 't CCoinsView" where
  "HaveCoins (DB db) txid = (map_of (db_coins db) txid \<noteq> None, DB db)"
| "HaveCoins (Cache c base) txid =
     (case GetCoins (Cache c base) txid of (r, v) \<Rightarrow> (r \<noteq> None \<and> co_vout (the r) \<noteq> [], v))"

fun GetNullifier :: "'t CCoinsView \<Rightarrow> ShieldedType \<Rightarrow> bytes \<Rightarrow> bool \<times> 't CCoinsView" where
  "GetNullifier (DB db) type nf = (map_of (db_nullifiers db type) nf \<noteq> None, DB db)"
| "GetNullifier (Cache c base) type nf =
     (case map_of (cacheNullifiers c type) nf of
        Some e \<Rightarrow> (ne_entered e, Cache c base)
      | None \<Rightarrow>
          (case GetNullifier base type nf of
             (tmp, base) \<Rightarrow>
               (tmp, Cache (c\<lparr>cacheNullifiers := (cacheNullifiers c)
                              (type := (nf, \<lparr>ne_entered = tmp, ne_DIRTY = False\<rparr>) # cacheNullifiers c type)\<rparr>) base)))"

fun GetAnchorAt :: "'t TreeOps \<Rightarrow> 't CCoinsView \<Rightarrow> ShieldedType \<Rightarrow> bytes \<Rightarrow> 't option \<times> 't CCoinsView" where
  "GetAnchorAt ops (DB db) type rt =
     (if rt = tree_empty_root ops type then Some (tree_new ops type) else map_of (db_anchors db type) rt, DB db)"
| "GetAnchorAt ops (Cache c base) type rt =
     (case map_of (cacheAnchors c type) rt of
        Some e \<Rightarrow> (if ae_entered e then Some (ae_tree e) else None, Cache c base)
      | None \<Rightarrow>
          (case GetAnchorAt ops base type rt of
             (None, base) \<Rightarrow> (None, Cache c base)
           | (Some tree, base) \<Rightarrow>
               (Some tree, Cache (c\<lparr>cacheAnchors := (cacheAnchors c)
                   (type := (rt, \<lparr>ae_entered = True, ae_tree = tree, ae_DIRTY = False\<rparr>) # cacheAnchors c type)\<rparr>) base)))"

fun GetBestBlock :: "'t CCoinsView \<Rightarrow> bytes \<times> 't CCoinsView" where
  "GetBestBlock (DB db) = (case db_bestBlock db of None \<Rightarrow> uint256_null | Some h \<Rightarrow> h, DB db)"
| "GetBestBlock (Cache c base) =
     (if uint256_IsNull (hashBlock c)
      then (case GetBestBlock base of (h, base) \<Rightarrow> (h, Cache (c\<lparr>hashBlock := h\<rparr>) base))
      else (hashBlock c, Cache c base))"

fun GetBestAnchor :: "'t TreeOps \<Rightarrow> 't CCoinsView \<Rightarrow> ShieldedType \<Rightarrow> bytes \<times> 't CCoinsView" where
  "GetBestAnchor ops (DB db) type =
     (case db_bestAnchor db type of None \<Rightarrow> tree_empty_root ops type | Some h \<Rightarrow> h, DB db)"
| "GetBestAnchor ops (Cache c base) type =
     (if uint256_IsNull (hashAnchor c type)
      then (case GetBestAnchor ops base type of
              (h, base) \<Rightarrow> (h, Cache (c\<lparr>hashAnchor := (hashAnchor c)(type := h)\<rparr>) base))
      else (hashAnchor c type, Cache c base))"

section \<open>Modifying\<close>

text \<open>The end of the scope of a \<open>CCoinsModifier\<close>.\<close>

definition modifier_done :: "'t CCoinsViewCache \<Rightarrow> bytes \<Rightarrow> CCoinsCacheEntry \<Rightarrow> 't CCoinsViewCache" where
  "modifier_done c txid e =
     (let e = e\<lparr>ce_coins := Cleanup (ce_coins e)\<rparr> in
      c\<lparr>cacheCoins := (if ce_FRESH e \<and> IsPruned (ce_coins e) then AList.delete txid (cacheCoins c)
                       else AList.update txid e (cacheCoins c))\<rparr>)"

text \<open>Only caches can be modified.\<close>

fun ModifyCoins ::
    "'t CCoinsView \<Rightarrow> bytes \<Rightarrow> (CCoins \<Rightarrow> ('e, 'r \<times> CCoins) exec) \<Rightarrow> ('e, 'r \<times> 't CCoinsView) exec" where
  "ModifyCoins (DB db) txid f = Inl Abort"
| "ModifyCoins (Cache c base) txid f =
     (let (e, base) =
        (case map_of (cacheCoins c) txid of
           Some e \<Rightarrow> (e, base)
         | None \<Rightarrow>
             (case GetCoins base txid of
                (None, base) \<Rightarrow> (\<lparr>ce_coins = CCoins_Clear, ce_DIRTY = False, ce_FRESH = True\<rparr>, base)
              | (Some x, base) \<Rightarrow> (\<lparr>ce_coins = x, ce_DIRTY = False, ce_FRESH = IsPruned x\<rparr>, base)))
      in exec_bind (f (ce_coins e)) (\<lambda>(r, x).
         Inr (r, Cache (modifier_done c txid (e\<lparr>ce_coins := x, ce_DIRTY := True\<rparr>)) base)))"

fun ModifyNewCoins ::
    "'t CCoinsView \<Rightarrow> bytes \<Rightarrow> (CCoins \<Rightarrow> ('e, 'r \<times> CCoins) exec) \<Rightarrow> ('e, 'r \<times> 't CCoinsView) exec" where
  "ModifyNewCoins (DB db) txid f = Inl Abort"
| "ModifyNewCoins (Cache c base) txid f =
     exec_bind (f CCoins_Clear) (\<lambda>(r, x).
     Inr (r, Cache (modifier_done c txid \<lparr>ce_coins = x, ce_DIRTY = True, ce_FRESH = True\<rparr>) base))"

definition set_nullifiers ::
    "bool \<Rightarrow> bytes list \<Rightarrow> (bytes \<times> CNullifiersCacheEntry) list \<Rightarrow> (bytes \<times> CNullifiersCacheEntry) list" where
  "set_nullifiers spent nfs m = foldl (\<lambda>m nf. AList.update nf \<lparr>ne_entered = spent, ne_DIRTY = True\<rparr> m) m nfs"

definition tx_nullifiers :: "CTransaction \<Rightarrow> ShieldedType \<Rightarrow> bytes list" where
  "tx_nullifiers tx type =
     (case type of SPROUT \<Rightarrow> concat (map js_nullifiers (vjoinsplit tx)) | SAPLING \<Rightarrow> map nullifier (vShieldedSpend tx))"

fun SetNullifiers :: "'t CCoinsView \<Rightarrow> CTransaction \<Rightarrow> bool \<Rightarrow> ('e, 't CCoinsView) exec" where
  "SetNullifiers (DB db) tx spent = Inl Abort"
| "SetNullifiers (Cache c base) tx spent =
     Inr (Cache (c\<lparr>cacheNullifiers := (\<lambda>type. set_nullifiers spent (tx_nullifiers tx type) (cacheNullifiers c type))\<rparr>) base)"

fun SetBestBlock :: "'t CCoinsView \<Rightarrow> bytes \<Rightarrow> ('e, 't CCoinsView) exec" where
  "SetBestBlock (DB db) h = Inl Abort"
| "SetBestBlock (Cache c base) h = Inr (Cache (c\<lparr>hashBlock := h\<rparr>) base)"

definition PushAnchor :: "'t TreeOps \<Rightarrow> 't CCoinsView \<Rightarrow> ShieldedType \<Rightarrow> 't \<Rightarrow> ('e, 't CCoinsView) exec" where
  "PushAnchor ops v type tree =
     (let newrt = tree_root ops type tree; (currentRoot, v) = GetBestAnchor ops v type
      in if currentRoot = newrt then Inr v
         else case v of
                DB db \<Rightarrow> Inl Abort
              | Cache c base \<Rightarrow>
                  Inr (Cache (c\<lparr>cacheAnchors := (cacheAnchors c)(type := AList.update newrt
                                  \<lparr>ae_entered = True, ae_tree = tree, ae_DIRTY = True\<rparr> (cacheAnchors c type)),
                                hashAnchor := (hashAnchor c)(type := newrt)\<rparr>) base))"

definition PopAnchor :: "'t TreeOps \<Rightarrow> 't CCoinsView \<Rightarrow> ShieldedType \<Rightarrow> bytes \<Rightarrow> ('e, 't CCoinsView) exec" where
  "PopAnchor ops v type newrt =
     (let (currentRoot, v) = GetBestAnchor ops v type
      in if currentRoot = newrt then Inr v
         else let (r, v) = GetAnchorAt ops v type currentRoot
              in exec_bind (exec_assert (r \<noteq> None)) (\<lambda>_.
                 case v of
                   DB db \<Rightarrow> Inl Abort
                 | Cache c base \<Rightarrow>
                     Inr (Cache (c\<lparr>cacheAnchors := (cacheAnchors c)(type := AList.update currentRoot
                                     \<lparr>ae_entered = False, ae_tree = the r, ae_DIRTY = True\<rparr> (cacheAnchors c type)),
                                   hashAnchor := (hashAnchor c)(type := newrt)\<rparr>) base)))"

section \<open>Writing back\<close>

fun batch_coins ::
    "(bytes \<times> CCoinsCacheEntry) list \<Rightarrow> (bytes \<times> CCoinsCacheEntry) list \<Rightarrow> ('e, (bytes \<times> CCoinsCacheEntry) list) exec" where
  "batch_coins [] us = Inr us"
| "batch_coins ((txid, e) # mapCoins) us =
     exec_bind
       (if \<not> ce_DIRTY e then Inr us
        else case map_of us txid of
               None \<Rightarrow>
                 if IsPruned (ce_coins e) then Inr us
                 else exec_bind (exec_assert (ce_FRESH e)) (\<lambda>_.
                      Inr ((txid, \<lparr>ce_coins = ce_coins e, ce_DIRTY = True, ce_FRESH = True\<rparr>) # us))
             | Some p \<Rightarrow>
                 Inr (if ce_FRESH p \<and> IsPruned (ce_coins e) then AList.delete txid us
                      else AList.update txid (p\<lparr>ce_coins := ce_coins e, ce_DIRTY := True\<rparr>) us))
       (\<lambda>us. batch_coins mapCoins us)"

fun batch_nullifiers ::
    "(bytes \<times> CNullifiersCacheEntry) list \<Rightarrow> (bytes \<times> CNullifiersCacheEntry) list \<Rightarrow> (bytes \<times> CNullifiersCacheEntry) list" where
  "batch_nullifiers [] us = us"
| "batch_nullifiers ((nf, e) # m) us =
     batch_nullifiers m
       (if \<not> ne_DIRTY e then us
        else case map_of us nf of
               None \<Rightarrow> (nf, \<lparr>ne_entered = ne_entered e, ne_DIRTY = True\<rparr>) # us
             | Some p \<Rightarrow> if ne_entered p = ne_entered e then us
                         else AList.update nf \<lparr>ne_entered = ne_entered e, ne_DIRTY = True\<rparr> us)"

fun batch_anchors ::
    "(bytes \<times> 't CAnchorsCacheEntry) list \<Rightarrow> (bytes \<times> 't CAnchorsCacheEntry) list \<Rightarrow> (bytes \<times> 't CAnchorsCacheEntry) list" where
  "batch_anchors [] us = us"
| "batch_anchors ((rt, e) # m) us =
     batch_anchors m
       (if \<not> ae_DIRTY e then us
        else case map_of us rt of
               None \<Rightarrow> (rt, \<lparr>ae_entered = ae_entered e, ae_tree = ae_tree e, ae_DIRTY = True\<rparr>) # us
             | Some p \<Rightarrow> if ae_entered p = ae_entered e then us
                         else AList.update rt (p\<lparr>ae_entered := ae_entered e, ae_DIRTY := True\<rparr>) us)"

definition db_batch_coins :: "(bytes \<times> CCoinsCacheEntry) list \<Rightarrow> (bytes \<times> CCoins) list \<Rightarrow> (bytes \<times> CCoins) list" where
  "db_batch_coins mapCoins db =
     foldl (\<lambda>db (txid, e). if \<not> ce_DIRTY e then db
                            else if IsPruned (ce_coins e) then AList.delete txid db
                            else AList.update txid (ce_coins e) db) db mapCoins"

definition db_batch_nullifiers :: "(bytes \<times> CNullifiersCacheEntry) list \<Rightarrow> (bytes \<times> bool) list \<Rightarrow> (bytes \<times> bool) list" where
  "db_batch_nullifiers m db =
     foldl (\<lambda>db (nf, e). if \<not> ne_DIRTY e then db
                          else if \<not> ne_entered e then AList.delete nf db else AList.update nf True db) db m"

definition db_batch_anchors :: "bytes \<Rightarrow> (bytes \<times> 't CAnchorsCacheEntry) list \<Rightarrow> (bytes \<times> 't) list \<Rightarrow> (bytes \<times> 't) list" where
  "db_batch_anchors empty_root m db =
     foldl (\<lambda>db (rt, e). if \<not> ae_DIRTY e then db
                          else if \<not> ae_entered e then AList.delete rt db
                          else if rt \<noteq> empty_root then AList.update rt (ae_tree e) db else db) db m"

fun BatchWrite :: "'t TreeOps \<Rightarrow> 't CCoinsView \<Rightarrow> 't CCoinsViewCache \<Rightarrow> ('e, 't CCoinsView) exec" where
  "BatchWrite ops (DB db) ch =
     Inr (DB (db\<lparr>db_coins := db_batch_coins (cacheCoins ch) (db_coins db),
                 db_anchors := (\<lambda>type. db_batch_anchors (tree_empty_root ops type) (cacheAnchors ch type) (db_anchors db type)),
                 db_nullifiers := (\<lambda>type. db_batch_nullifiers (cacheNullifiers ch type) (db_nullifiers db type)),
                 db_bestBlock := (if uint256_IsNull (hashBlock ch) then db_bestBlock db else Some (hashBlock ch)),
                 db_bestAnchor := (\<lambda>type. if uint256_IsNull (hashAnchor ch type) then db_bestAnchor db type
                                           else Some (hashAnchor ch type))\<rparr>))"
| "BatchWrite ops (Cache c base) ch =
     exec_bind (batch_coins (cacheCoins ch) (cacheCoins c)) (\<lambda>us.
     Inr (Cache (c\<lparr>cacheCoins := us,
                   cacheAnchors := (\<lambda>type. batch_anchors (cacheAnchors ch type) (cacheAnchors c type)),
                   cacheNullifiers := (\<lambda>type. batch_nullifiers (cacheNullifiers ch type) (cacheNullifiers c type)),
                   hashAnchor := hashAnchor ch, hashBlock := hashBlock ch\<rparr>) base))"

fun Flush :: "'t TreeOps \<Rightarrow> 't CCoinsView \<Rightarrow> ('e, 't CCoinsView) exec" where
  "Flush ops (DB db) = Inl Abort"
| "Flush ops (Cache c base) =
     exec_bind (BatchWrite ops base c) (\<lambda>base.
     Inr (Cache (c\<lparr>cacheCoins := [], cacheAnchors := (\<lambda>_. []), cacheNullifiers := (\<lambda>_. [])\<rparr>) base))"

end
