(* ===== verification/Coins_Facts.thy ===== *)
theory Coins_Facts
  imports Coins
begin

text \<open>
  A stack of caches behaves like one map from transaction identifiers to coins and two sets of
  nullifiers. \<open>view_coins\<close>, \<open>live\<close> and \<open>view_nf\<close> are these maps; \<open>view_ok\<close> is the invariant of the
  flags: a fresh entry has nothing live below it, a clean entry agrees with the view below, and an entry that is not
  fresh is cached below. Reading changes nothing that can be observed, modifying an entry updates
  the map at one place, and flushing a cache keeps the map and never fails its assertion.
\<close>

declare map_of_eq_Some_iff [simp del] Some_eq_map_of_iff [simp del]

section \<open>Coins\<close>

lemma IsPruned_iff: "IsPruned x \<longleftrightarrow> (\<forall>t \<in> set (co_vout x). CTxOut_IsNull t)"
  by (simp add: IsPruned_def list_all_iff)

lemma Cleanup_sel [simp]:
  "fCoinBase (Cleanup x) = fCoinBase x" "co_nHeight (Cleanup x) = co_nHeight x" "co_nVersion (Cleanup x) = co_nVersion x"
  "co_vout (Cleanup x) = rev (dropWhile CTxOut_IsNull (rev (co_vout x)))"
  by (simp_all add: Cleanup_def)

lemma Cleanup_idem [simp]: "Cleanup (Cleanup x) = Cleanup x"
  by (simp add: Cleanup_def dropWhile_idem)

lemma Cleanup_empty: "co_vout (Cleanup x) = [] \<longleftrightarrow> IsPruned x"
  by (simp add: IsPruned_iff)

lemma IsPruned_Cleanup [simp]: "IsPruned (Cleanup x) = IsPruned x"
proof -
  have "IsPruned x \<longleftrightarrow> co_vout (Cleanup x) = []" by (simp only: Cleanup_empty)
  also have "\<dots> \<longleftrightarrow> co_vout (Cleanup (Cleanup x)) = []" by (simp only: Cleanup_idem)
  also have "\<dots> \<longleftrightarrow> IsPruned (Cleanup x)" by (simp only: Cleanup_empty)
  finally show ?thesis by simp
qed

text \<open>A well-formed coin has no spent output at the end, its spent outputs are null outputs, and it has
  fewer than \<open>2^32\<close> outputs and a height above 0 unless it is spent.\<close>

definition coin_ok :: "CCoins \<Rightarrow> bool" where
  "coin_ok x \<longleftrightarrow>
     Cleanup x = x \<and> (\<forall>t \<in> set (co_vout x). CTxOut_IsNull t \<longrightarrow> t = CTxOut_null) \<and>
     length (co_vout x) < 2 ^ 32 \<and> (IsPruned x \<or> 0 < co_nHeight x \<and> co_nHeight x < 2 ^ 31)"

lemma coin_ok_pruned: "coin_ok x \<Longrightarrow> IsPruned x \<longleftrightarrow> co_vout x = []"
  by (metis Cleanup_empty coin_ok_def)

lemma coin_ok_Clear [simp]: "coin_ok CCoins_Clear" "IsPruned CCoins_Clear"
  by (simp_all add: coin_ok_def CCoins_Clear_def Cleanup_def IsPruned_def)

section \<open>Views as maps\<close>

fun view_coins :: "'t CCoinsView \<Rightarrow> bytes \<Rightarrow> CCoins option" where
  "view_coins (DB db) txid = map_of (db_coins db) txid"
| "view_coins (Cache c base) txid =
     (case map_of (cacheCoins c) txid of Some e \<Rightarrow> Some (ce_coins e) | None \<Rightarrow> view_coins base txid)"

definition unpruned :: "CCoins \<Rightarrow> CCoins option" where
  "unpruned x = (if IsPruned x then None else Some x)"

definition live :: "'t CCoinsView \<Rightarrow> bytes \<Rightarrow> CCoins option" where
  "live v txid = Option.bind (view_coins v txid) unpruned"

fun view_nf :: "'t CCoinsView \<Rightarrow> ShieldedType \<Rightarrow> bytes \<Rightarrow> bool" where
  "view_nf (DB db) type nf = (map_of (db_nullifiers db type) nf \<noteq> None)"
| "view_nf (Cache c base) type nf =
     (case map_of (cacheNullifiers c type) nf of Some e \<Rightarrow> ne_entered e | None \<Rightarrow> view_nf base type nf)"

fun view_best :: "'t CCoinsView \<Rightarrow> bytes" where
  "view_best (DB db) = (case db_bestBlock db of None \<Rightarrow> uint256_null | Some h \<Rightarrow> h)"
| "view_best (Cache c base) = (if uint256_IsNull (hashBlock c) then view_best base else hashBlock c)"

fun cached :: "'t CCoinsView \<Rightarrow> bytes \<Rightarrow> bool" where
  "cached (DB db) txid = True"
| "cached (Cache c base) txid = (map_of (cacheCoins c) txid \<noteq> None)"

definition cache_entry_ok :: "'t CCoinsView \<Rightarrow> bytes \<Rightarrow> CCoinsCacheEntry \<Rightarrow> bool" where
  "cache_entry_ok base txid e \<longleftrightarrow>
     coin_ok (ce_coins e) \<and> (ce_FRESH e \<longrightarrow> live base txid = None) \<and>
     (\<not> ce_DIRTY e \<longrightarrow> view_coins base txid = Some (ce_coins e)) \<and> (\<not> ce_FRESH e \<longrightarrow> cached base txid)"

definition nullifiers_ok :: "(bytes \<Rightarrow> bool) \<Rightarrow> (bytes \<times> CNullifiersCacheEntry) list \<Rightarrow> bool" where
  "nullifiers_ok below m \<longleftrightarrow>
     distinct (map fst m) \<and> (\<forall>nf e. map_of m nf = Some e \<longrightarrow> \<not> ne_DIRTY e \<longrightarrow> ne_entered e = below nf)"

fun view_ok :: "'t CCoinsView \<Rightarrow> bool" where
  "view_ok (DB db) \<longleftrightarrow>
     distinct (map fst (db_coins db)) \<and> (\<forall>txid x. map_of (db_coins db) txid = Some x \<longrightarrow> coin_ok x \<and> \<not> IsPruned x)"
| "view_ok (Cache c base) \<longleftrightarrow>
     view_ok base \<and> distinct (map fst (cacheCoins c)) \<and>
     (\<forall>txid e. map_of (cacheCoins c) txid = Some e \<longrightarrow> cache_entry_ok base txid e) \<and>
     (\<forall>type. nullifiers_ok (view_nf base type) (cacheNullifiers c type))"

lemma view_ok_coin: "view_ok v \<Longrightarrow> view_coins v txid = Some x \<Longrightarrow> coin_ok x"
  by (induction v) (auto simp: cache_entry_ok_def split: option.splits)

text \<open>Two views that agree, where the second caches at least what the first does.\<close>

definition same_view :: "'t CCoinsView \<Rightarrow> 't CCoinsView \<Rightarrow> bool" where
  "same_view v v' \<longleftrightarrow>
     view_coins v' = view_coins v \<and> view_nf v' = view_nf v \<and> view_best v' = view_best v \<and>
     (\<forall>txid. cached v txid \<longrightarrow> cached v' txid)"

lemma same_view_refl [simp]: "same_view v v"
  by (simp add: same_view_def)

lemma same_view_trans: "same_view u v \<Longrightarrow> same_view v w \<Longrightarrow> same_view u w"
  by (simp add: same_view_def)

lemma same_view_live: "same_view v v' \<Longrightarrow> live v' = live v"
  by (simp add: same_view_def live_def fun_eq_iff)

lemma cache_entry_ok_same: "cache_entry_ok base txid e \<Longrightarrow> same_view base base' \<Longrightarrow> cache_entry_ok base' txid e"
  by (auto simp: cache_entry_ok_def same_view_live) (auto simp: same_view_def)

lemma view_ok_below:
  assumes "view_ok (Cache c base)" "view_ok base'" "same_view base base'"
  shows "view_ok (Cache c base')" "same_view (Cache c base) (Cache c base')"
proof -
  have "view_nf base' = view_nf base" using assms(3) by (simp add: same_view_def)
  then show "view_ok (Cache c base')" using assms cache_entry_ok_same [OF _ assms(3)] by auto
  show "same_view (Cache c base) (Cache c base')"
    using assms(3) by (auto simp: same_view_def fun_eq_iff split: option.splits)
qed

section \<open>Reading\<close>

lemma GetCoins_ok:
  assumes "view_ok v" "GetCoins v txid = (r, v')"
  shows "r = view_coins v txid \<and> view_ok v' \<and> same_view v v' \<and> (r \<noteq> None \<longrightarrow> cached v' txid)"
  using assms
proof (induction v arbitrary: r v')
  case (Cache c base)
  show ?case
  proof (cases "map_of (cacheCoins c) txid")
    case (Some e)
    then show ?thesis using Cache.prems by auto
  next
    case None
    obtain r0 base' where b: "GetCoins base txid = (r0, base')" by (metis surj_pair)
    have IH: "r0 = view_coins base txid" "view_ok base'" "same_view base base'" "r0 \<noteq> None \<longrightarrow> cached base' txid"
      using Cache.IH [OF _ b] Cache.prems(1) by auto
    have r: "r = r0" "v' = Cache (FetchCoins_insert c txid r0) base'" using Cache.prems(2) None b by auto
    note low = view_ok_below [OF Cache.prems(1) IH(2,3)]
    show ?thesis
    proof (cases r0)
      case None
      then show ?thesis using low r IH(1) \<open>map_of (cacheCoins c) txid = None\<close> by (auto simp: FetchCoins_insert_def)
    next
      case (Some x)
      let ?e = "\<lparr>ce_coins = x, ce_DIRTY = False, ce_FRESH = IsPruned x\<rparr>"
      have x: "view_coins base' txid = Some x" using IH(1,3) Some by (simp add: same_view_def)
      then have e: "cache_entry_ok base' txid ?e"
        using view_ok_coin [OF IH(2) x] IH(4) Some by (auto simp: cache_entry_ok_def live_def unpruned_def)
      have v': "v' = Cache (c\<lparr>cacheCoins := (txid, ?e) # cacheCoins c\<rparr>) base'" using r Some by (simp add: FetchCoins_insert_def)
      have "view_ok v'" using low(1) e None unfolding v' by (auto simp: map_of_eq_None_iff)
      moreover have "same_view (Cache c base') v'"
        using x None unfolding v' same_view_def by (auto simp: fun_eq_iff split: option.splits)
      moreover have "cached v' txid" unfolding v' by simp
      ultimately show ?thesis using same_view_trans [OF low(2)] r(1) IH(1) Some None by simp
    qed
  qed
qed auto

lemma HaveCoins_ok:
  assumes "view_ok v" "HaveCoins v txid = (r, v')"
  shows "r = (live v txid \<noteq> None) \<and> view_ok v' \<and> same_view v v'"
proof (cases v)
  case (DB db)
  show ?thesis
  proof (cases "map_of (db_coins db) txid")
    case None
    then show ?thesis using DB assms by (auto simp: live_def)
  next
    case (Some x)
    then show ?thesis using DB assms by (auto simp: live_def unpruned_def)
  qed
next
  case (Cache c base)
  obtain r0 v0 where g: "GetCoins v txid = (r0, v0)" by (metis surj_pair)
  have ok: "r0 = view_coins v txid" "view_ok v0" "same_view v v0" using GetCoins_ok [OF assms(1) g] by auto
  have "r = (r0 \<noteq> None \<and> co_vout (the r0) \<noteq> [])" "v' = v0" using assms(2) g Cache by (simp_all del: GetCoins.simps)
  moreover have "live v txid \<noteq> None \<longleftrightarrow> r0 \<noteq> None \<and> co_vout (the r0) \<noteq> []"
    using ok(1) view_ok_coin [OF assms(1), of txid] coin_ok_pruned
    by (cases "view_coins v txid") (auto simp: live_def unpruned_def)
  ultimately show ?thesis using ok by blast
qed

lemma GetNullifier_ok:
  assumes "view_ok v" "GetNullifier v type nf = (r, v')"
  shows "r = view_nf v type nf \<and> view_ok v' \<and> same_view v v'"
  using assms
proof (induction v arbitrary: r v')
  case (Cache c base)
  show ?case
  proof (cases "map_of (cacheNullifiers c type) nf")
    case (Some e)
    then show ?thesis using Cache.prems by auto
  next
    case None
    obtain r0 base' where b: "GetNullifier base type nf = (r0, base')" by (metis surj_pair)
    have IH: "r0 = view_nf base type nf" "view_ok base'" "same_view base base'"
      using Cache.IH [OF _ b] Cache.prems(1) by auto
    let ?e = "\<lparr>ne_entered = r0, ne_DIRTY = False\<rparr>"
    let ?c = "c\<lparr>cacheNullifiers := (cacheNullifiers c)(type := (nf, ?e) # cacheNullifiers c type)\<rparr>"
    have r: "r = r0" "v' = Cache ?c base'" using Cache.prems(2) None b by auto
    note low = view_ok_below [OF Cache.prems(1) IH(2,3)]
    have "view_nf base' = view_nf base" using IH(3) by (simp add: same_view_def)
    then have "nullifiers_ok (view_nf base' t) (cacheNullifiers ?c t)" for t
      using low(1) None IH(1) by (auto simp: nullifiers_ok_def map_of_eq_None_iff)
    then have "view_ok v'" using low(1) unfolding r(2) by simp
    moreover have "same_view (Cache c base') v'"
      using None IH(1) \<open>view_nf base' = view_nf base\<close> unfolding r(2) same_view_def
      by (auto simp: fun_eq_iff split: option.splits)
    ultimately show ?thesis using same_view_trans [OF low(2)] r(1) None IH(1) by simp
  qed
qed auto

lemma GetBestBlock_ok:
  assumes "view_ok v" "GetBestBlock v = (r, v')"
  shows "r = view_best v \<and> view_ok v' \<and> same_view v v'"
  using assms
proof (induction v arbitrary: r v')
  case (Cache c base)
  show ?case
  proof (cases "uint256_IsNull (hashBlock c)")
    case False
    then show ?thesis using Cache.prems by auto
  next
    case True
    obtain r0 base' where b: "GetBestBlock base = (r0, base')" by (metis surj_pair)
    have IH: "r0 = view_best base" "view_ok base'" "same_view base base'"
      using Cache.IH [OF _ b] Cache.prems(1) by auto
    have r: "r = r0" "v' = Cache (c\<lparr>hashBlock := r0\<rparr>) base'" using Cache.prems(2) True b by auto
    note low = view_ok_below [OF Cache.prems(1) IH(2,3)]
    have "view_ok v'" using low(1) unfolding r(2) by simp
    moreover have "same_view (Cache c base') v'"
      using True IH(1,3) unfolding r(2) same_view_def by (auto simp: fun_eq_iff split: option.splits)
    ultimately show ?thesis using same_view_trans [OF low(2)] r(1) True IH(1) by simp
  qed
qed auto

text \<open>Anchors are cached apart from coins and nullifiers.\<close>

lemma anchors_irrelevant [simp]:
  "view_ok (Cache (c\<lparr>cacheAnchors := x\<rparr>) base) = view_ok (Cache c base)"
  "view_ok (Cache (c\<lparr>hashAnchor := y\<rparr>) base) = view_ok (Cache c base)"
  "same_view v (Cache (c\<lparr>cacheAnchors := x\<rparr>) base) = same_view v (Cache c base)"
  "same_view v (Cache (c\<lparr>hashAnchor := y\<rparr>) base) = same_view v (Cache c base)"
  by (auto simp: same_view_def fun_eq_iff)

lemma GetAnchorAt_ok:
  assumes "view_ok v" "GetAnchorAt ops v type rt = (r, v')"
  shows "view_ok v' \<and> same_view v v'"
  using assms
proof (induction v arbitrary: r v')
  case (Cache c base)
  obtain r0 base' where b: "GetAnchorAt ops base type rt = (r0, base')" by (metis surj_pair)
  then have IH: "view_ok base'" "same_view base base'" using Cache.IH [OF _ b] Cache.prems(1) by auto
  from view_ok_below [OF Cache.prems(1) this] show ?case
    using Cache.prems b by (auto split: option.splits simp del: view_ok.simps)
qed auto

lemma GetBestAnchor_ok:
  assumes "view_ok v" "GetBestAnchor ops v type = (r, v')"
  shows "view_ok v' \<and> same_view v v'"
  using assms
proof (induction v arbitrary: r v')
  case (Cache c base)
  obtain r0 base' where b: "GetBestAnchor ops base type = (r0, base')" by (metis surj_pair)
  then have IH: "view_ok base'" "same_view base base'" using Cache.IH [OF _ b] Cache.prems(1) by auto
  from view_ok_below [OF Cache.prems(1) this] show ?case
    using Cache.prems b by (auto split: if_splits simp del: view_ok.simps)
qed auto

section \<open>Modifying\<close>

text \<open>What \<open>ModifyCoins\<close> hands out: the live coins, or coins without outputs.\<close>

definition handed :: "'t CCoinsView \<Rightarrow> bytes \<Rightarrow> CCoins \<Rightarrow> bool" where
  "handed v txid x \<longleftrightarrow> (case live v txid of None \<Rightarrow> co_vout x = [] | Some y \<Rightarrow> x = y)"

definition updated :: "'t CCoinsView \<Rightarrow> bytes \<Rightarrow> CCoins \<Rightarrow> 't CCoinsView \<Rightarrow> bool" where
  "updated v txid x v' \<longleftrightarrow>
     view_ok v' \<and> live v' = (live v)(txid := unpruned (Cleanup x)) \<and> view_nf v' = view_nf v \<and> view_best v' = view_best v"

lemma unpruned_Cleanup: "unpruned (Cleanup x) = None \<longleftrightarrow> IsPruned x"
  by (simp add: unpruned_def)

lemma map_of_AList [simp]:
  "map_of (AList.update k v m) = (map_of m)(k \<mapsto> v)" "map_of (AList.delete k m) = (map_of m)(k := None)"
  by (simp_all add: update_conv' delete_conv')

lemma modifier_done_ok:
  assumes ok: "view_ok (Cache c base)" and x: "coin_ok (Cleanup x)"
    and e: "ce_FRESH e \<longrightarrow> live base txid = None" "\<not> ce_FRESH e \<longrightarrow> cached base txid"
  shows "updated (Cache c base) txid x (Cache (modifier_done c txid (e\<lparr>ce_coins := x, ce_DIRTY := True\<rparr>)) base)"
proof -
  let ?e = "e\<lparr>ce_DIRTY := True, ce_coins := Cleanup x\<rparr>"
  let ?del = "ce_FRESH e \<and> IsPruned x"
  define m where "m = (if ?del then AList.delete txid (cacheCoins c) else AList.update txid ?e (cacheCoins c))"
  have c: "modifier_done c txid (e\<lparr>ce_coins := x, ce_DIRTY := True\<rparr>) = c\<lparr>cacheCoins := m\<rparr>"
    by (simp add: modifier_done_def Let_def m_def)
  have m: "map_of m = (map_of (cacheCoins c))(txid := if ?del then None else Some ?e)" by (simp add: m_def)
  have d: "distinct (map fst m)" using ok by (simp add: m_def distinct_update distinct_delete)
  have "cache_entry_ok base txid ?e" using x e by (simp add: cache_entry_ok_def)
  then have "cache_entry_ok base k e'" if "map_of m k = Some e'" for k e'
    using that ok unfolding m by (auto split: if_splits)
  then have v: "view_ok (Cache (c\<lparr>cacheCoins := m\<rparr>) base)" using ok d by auto
  have "live (Cache (c\<lparr>cacheCoins := m\<rparr>) base) k = ((live (Cache c base))(txid := unpruned (Cleanup x))) k" for k
    using e(1) by (auto simp: live_def m unpruned_def)
  then show ?thesis using v unfolding c updated_def by (auto simp: fun_eq_iff)
qed

lemma ModifyCoins_ok:
  assumes ok: "view_ok (Cache c base)"
  shows "\<exists>x. handed (Cache c base) txid x \<and>
    (\<forall>(f :: CCoins \<Rightarrow> ('e, 'r \<times> CCoins) exec) r y. f x = Inr (r, y) \<longrightarrow> coin_ok (Cleanup y) \<longrightarrow>
      (\<exists>c' base'. ModifyCoins (Cache c base) txid f = Inr (r, Cache c' base') \<and> updated (Cache c base) txid y (Cache c' base'))) \<and>
    (\<forall>(f :: CCoins \<Rightarrow> ('e, 'r \<times> CCoins) exec) err. f x = Inl err \<longrightarrow> ModifyCoins (Cache c base) txid f = Inl err)"
proof (cases "map_of (cacheCoins c) txid")
  case (Some e)
  have e: "cache_entry_ok base txid e" using ok Some by auto
  then have "handed (Cache c base) txid (ce_coins e)"
    using Some coin_ok_pruned [of "ce_coins e"] by (auto simp: handed_def live_def unpruned_def cache_entry_ok_def)
  moreover have "updated (Cache c base) txid y (Cache (modifier_done c txid (e\<lparr>ce_coins := y, ce_DIRTY := True\<rparr>)) base)"
    if "coin_ok (Cleanup y)" for y
    using modifier_done_ok [OF ok that] e by (auto simp: cache_entry_ok_def)
  ultimately show ?thesis using Some by (intro exI [of _ "ce_coins e"]) (auto simp del: view_ok.simps)
next
  case None
  obtain r0 base' where b: "GetCoins base txid = (r0, base')" by (metis surj_pair)
  have bb: "view_ok base" using ok by simp
  have low: "r0 = view_coins base txid" "view_ok base'" "same_view base base'" "r0 \<noteq> None \<longrightarrow> cached base' txid"
    using GetCoins_ok [OF bb b] by auto
  note up = view_ok_below [OF ok low(2,3)]
  define x where "x = (case r0 of None \<Rightarrow> CCoins_Clear | Some x \<Rightarrow> x)"
  define e where "e = \<lparr>ce_coins = x, ce_DIRTY = False, ce_FRESH = IsPruned x\<rparr>"
  have l: "live base' txid = live base txid" using same_view_live [OF low(3)] by simp
  have lx: "live base txid = (case r0 of None \<Rightarrow> None | Some x \<Rightarrow> unpruned x)" using low(1) by (auto simp: live_def split: option.splits)
  have "handed (Cache c base) txid x"
    using None lx view_ok_coin [OF bb] low(1) coin_ok_pruned [of x]
    by (auto simp: handed_def live_def unpruned_def x_def CCoins_Clear_def split: option.splits)
  moreover have "updated (Cache c base) txid y (Cache (modifier_done c txid (e\<lparr>ce_coins := y, ce_DIRTY := True\<rparr>)) base')"
    if y: "coin_ok (Cleanup y)" for y
  proof -
    have "updated (Cache c base') txid y (Cache (modifier_done c txid (e\<lparr>ce_coins := y, ce_DIRTY := True\<rparr>)) base')"
      by (rule modifier_done_ok [OF up(1) y])
        (use l lx low(4) in \<open>auto simp: e_def x_def unpruned_def split: option.splits\<close>)
    then show ?thesis using same_view_live [OF up(2)] up(2) unfolding updated_def same_view_def by simp
  qed
  moreover have "ModifyCoins (Cache c base) txid f =
    exec_bind (f x) (\<lambda>(r, y). Inr (r, Cache (modifier_done c txid (e\<lparr>ce_coins := y, ce_DIRTY := True\<rparr>)) base'))"
    for f :: "CCoins \<Rightarrow> ('e, 'r \<times> CCoins) exec"
    using None b by (auto simp: x_def e_def split: option.splits)
  ultimately show ?thesis by (intro exI [of _ x]) (auto simp del: view_ok.simps ModifyCoins.simps)
qed

lemma map_of_set_nullifiers:
  "map_of (set_nullifiers spent nfs m) nf =
     (if nf \<in> set nfs then Some \<lparr>ne_entered = spent, ne_DIRTY = True\<rparr> else map_of m nf)"
  by (induction nfs arbitrary: m) (auto simp: set_nullifiers_def)

lemma distinct_set_nullifiers: "distinct (map fst m) \<Longrightarrow> distinct (map fst (set_nullifiers spent nfs m))"
  by (induction nfs arbitrary: m) (auto simp: set_nullifiers_def distinct_update)

lemma SetNullifiers_ok:
  assumes "view_ok (Cache c base)"
  shows "\<exists>c'. (SetNullifiers (Cache c base) tx spent :: ('e, 't CCoinsView) exec) = Inr (Cache c' base) \<and>
    view_ok (Cache c' base) \<and> live (Cache c' base) = live (Cache c base) \<and> view_best (Cache c' base) = view_best (Cache c base) \<and>
    view_nf (Cache c' base) = (\<lambda>type nf. if nf \<in> set (tx_nullifiers tx type) then spent else view_nf (Cache c base) type nf)"
proof -
  let ?c = "c\<lparr>cacheNullifiers := (\<lambda>type. set_nullifiers spent (tx_nullifiers tx type) (cacheNullifiers c type))\<rparr>"
  have "nullifiers_ok (view_nf base type) (cacheNullifiers ?c type)" for type
    using assms by (auto simp: nullifiers_ok_def map_of_set_nullifiers distinct_set_nullifiers)
  then have "view_ok (Cache ?c base)" using assms by auto
  then show ?thesis by (intro exI [of _ ?c]) (auto simp: fun_eq_iff live_def map_of_set_nullifiers)
qed

section \<open>Flushing\<close>

definition written :: "CCoinsCacheEntry option \<Rightarrow> CCoinsCacheEntry option \<Rightarrow> CCoinsCacheEntry option" where
  "written ch p =
     (case ch of
        None \<Rightarrow> p
      | Some e \<Rightarrow>
          if \<not> ce_DIRTY e then p
          else case p of
                 None \<Rightarrow> if IsPruned (ce_coins e) then None else Some \<lparr>ce_coins = ce_coins e, ce_DIRTY = True, ce_FRESH = True\<rparr>
               | Some p \<Rightarrow> if ce_FRESH p \<and> IsPruned (ce_coins e) then None else Some (p\<lparr>ce_coins := ce_coins e, ce_DIRTY := True\<rparr>))"

lemma batch_coins_map:
  assumes "distinct (map fst ch)" "distinct (map fst us)"
    and "\<And>k e. map_of ch k = Some e \<Longrightarrow> ce_DIRTY e \<Longrightarrow> \<not> IsPruned (ce_coins e) \<Longrightarrow> map_of us k = None \<Longrightarrow> ce_FRESH e"
  shows "\<exists>us'. (batch_coins ch us :: ('e, (bytes \<times> CCoinsCacheEntry) list) exec) = Inr us' \<and> distinct (map fst us') \<and>
    (\<forall>k. map_of us' k = written (map_of ch k) (map_of us k))"
  using assms
proof (induction ch arbitrary: us)
  case Nil
  then show ?case by (simp add: written_def)
next
  case (Cons p ch)
  obtain txid e where p: "p = (txid, e)" by (cases p)
  define us1 where "us1 =
    (if \<not> ce_DIRTY e then us
     else case map_of us txid of
            None \<Rightarrow> if IsPruned (ce_coins e) then us
                    else (txid, \<lparr>ce_coins = ce_coins e, ce_DIRTY = True, ce_FRESH = True\<rparr>) # us
          | Some q \<Rightarrow> if ce_FRESH q \<and> IsPruned (ce_coins e) then AList.delete txid us
                      else AList.update txid (q\<lparr>ce_coins := ce_coins e, ce_DIRTY := True\<rparr>) us)"
  have fresh: "ce_DIRTY e \<Longrightarrow> \<not> IsPruned (ce_coins e) \<Longrightarrow> map_of us txid = None \<Longrightarrow> ce_FRESH e"
    using Cons.prems(3) [of txid e] by (simp add: p)
  have step: "(batch_coins (p # ch) us :: ('e, (bytes \<times> CCoinsCacheEntry) list) exec) = batch_coins ch us1"
    using fresh by (auto simp: p us1_def exec_assert_def split: option.splits)
  have d: "distinct (map fst us1)"
    using Cons.prems(2) by (auto simp: us1_def distinct_update distinct_delete map_of_eq_None_iff split: option.splits)
  have m1: "map_of us1 k = (if k = txid then written (Some e) (map_of us txid) else map_of us k)" for k
    by (auto simp: us1_def written_def split: option.splits)
  have n: "map_of ch txid = None" using Cons.prems(1) by (simp add: p map_of_eq_None_iff)
  have "\<exists>us'. (batch_coins ch us1 :: ('e, (bytes \<times> CCoinsCacheEntry) list) exec) = Inr us' \<and> distinct (map fst us') \<and>
    (\<forall>k. map_of us' k = written (map_of ch k) (map_of us1 k))"
  proof (rule Cons.IH)
    show "ce_FRESH e'" if "map_of ch k = Some e'" "ce_DIRTY e'" "\<not> IsPruned (ce_coins e')" "map_of us1 k = None" for k e'
    proof -
      have "k \<noteq> txid" using that(1) n by auto
      then show ?thesis using Cons.prems(3) [of k e'] that m1 [of k] by (simp add: p)
    qed
  qed (use Cons.prems(1) d in simp_all)
  moreover have "written (map_of ch k) (map_of us1 k) = written (map_of (p # ch) k) (map_of us k)" for k
    using n m1 [of k] by (auto simp: p written_def)
  ultimately show ?case unfolding step by auto
qed

definition nf_written :: "CNullifiersCacheEntry option \<Rightarrow> CNullifiersCacheEntry option \<Rightarrow> CNullifiersCacheEntry option" where
  "nf_written ch p =
     (case ch of
        None \<Rightarrow> p
      | Some e \<Rightarrow>
          if \<not> ne_DIRTY e then p
          else case p of
                 None \<Rightarrow> Some \<lparr>ne_entered = ne_entered e, ne_DIRTY = True\<rparr>
               | Some q \<Rightarrow> if ne_entered q = ne_entered e then p else Some \<lparr>ne_entered = ne_entered e, ne_DIRTY = True\<rparr>)"

lemma batch_nullifiers_map:
  assumes "distinct (map fst ch)" "distinct (map fst us)"
  shows "map_of (batch_nullifiers ch us) nf = nf_written (map_of ch nf) (map_of us nf) \<and> distinct (map fst (batch_nullifiers ch us))"
  using assms
proof (induction ch arbitrary: us)
  case Nil
  then show ?case by (simp add: nf_written_def)
next
  case (Cons p ch)
  obtain f e where p: "p = (f, e)" by (cases p)
  define us1 where "us1 =
    (if \<not> ne_DIRTY e then us
     else case map_of us f of
            None \<Rightarrow> (f, \<lparr>ne_entered = ne_entered e, ne_DIRTY = True\<rparr>) # us
          | Some q \<Rightarrow> if ne_entered q = ne_entered e then us
                      else AList.update f \<lparr>ne_entered = ne_entered e, ne_DIRTY = True\<rparr> us)"
  have step: "batch_nullifiers (p # ch) us = batch_nullifiers ch us1" by (simp add: p us1_def)
  have d: "distinct (map fst us1)"
    using Cons.prems(2) by (auto simp: us1_def distinct_update map_of_eq_None_iff split: option.splits)
  have m1: "map_of us1 k = (if k = f then nf_written (Some e) (map_of us f) else map_of us k)" for k
    by (auto simp: us1_def nf_written_def split: option.splits)
  have n: "map_of ch f = None" using Cons.prems(1) by (simp add: p map_of_eq_None_iff)
  have "nf_written (map_of ch nf) (map_of us1 nf) = nf_written (map_of (p # ch) nf) (map_of us nf)"
    using n m1 [of nf] by (auto simp: p nf_written_def)
  then show ?case using Cons.IH [OF _ d] Cons.prems(1) unfolding step by (simp add: p)
qed

lemma db_batch_coins_map:
  assumes "distinct (map fst ch)" "distinct (map fst db)"
  shows "map_of (db_batch_coins ch db) k =
      (case map_of ch k of None \<Rightarrow> map_of db k
       | Some e \<Rightarrow> if \<not> ce_DIRTY e then map_of db k else unpruned (ce_coins e)) \<and> distinct (map fst (db_batch_coins ch db))"
  using assms
proof (induction ch arbitrary: db)
  case (Cons p ch)
  obtain f e where p: "p = (f, e)" by (cases p)
  define db1 where "db1 = (if \<not> ce_DIRTY e then db else if IsPruned (ce_coins e) then AList.delete f db
                           else AList.update f (ce_coins e) db)"
  have step: "db_batch_coins (p # ch) db = db_batch_coins ch db1" by (simp add: db_batch_coins_def p db1_def)
  have d: "distinct (map fst db1)" using Cons.prems(2) by (simp add: db1_def distinct_update distinct_delete)
  have n: "map_of ch f = None" using Cons.prems(1) by (simp add: p map_of_eq_None_iff)
  have "map_of db1 k = (if k = f \<and> ce_DIRTY e then unpruned (ce_coins e) else map_of db k)" by (simp add: db1_def unpruned_def)
  then show ?case using Cons.IH [OF _ d] Cons.prems(1) n unfolding step by (auto simp: p split: option.splits)
qed (simp add: db_batch_coins_def)

lemma db_batch_nullifiers_map:
  assumes "distinct (map fst ch)"
  shows "map_of (db_batch_nullifiers ch db) k \<noteq> None \<longleftrightarrow>
      (case map_of ch k of None \<Rightarrow> map_of db k \<noteq> None
       | Some e \<Rightarrow> if \<not> ne_DIRTY e then map_of db k \<noteq> None else ne_entered e)"
  using assms
proof (induction ch arbitrary: db)
  case (Cons p ch)
  obtain f e where p: "p = (f, e)" by (cases p)
  define db1 where "db1 = (if \<not> ne_DIRTY e then db else if \<not> ne_entered e then AList.delete f db else AList.update f True db)"
  have step: "db_batch_nullifiers (p # ch) db = db_batch_nullifiers ch db1" by (simp add: db_batch_nullifiers_def p db1_def)
  have n: "map_of ch f = None" using Cons.prems(1) by (simp add: p map_of_eq_None_iff)
  have "map_of db1 k \<noteq> None \<longleftrightarrow> (if k = f \<and> ne_DIRTY e then ne_entered e else map_of db k \<noteq> None)"
    by (auto simp: db1_def intro: exI [of _ True])
  then show ?case using Cons.IH [of db1] Cons.prems(1) n unfolding step by (auto simp: p split: option.splits)
qed (simp add: db_batch_nullifiers_def)

text \<open>Where a child writes to a cache: what is live and the flags of the parent.\<close>

lemma written_ok:
  assumes ok: "view_ok (Cache c base)"
    and ch: "\<And>e. ch = Some e \<Longrightarrow> cache_entry_ok (Cache c base) k e"
    and w: "w = written ch (map_of (cacheCoins c) k)"
  shows "(case w of None \<Rightarrow> live base k | Some e \<Rightarrow> unpruned (ce_coins e)) =
      (case ch of None \<Rightarrow> live (Cache c base) k | Some e \<Rightarrow> unpruned (ce_coins e))"
    and "w = Some e \<Longrightarrow> cache_entry_ok base k e"
proof -
  have c: "cache_entry_ok base k p" if "map_of (cacheCoins c) k = Some p" for p using ok that by simp
  have l: "live (Cache c base) k = (case map_of (cacheCoins c) k of None \<Rightarrow> live base k | Some p \<Rightarrow> unpruned (ce_coins p))"
    by (auto simp: live_def split: option.splits)
  show "(case w of None \<Rightarrow> live base k | Some e \<Rightarrow> unpruned (ce_coins e)) =
      (case ch of None \<Rightarrow> live (Cache c base) k | Some e \<Rightarrow> unpruned (ce_coins e))"
  proof (cases ch)
    case (Some e)
    note e = ch [OF Some, unfolded cache_entry_ok_def l]
    show ?thesis
    proof (cases "ce_DIRTY e")
      case True
      then show ?thesis using Some e c w
        by (cases "map_of (cacheCoins c) k") (auto simp: written_def unpruned_def cache_entry_ok_def)
    next
      case False
      then have "live (Cache c base) k = unpruned (ce_coins e)" using e by (simp add: live_def)
      then show ?thesis using Some False w l by (simp add: written_def)
    qed
  qed (use w l in \<open>simp add: written_def\<close>)
  show "cache_entry_ok base k e" if "w = Some e"
  proof (cases ch)
    case (Some e')
    note e' = ch [OF Some, unfolded cache_entry_ok_def l]
    show ?thesis
      using that Some e' c w
      by (cases "map_of (cacheCoins c) k") (auto simp: written_def cache_entry_ok_def split: if_splits)
  qed (use that w c in \<open>simp add: written_def\<close>)
qed

lemma nf_written_entered:
  assumes "ch = None \<or> ne_DIRTY (the ch) \<or> ne_entered (the ch) = (case p of Some q \<Rightarrow> ne_entered q | None \<Rightarrow> below)"
  shows "(case nf_written ch p of Some q \<Rightarrow> ne_entered q | None \<Rightarrow> below) =
    (case ch of Some e \<Rightarrow> ne_entered e | None \<Rightarrow> case p of Some q \<Rightarrow> ne_entered q | None \<Rightarrow> below)"
  using assms by (cases ch; cases p) (auto simp: nf_written_def)

lemma nf_written_clean:
  assumes "nf_written ch p = Some q" "\<not> ne_DIRTY q"
  shows "p = Some q"
  using assms by (cases ch; cases p) (auto simp: nf_written_def split: if_splits)

lemma BatchWrite_cache:
  assumes ok: "view_ok (Cache ch (Cache c base))"
  shows "\<exists>v. (BatchWrite ops (Cache c base) ch :: ('e, 't CCoinsView) exec) = Inr v \<and> view_ok v \<and>
    live v = live (Cache ch (Cache c base)) \<and> view_nf v = view_nf (Cache ch (Cache c base)) \<and>
    (\<not> uint256_IsNull (hashBlock ch) \<longrightarrow> view_best v = hashBlock ch)"
proof -
  note ok' = ok [unfolded view_ok.simps(2) [of ch "Cache c base"]]
  have below: "view_ok (Cache c base)" using ok' by blast
  have ents: "cache_entry_ok (Cache c base) k e" if "map_of (cacheCoins ch) k = Some e" for k e
    using ok' that by blast
  have nfs: "nullifiers_ok (view_nf (Cache c base) type) (cacheNullifiers ch type)" for type
    using ok' by blast
  have dc: "distinct (map fst (cacheCoins ch))" "distinct (map fst (cacheCoins c))" using ok by simp_all
  obtain us where us: "(batch_coins (cacheCoins ch) (cacheCoins c) :: ('e, (bytes \<times> CCoinsCacheEntry) list) exec) = Inr us"
    "distinct (map fst us)" "\<And>k. map_of us k = written (map_of (cacheCoins ch) k) (map_of (cacheCoins c) k)"
    using batch_coins_map [OF dc, where 'e = 'e] ents by (fastforce simp: cache_entry_ok_def)
  define ns where "ns = (\<lambda>type. batch_nullifiers (cacheNullifiers ch type) (cacheNullifiers c type))"
  define v where "v = Cache (c\<lparr>cacheCoins := us, cacheAnchors := (\<lambda>type. batch_anchors (cacheAnchors ch type) (cacheAnchors c type)),
    cacheNullifiers := ns, hashAnchor := hashAnchor ch, hashBlock := hashBlock ch\<rparr>) base"
  have dn: "distinct (map fst (cacheNullifiers ch type))" "distinct (map fst (cacheNullifiers c type))"
    "nullifiers_ok (view_nf base type) (cacheNullifiers c type)" for type
    using nfs below by (auto simp: nullifiers_ok_def)
  have ns: "map_of (ns type) nf = nf_written (map_of (cacheNullifiers ch type) nf) (map_of (cacheNullifiers c type) nf)"
    "distinct (map fst (ns type))" for type nf
    using batch_nullifiers_map [OF dn(1,2)] by (simp_all add: ns_def)
  have chn: "map_of (cacheNullifiers ch type) nf = None \<or> ne_DIRTY (the (map_of (cacheNullifiers ch type) nf)) \<or>
    ne_entered (the (map_of (cacheNullifiers ch type) nf)) =
      (case map_of (cacheNullifiers c type) nf of Some p \<Rightarrow> ne_entered p | None \<Rightarrow> view_nf base type nf)" for type nf
    using nfs [of type] unfolding nullifiers_ok_def
    by (cases "map_of (cacheNullifiers ch type) nf"; cases "ne_DIRTY (the (map_of (cacheNullifiers ch type) nf))") simp_all
  have "nullifiers_ok (view_nf base type) (ns type)" for type
    unfolding nullifiers_ok_def
  proof (intro conjI allI impI)
    fix nf e
    assume e: "map_of (ns type) nf = Some e" "\<not> ne_DIRTY e"
    then have "map_of (cacheNullifiers c type) nf = Some e" using nf_written_clean ns(1) by metis
    then show "ne_entered e = view_nf base type nf" using dn(3) [of type] e(2) by (simp add: nullifiers_ok_def)
  qed (rule ns(2))
  moreover have "cache_entry_ok base k e" if "map_of us k = Some e" for k e
    using written_ok(2) [OF below ents us(3)] that by blast
  ultimately have vok: "view_ok v" using below us(2) by (simp add: v_def)
  have "live v k = live (Cache ch (Cache c base)) k" for k
  proof -
    have "live v k = (case map_of us k of None \<Rightarrow> live base k | Some e \<Rightarrow> unpruned (ce_coins e))"
      by (auto simp: v_def live_def split: option.splits)
    also have "\<dots> = (case map_of (cacheCoins ch) k of None \<Rightarrow> live (Cache c base) k | Some e \<Rightarrow> unpruned (ce_coins e))"
      by (rule written_ok(1) [OF below ents us(3)])
    finally show ?thesis by (auto simp: live_def split: option.splits)
  qed
  moreover have "view_nf v type nf = view_nf (Cache ch (Cache c base)) type nf" for type nf
    using nf_written_entered [OF chn [of type nf]] ns(1) [of type nf] by (simp add: v_def cong: option.case_cong)
  ultimately show ?thesis
    using us(1) vok by (intro exI [of _ v]) (auto simp: v_def ns_def fun_eq_iff simp del: view_ok.simps view_nf.simps)
qed

lemma BatchWrite_db:
  assumes ok: "view_ok (Cache ch (DB db))"
  shows "\<exists>v. (BatchWrite ops (DB db) ch :: ('e, 't CCoinsView) exec) = Inr v \<and> view_ok v \<and>
    live v = live (Cache ch (DB db)) \<and> view_nf v = view_nf (Cache ch (DB db)) \<and>
    (\<not> uint256_IsNull (hashBlock ch) \<longrightarrow> view_best v = hashBlock ch)"
proof -
  have d: "distinct (map fst (cacheCoins ch))" "distinct (map fst (db_coins db))" using ok by simp_all
  have ents: "cache_entry_ok (DB db) k e" if "map_of (cacheCoins ch) k = Some e" for k e using ok that by simp
  have nfs: "nullifiers_ok (view_nf (DB db) type) (cacheNullifiers ch type)" for type using ok by simp
  have coins: "coin_ok x \<and> \<not> IsPruned x" if "map_of (db_coins db) k = Some x" for k x using ok that by simp
  obtain v where v: "(BatchWrite ops (DB db) ch :: ('e, 't CCoinsView) exec) = Inr (DB v)"
    "db_coins v = db_batch_coins (cacheCoins ch) (db_coins db)"
    "db_nullifiers v = (\<lambda>type. db_batch_nullifiers (cacheNullifiers ch type) (db_nullifiers db type))"
    "db_bestBlock v = (if uint256_IsNull (hashBlock ch) then db_bestBlock db else Some (hashBlock ch))"
    by simp
  have m: "map_of (db_coins v) k = (case map_of (cacheCoins ch) k of None \<Rightarrow> map_of (db_coins db) k
      | Some e \<Rightarrow> if \<not> ce_DIRTY e then map_of (db_coins db) k else unpruned (ce_coins e))" for k
    using db_batch_coins_map [OF d] by (simp add: v(2))
  have "coin_ok x \<and> \<not> IsPruned x" if "map_of (db_coins v) k = Some x" for k x
    using that coins [of k x] ents [of k] unfolding m
    by (auto simp: unpruned_def cache_entry_ok_def split: option.splits if_splits)
  then have "view_ok (DB v)" using db_batch_coins_map [OF d] v(2) by simp
  moreover have "live (DB v) k = live (Cache ch (DB db)) k" for k
    using m [of k] ents [of k] by (auto simp: live_def unpruned_def cache_entry_ok_def split: option.splits if_splits)
  moreover have "view_nf (DB v) type nf = view_nf (Cache ch (DB db)) type nf" for type nf
    using db_batch_nullifiers_map [of "cacheNullifiers ch type" "db_nullifiers db type" nf] nfs [of type]
    by (auto simp: v(3) nullifiers_ok_def split: option.splits if_splits)
  ultimately show ?thesis using v(1,4) by (intro exI [of _ "DB v"]) (auto simp: fun_eq_iff)
qed

lemma Flush_ok:
  assumes ok: "view_ok (Cache c base)"
  shows "\<exists>c' base'. (Flush ops (Cache c base) :: ('e, 't CCoinsView) exec) = Inr (Cache c' base') \<and> view_ok (Cache c' base') \<and>
    cacheCoins c' = [] \<and> live base' = live (Cache c base) \<and> live (Cache c' base') = live (Cache c base) \<and>
    view_nf base' = view_nf (Cache c base) \<and> view_nf (Cache c' base') = view_nf (Cache c base) \<and>
    (\<not> uint256_IsNull (hashBlock c) \<longrightarrow> view_best base' = hashBlock c \<and> view_best (Cache c' base') = hashBlock c)"
proof -
  obtain v where v: "(BatchWrite ops base c :: ('e, 't CCoinsView) exec) = Inr v" "view_ok v"
    "live v = live (Cache c base)" "view_nf v = view_nf (Cache c base)"
    "\<not> uint256_IsNull (hashBlock c) \<longrightarrow> view_best v = hashBlock c"
    using BatchWrite_db [where 'e = 'e] BatchWrite_cache [where 'e = 'e] ok by (cases base) blast+
  let ?c = "c\<lparr>cacheCoins := [], cacheAnchors := (\<lambda>_. []), cacheNullifiers := (\<lambda>_. [])\<rparr>"
  have "view_ok (Cache ?c v)" using v(2) by (simp add: nullifiers_ok_def)
  moreover have "live (Cache ?c v) = live v" "view_nf (Cache ?c v) = view_nf v" by (auto simp: live_def fun_eq_iff)
  ultimately show ?thesis using v by (intro exI [of _ ?c] exI [of _ v]) auto
qed

end
