(* ===== verification/Chain_Params.thy ===== *)
theory Chain_Params
  imports Transaction
begin

text \<open>
  The consensus parameters and the network upgrades: src/src/consensus/params.h,
  src/src/consensus/params.cpp, src/src/consensus/upgrades.h, src/src/consensus/upgrades.cpp and
  the parts of src/src/chainparams.cpp that consensus reads. An upgrade index is a position of the
  array \<open>vUpgrades\<close>; heights are C++ integers. The lemmas show how the state of an upgrade, the
  current epoch and the next activation height depend on the height.
\<close>

section \<open>Network upgrades\<close>

abbreviation (input) BASE_SPROUT :: nat where "BASE_SPROUT \<equiv> 0"
abbreviation (input) UPGRADE_TESTDUMMY :: nat where "UPGRADE_TESTDUMMY \<equiv> 1"
abbreviation (input) UPGRADE_OVERWINTER :: nat where "UPGRADE_OVERWINTER \<equiv> 2"
abbreviation (input) UPGRADE_SAPLING :: nat where "UPGRADE_SAPLING \<equiv> 3"
abbreviation (input) UPGRADE_DIFA :: nat where "UPGRADE_DIFA \<equiv> 4"
abbreviation (input) UPGRADE_ALFHEIMR :: nat where "UPGRADE_ALFHEIMR \<equiv> 5"
abbreviation (input) UPGRADE_KNOWHERE :: nat where "UPGRADE_KNOWHERE \<equiv> 6"
abbreviation (input) UPGRADE_WAKANDA :: nat where "UPGRADE_WAKANDA \<equiv> 7"
abbreviation (input) UPGRADE_ATLANTIS :: nat where "UPGRADE_ATLANTIS \<equiv> 8"
abbreviation (input) UPGRADE_MORAG :: nat where "UPGRADE_MORAG \<equiv> 9"
abbreviation (input) UPGRADE_XANDAR :: nat where "UPGRADE_XANDAR \<equiv> 10"
abbreviation (input) UPGRADE_LATVERIA :: nat where "UPGRADE_LATVERIA \<equiv> 11"
abbreviation (input) UPGRADE_KRAKOA :: nat where "UPGRADE_KRAKOA \<equiv> 12"
abbreviation (input) UPGRADE_LATVERION :: nat where "UPGRADE_LATVERION \<equiv> 13"
abbreviation (input) MAX_NETWORK_UPGRADES :: nat where "MAX_NETWORK_UPGRADES \<equiv> 14"

abbreviation (input) ALWAYS_ACTIVE :: int where "ALWAYS_ACTIVE \<equiv> 0"
abbreviation (input) NO_ACTIVATION_HEIGHT :: int where "NO_ACTIVATION_HEIGHT \<equiv> - 1"

record NetworkUpgrade =
  nProtocolVersion :: int
  nActivationHeight :: int
  hashActivationBlock :: "bytes option"

record EHparameters =
  eh_n :: nat
  eh_k :: nat
  nSolSize :: nat
  eh_pers :: string

definition eh200_9 :: EHparameters where
  "eh200_9 = \<lparr>eh_n = 200, eh_k = 9, nSolSize = 1344, eh_pers = ''ZcashPoW''\<rparr>"

definition eh144_5 :: EHparameters where
  "eh144_5 = \<lparr>eh_n = 144, eh_k = 5, nSolSize = 100, eh_pers = ''sngemPoW''\<rparr>"

definition eh48_5 :: EHparameters where
  "eh48_5 = \<lparr>eh_n = 48, eh_k = 5, nSolSize = 36, eh_pers = ''ZcashPoW''\<rparr>"

record ConsensusParams =
  hashGenesisBlock :: bytes
  fCoinbaseMustBeProtected :: bool
  nSubsidySlowStartInterval :: int
  nSubsidyHalvingInterval :: int
  nDelayHalvingBlocks :: int
  nMajorityEnforceBlockUpgrade :: int
  nMajorityRejectBlockOutdated :: int
  nMajorityWindow :: int
  vUpgrades :: "NetworkUpgrade list"
  powLimit :: bytes
  powLimitTop :: bytes
  nPowAllowMinDifficultyBlocksAfterHeight :: "u32 option"
  nPowAveragingWindow :: int
  nPowMaxAdjustDown :: int
  nPowMaxAdjustUp :: int
  nPowTargetSpacing :: int
  nTimeshiftPriv :: int
  nProposalEstablishmentTime :: int
  nMasternodePaymentsStartBlock :: int
  nMasternodePaymentsIncreasePeriod :: int
  eh_epoch_1 :: EHparameters
  eh_epoch_2 :: EHparameters
  eh_epoch_1_endtime :: u32
  eh_epoch_2_starttime :: u32
  nMinimumChainWork :: bytes
  nZawyLWMA3AveragingWindow :: int

abbreviation ActivationHeight :: "ConsensusParams \<Rightarrow> nat \<Rightarrow> int" where
  "ActivationHeight params idx \<equiv> nActivationHeight (vUpgrades params ! idx)"

definition SubsidySlowStartShift :: "ConsensusParams \<Rightarrow> int" where
  "SubsidySlowStartShift p = cdiv (nSubsidySlowStartInterval p) 2"

definition GetLastFoundersRewardBlockHeight :: "ConsensusParams \<Rightarrow> int" where
  "GetLastFoundersRewardBlockHeight p = nSubsidyHalvingInterval p + SubsidySlowStartShift p - 1"

definition GetLastDevelopersRewardBlockHeight :: "ConsensusParams \<Rightarrow> int" where
  "GetLastDevelopersRewardBlockHeight p = 99999999"

definition GetLastTreasuryRewardBlockHeight :: "ConsensusParams \<Rightarrow> int" where
  "GetLastTreasuryRewardBlockHeight p = ActivationHeight p UPGRADE_MORAG - 1"

definition GetFoundersRewardRepeatInterval :: "ConsensusParams \<Rightarrow> int" where
  "GetFoundersRewardRepeatInterval p = nSubsidyHalvingInterval p + SubsidySlowStartShift p - 1"

definition AveragingWindowTimespan :: "ConsensusParams \<Rightarrow> int" where
  "AveragingWindowTimespan p = nPowAveragingWindow p * nPowTargetSpacing p"

definition MinActualTimespan :: "ConsensusParams \<Rightarrow> int" where
  "MinActualTimespan p = cdiv (AveragingWindowTimespan p * (100 - nPowMaxAdjustUp p)) 100"

definition MaxActualTimespan :: "ConsensusParams \<Rightarrow> int" where
  "MaxActualTimespan p = cdiv (AveragingWindowTimespan p * (100 + nPowMaxAdjustDown p)) 100"

definition validEHparameterList :: "ConsensusParams \<Rightarrow> u32 \<Rightarrow> EHparameters list" where
  "validEHparameterList p blocktime =
     (if eh_epoch_2_starttime p \<le> blocktime \<and> eh_epoch_1_endtime p < blocktime then [eh_epoch_2 p]
      else if blocktime < eh_epoch_2_starttime p then [eh_epoch_1 p]
      else [eh_epoch_2 p, eh_epoch_1 p])"

section \<open>Epochs\<close>

datatype UpgradeState = UPGRADE_DISABLED | UPGRADE_PENDING | UPGRADE_ACTIVE

record NUInfo =
  nBranchId :: u32
  strName :: string
  strInfo :: string

definition NetworkUpgradeInfo :: "NUInfo list" where
  "NetworkUpgradeInfo =
    [\<lparr>nBranchId = 0, strName = ''Sprout'', strInfo = ''The Zcash network at launch''\<rparr>,
     \<lparr>nBranchId = 0x74736554, strName = ''Test dummy'', strInfo = ''Test dummy info''\<rparr>,
     \<lparr>nBranchId = 0x5ba81b19, strName = ''Overwinter'',
       strInfo = ''See https://z.cash/upgrade/overwinter.html for details.''\<rparr>,
     \<lparr>nBranchId = 0x76b809bb, strName = ''Sapling'',
       strInfo = ''See https://z.cash/upgrade/sapling.html for details.''\<rparr>,
     \<lparr>nBranchId = 0, strName = ''Difa'', strInfo = ''SnowGem Blocksize and LWMA update''\<rparr>,
     \<lparr>nBranchId = 0x76b809bb, strName = ''Alfheimr'', strInfo = ''Masternodevoting, increase tx size to 400k''\<rparr>,
     \<lparr>nBranchId = 0x76b809bb, strName = ''Knowhere'', strInfo = ''Update payment reward''\<rparr>,
     \<lparr>nBranchId = 0x76b809bb, strName = ''Wakanda'', strInfo = ''Update new block consensus''\<rparr>,
     \<lparr>nBranchId = 0x76b809bb, strName = ''Atlantis'', strInfo = ''Dropping private transactions''\<rparr>,
     \<lparr>nBranchId = 0x76b809bb, strName = ''Morag'', strInfo = ''Gemlink''\<rparr>,
     \<lparr>nBranchId = 0x76b809bb, strName = ''Xandar'', strInfo = ''Locking mn funds''\<rparr>,
     \<lparr>nBranchId = 0x76b809bb, strName = ''Latveria'', strInfo = ''Locking blacklist''\<rparr>,
     \<lparr>nBranchId = 0x76b809bb, strName = ''Krakoa'', strInfo = ''Decrease min blocktime to 8 seconds''\<rparr>,
     \<lparr>nBranchId = 0x76b809bb, strName = ''Latverion'', strInfo = ''Decrease collateral locking time to 7 days''\<rparr>]"

definition SPROUT_BRANCH_ID :: u32 where
  "SPROUT_BRANCH_ID = nBranchId (NetworkUpgradeInfo ! BASE_SPROUT)"

definition NetworkUpgradeState :: "int \<Rightarrow> ConsensusParams \<Rightarrow> nat \<Rightarrow> ('e, UpgradeState) exec" where
  "NetworkUpgradeState nHeight params idx =
     exec_bind (exec_assert (0 \<le> nHeight)) (\<lambda>_.
     exec_bind (exec_assert (idx < MAX_NETWORK_UPGRADES)) (\<lambda>_.
     let activation = ActivationHeight params idx
     in if activation = NO_ACTIVATION_HEIGHT then Inr UPGRADE_DISABLED
        else if activation \<le> nHeight then Inr UPGRADE_ACTIVE
        else Inr UPGRADE_PENDING))"

definition NetworkUpgradeActive :: "int \<Rightarrow> ConsensusParams \<Rightarrow> nat \<Rightarrow> ('e, bool) exec" where
  "NetworkUpgradeActive nHeight params idx =
     exec_bind (NetworkUpgradeState nHeight params idx) (\<lambda>s. Inr (s = UPGRADE_ACTIVE))"

text \<open>The loop of \<open>CurrentEpoch\<close> over the indices below \<open>n\<close>, from the last one down.\<close>

primrec CurrentEpoch_loop :: "int \<Rightarrow> ConsensusParams \<Rightarrow> nat \<Rightarrow> ('e, nat) exec" where
  "CurrentEpoch_loop nHeight params 0 = Inr BASE_SPROUT"
| "CurrentEpoch_loop nHeight params (Suc idx) =
     exec_bind (NetworkUpgradeActive nHeight params idx) (\<lambda>active.
     if active then Inr idx else CurrentEpoch_loop nHeight params idx)"

definition CurrentEpoch :: "int \<Rightarrow> ConsensusParams \<Rightarrow> ('e, nat) exec" where
  "CurrentEpoch nHeight params = CurrentEpoch_loop nHeight params MAX_NETWORK_UPGRADES"

definition CurrentEpochBranchId :: "int \<Rightarrow> ConsensusParams \<Rightarrow> ('e, u32) exec" where
  "CurrentEpochBranchId nHeight params =
     exec_bind (CurrentEpoch nHeight params) (\<lambda>idx. Inr (nBranchId (NetworkUpgradeInfo ! idx)))"

definition PrevEpochBranchId :: "u32 \<Rightarrow> u32" where
  "PrevEpochBranchId currentBranchId =
     (case find (\<lambda>idx. currentBranchId = nBranchId (NetworkUpgradeInfo ! idx))
            [BASE_SPROUT + 1..<MAX_NETWORK_UPGRADES] of
        Some idx \<Rightarrow> nBranchId (NetworkUpgradeInfo ! (idx - 1))
      | None \<Rightarrow> nBranchId (NetworkUpgradeInfo ! BASE_SPROUT))"

text \<open>The comparison converts the \<open>int\<close> argument to \<open>uint32_t\<close>.\<close>

definition IsConsensusBranchId :: "int \<Rightarrow> bool" where
  "IsConsensusBranchId branchId \<longleftrightarrow>
     (\<exists>idx \<in> set [BASE_SPROUT..<MAX_NETWORK_UPGRADES]. word_of_int branchId = nBranchId (NetworkUpgradeInfo ! idx))"

definition IsActivationHeight :: "int \<Rightarrow> ConsensusParams \<Rightarrow> nat \<Rightarrow> ('e, bool) exec" where
  "IsActivationHeight nHeight params idx =
     exec_bind (exec_assert (idx < MAX_NETWORK_UPGRADES)) (\<lambda>_.
     if idx = BASE_SPROUT then Inr False
     else Inr (0 \<le> nHeight \<and> nHeight = ActivationHeight params idx))"

definition IsActivationHeightForAnyUpgrade :: "int \<Rightarrow> ConsensusParams \<Rightarrow> bool" where
  "IsActivationHeightForAnyUpgrade nHeight params \<longleftrightarrow>
     0 \<le> nHeight \<and>
     (\<exists>idx \<in> set [BASE_SPROUT + 1..<MAX_NETWORK_UPGRADES]. nHeight = ActivationHeight params idx)"

fun NextEpoch_loop :: "int \<Rightarrow> ConsensusParams \<Rightarrow> nat list \<Rightarrow> ('e, nat option) exec" where
  "NextEpoch_loop nHeight params [] = Inr None"
| "NextEpoch_loop nHeight params (idx # idxs) =
     exec_bind (NetworkUpgradeState nHeight params idx) (\<lambda>s.
     if s = UPGRADE_PENDING then Inr (Some idx) else NextEpoch_loop nHeight params idxs)"

definition NextEpoch :: "int \<Rightarrow> ConsensusParams \<Rightarrow> ('e, nat option) exec" where
  "NextEpoch nHeight params =
     (if nHeight < 0 then Inr None
      else NextEpoch_loop nHeight params [BASE_SPROUT + 1..<MAX_NETWORK_UPGRADES])"

definition NextActivationHeight :: "int \<Rightarrow> ConsensusParams \<Rightarrow> ('e, int option) exec" where
  "NextActivationHeight nHeight params =
     exec_bind (NextEpoch nHeight params) (\<lambda>idx.
     Inr (map_option (ActivationHeight params) idx))"

section \<open>The parameters of the networks\<close>

definition upgrade_at :: "int \<Rightarrow> int \<Rightarrow> NetworkUpgrade" where
  "upgrade_at version height =
     \<lparr>nProtocolVersion = version, nActivationHeight = height, hashActivationBlock = None\<rparr>"

text \<open>\<open>uint256S\<close> of a number: the bytes of a \<open>uint256\<close> are little-endian.\<close>

definition uint256_of_nat :: "nat \<Rightarrow> bytes" where
  "uint256_of_nat n = nat_le 32 n"

definition main_consensus :: ConsensusParams where
  "main_consensus =
     \<lparr>hashGenesisBlock = uint256_of_nat 0x00068b35729d9d2b0c294ff1fe9af0094740524311a131de40e7f705e4c29a5b,
      fCoinbaseMustBeProtected = True,
      nSubsidySlowStartInterval = 8000,
      nSubsidyHalvingInterval = 60 * 24 * 365 * 4,
      nDelayHalvingBlocks = 655200,
      nMajorityEnforceBlockUpgrade = 750,
      nMajorityRejectBlockOutdated = 950,
      nMajorityWindow = 4000,
      vUpgrades =
        [upgrade_at 170006 ALWAYS_ACTIVE, upgrade_at 170006 NO_ACTIVATION_HEIGHT,
         upgrade_at 170007 520000, upgrade_at 170008 520000, upgrade_at 170008 765000,
         upgrade_at 170008 850000, upgrade_at 170009 916000, upgrade_at 170010 1545000,
         upgrade_at 170010 1760000, upgrade_at 170011 2167200, upgrade_at 170012 2844000,
         upgrade_at 170012 3125000, upgrade_at 170012 3270500, upgrade_at 170012 3730000],
      powLimit = uint256_of_nat 0x0007ffffffffffffffffffffffffffffffffffffffffffffffffffffffffffff,
      powLimitTop = uint256_of_nat 1,
      nPowAllowMinDifficultyBlocksAfterHeight = None,
      nPowAveragingWindow = 17,
      nPowMaxAdjustDown = 32,
      nPowMaxAdjustUp = 16,
      nPowTargetSpacing = 1 * 60,
      nTimeshiftPriv = 7 * 24 * 60,
      nProposalEstablishmentTime = 60 * 60 * 24,
      nMasternodePaymentsStartBlock = 193200,
      nMasternodePaymentsIncreasePeriod = 43200,
      eh_epoch_1 = eh200_9,
      eh_epoch_2 = eh144_5,
      eh_epoch_1_endtime = 1530187171,
      eh_epoch_2_starttime = 1530187141,
      nMinimumChainWork = uint256_of_nat 0xe45718e6cb,
      nZawyLWMA3AveragingWindow = 60\<rparr>"

definition test_consensus :: ConsensusParams where
  "test_consensus =
     \<lparr>hashGenesisBlock = uint256_of_nat 0x0739bced3341885cf221cf22b5e91cdb0f5da3cb34da982167c4c900723c725a,
      fCoinbaseMustBeProtected = True,
      nSubsidySlowStartInterval = 8000,
      nSubsidyHalvingInterval = 60 * 24 * 365 * 4,
      nDelayHalvingBlocks = 0,
      nMajorityEnforceBlockUpgrade = 51,
      nMajorityRejectBlockOutdated = 75,
      nMajorityWindow = 400,
      vUpgrades =
        [upgrade_at 170006 ALWAYS_ACTIVE, upgrade_at 170006 NO_ACTIVATION_HEIGHT,
         upgrade_at 170007 8100, upgrade_at 170008 8100, upgrade_at 170008 8300,
         upgrade_at 170008 8500, upgrade_at 170009 12600, upgrade_at 170010 22500,
         upgrade_at 170010 28610, upgrade_at 170010 77780, upgrade_at 170012 81220,
         upgrade_at 170012 81400, upgrade_at 170012 81600, upgrade_at 170012 85600],
      powLimit = uint256_of_nat 0x07ffffffffffffffffffffffffffffffffffffffffffffffffffffffffffffff,
      powLimitTop = uint256_of_nat 1,
      nPowAllowMinDifficultyBlocksAfterHeight = Some 13000,
      nPowAveragingWindow = 17,
      nPowMaxAdjustDown = 32,
      nPowMaxAdjustUp = 16,
      nPowTargetSpacing = 1 * 60,
      nTimeshiftPriv = 1 * 60,
      nProposalEstablishmentTime = 60 * 5,
      nMasternodePaymentsStartBlock = 1500,
      nMasternodePaymentsIncreasePeriod = 200,
      eh_epoch_1 = eh200_9,
      eh_epoch_2 = eh144_5,
      eh_epoch_1_endtime = 1529432082,
      eh_epoch_2_starttime = 1529402266,
      nMinimumChainWork = uint256_of_nat 0xd,
      nZawyLWMA3AveragingWindow = 60\<rparr>"

text \<open>
  The constructor of the regression test network leaves the upgrades from \<open>UPGRADE_DIFA\<close> on and
  \<open>powLimitTop\<close> unset; the object has static storage, so they are zero.
\<close>

definition regtest_consensus :: ConsensusParams where
  "regtest_consensus =
     \<lparr>hashGenesisBlock = uint256_of_nat 0x047c30b7734dbad47335383f9997a5d5d8d5e4b46fd0f02f23ec4fca27651b41,
      fCoinbaseMustBeProtected = False,
      nSubsidySlowStartInterval = 0,
      nSubsidyHalvingInterval = 150,
      nDelayHalvingBlocks = 0,
      nMajorityEnforceBlockUpgrade = 750,
      nMajorityRejectBlockOutdated = 950,
      nMajorityWindow = 1000,
      vUpgrades =
        [upgrade_at 170002 ALWAYS_ACTIVE, upgrade_at 170002 NO_ACTIVATION_HEIGHT,
         upgrade_at 170006 NO_ACTIVATION_HEIGHT, upgrade_at 170007 NO_ACTIVATION_HEIGHT] @
        replicate 10 (upgrade_at 0 0),
      powLimit = uint256_of_nat 0x0f0f0f0f0f0f0f0f0f0f0f0f0f0f0f0f0f0f0f0f0f0f0f0f0f0f0f0f0f0f0f0f,
      powLimitTop = uint256_of_nat 0,
      nPowAllowMinDifficultyBlocksAfterHeight = Some 0,
      nPowAveragingWindow = 17,
      nPowMaxAdjustDown = 0,
      nPowMaxAdjustUp = 0,
      nPowTargetSpacing = 1 * 60,
      nTimeshiftPriv = 1 * 60,
      nProposalEstablishmentTime = 60 * 5,
      nMasternodePaymentsStartBlock = 0,
      nMasternodePaymentsIncreasePeriod = 0,
      eh_epoch_1 = eh48_5,
      eh_epoch_2 = eh48_5,
      eh_epoch_1_endtime = 1,
      eh_epoch_2_starttime = 1,
      nMinimumChainWork = uint256_of_nat 0,
      nZawyLWMA3AveragingWindow = 0\<rparr>"

definition regtest_UpdateNetworkUpgradeParameters ::
    "ConsensusParams \<Rightarrow> nat \<Rightarrow> int \<Rightarrow> ('e, ConsensusParams) exec" where
  "regtest_UpdateNetworkUpgradeParameters p idx height =
     exec_bind (exec_assert (BASE_SPROUT < idx \<and> idx < MAX_NETWORK_UPGRADES)) (\<lambda>_.
     Inr (p\<lparr>vUpgrades := (vUpgrades p)[idx := (vUpgrades p ! idx)\<lparr>nActivationHeight := height\<rparr>]\<rparr>))"

definition regtest_UpdateRegtestPow :: "ConsensusParams \<Rightarrow> int \<Rightarrow> int \<Rightarrow> bytes \<Rightarrow> ConsensusParams" where
  "regtest_UpdateRegtestPow p maxDown maxUp limit =
     p\<lparr>nPowMaxAdjustDown := maxDown, nPowMaxAdjustUp := maxUp, powLimit := limit\<rparr>"

section \<open>Chain parameters beyond consensus\<close>

text \<open>The maps of blocked and released outputs have each output point as key and as value.\<close>

record CChainParams =
  consensus :: ConsensusParams
  vFoundersRewardAddress :: "string list"
  vFoundersRewardAddress2 :: "string list"
  vTreasuryRewardAddress :: "string list"
  vDevelopersRewardAddress :: "string list"
  vBlacklistTx :: "COutPoint \<rightharpoonup> COutPoint"
  vWhitelistTx :: "COutPoint \<rightharpoonup> COutPoint"
  masternodeCollateral :: int
  masternodeCollateralNew :: int
  mnLockBlocks :: int

definition MAX_BLOCK_SIZE :: "ConsensusParams \<Rightarrow> int \<Rightarrow> int" where
  "MAX_BLOCK_SIZE params height =
     (if ActivationHeight params UPGRADE_DIFA \<le> height then 4000000 else 2000000)"

text \<open>
  The index of the reward address at a height. The interval and the quotient are computed in
  \<open>size_t\<close>; an empty list of addresses would divide by zero.
\<close>

definition reward_address_index :: "CChainParams \<Rightarrow> string list \<Rightarrow> int \<Rightarrow> ('e, nat) exec" where
  "reward_address_index cp addrs nHeight =
     (let maxHeight = GetFoundersRewardRepeatInterval (consensus cp);
          size = int (length addrs);
          interval = to_uint64 (to_uint64 maxHeight + size) div size
      in exec_bind (exec_assert (size \<noteq> 0 \<and> interval \<noteq> 0)) (\<lambda>_.
         Inr (nat (to_uint64 nHeight div interval mod size))))"

definition GetFoundersRewardAddressAtHeight :: "CChainParams \<Rightarrow> int \<Rightarrow> ('e, string) exec" where
  "GetFoundersRewardAddressAtHeight cp nHeight =
     exec_bind (reward_address_index cp (vFoundersRewardAddress cp) nHeight) (\<lambda>i.
     exec_bind (NetworkUpgradeActive nHeight (consensus cp) UPGRADE_ATLANTIS) (\<lambda>atlantis.
     if \<not> atlantis \<or> even nHeight then vec_get (vFoundersRewardAddress cp) i
     else vec_get (vFoundersRewardAddress2 cp) i))"

definition GetTreasuryRewardAddressAtHeight :: "CChainParams \<Rightarrow> int \<Rightarrow> ('e, string) exec" where
  "GetTreasuryRewardAddressAtHeight cp nHeight =
     exec_bind (reward_address_index cp (vTreasuryRewardAddress cp) nHeight) (\<lambda>i.
     vec_get (vTreasuryRewardAddress cp) i)"

definition GetDevelopersRewardAddressAtHeight :: "CChainParams \<Rightarrow> int \<Rightarrow> ('e, string) exec" where
  "GetDevelopersRewardAddressAtHeight cp nHeight =
     exec_bind (reward_address_index cp (vDevelopersRewardAddress cp) nHeight) (\<lambda>i.
     vec_get (vDevelopersRewardAddress cp) i)"

definition GetRewardAddressAtIndex :: "string list \<Rightarrow> int \<Rightarrow> ('e, string) exec" where
  "GetRewardAddressAtIndex addrs i =
     exec_bind (exec_assert (0 \<le> i \<and> i < int (length addrs))) (\<lambda>_. vec_get addrs (nat i))"

definition IsBlocked :: "CChainParams \<Rightarrow> int \<Rightarrow> COutPoint \<Rightarrow> ('e, bool) exec" where
  "IsBlocked cp height outpoint =
     exec_bind (NetworkUpgradeActive height (consensus cp) UPGRADE_LATVERION) (\<lambda>latverion.
     if latverion \<and> vWhitelistTx cp outpoint \<noteq> None then Inr False
     else Inr (vBlacklistTx cp outpoint \<noteq> None))"

definition GetCoinbaseProtected :: "CChainParams \<Rightarrow> int \<Rightarrow> ('e, bool) exec" where
  "GetCoinbaseProtected cp height =
     exec_bind (NetworkUpgradeActive height (consensus cp) UPGRADE_ATLANTIS) (\<lambda>active. Inr (\<not> active))"

definition GetmnLockBlocks :: "CChainParams \<Rightarrow> int \<Rightarrow> ('e, int) exec" where
  "GetmnLockBlocks cp height =
     exec_bind (NetworkUpgradeActive height (consensus cp) UPGRADE_LATVERION) (\<lambda>active.
     Inr (if \<not> active then mnLockBlocks cp else cdiv (mnLockBlocks cp) 2))"

definition GetMasternodeCollateral :: "CChainParams \<Rightarrow> int \<Rightarrow> ('e, int) exec" where
  "GetMasternodeCollateral cp height =
     exec_bind (NetworkUpgradeActive height (consensus cp) UPGRADE_MORAG) (\<lambda>active.
     Inr (if \<not> active then masternodeCollateral cp else masternodeCollateralNew cp))"

definition GetReorgNumber :: "bool \<Rightarrow> int" where
  "GetReorgNumber isProtected = (if isProtected then 20 else 100)"

section \<open>Facts about epochs\<close>

text \<open>The predicate that the parameters promise: one entry per upgrade, the first one is always active.\<close>

definition params_ok :: "ConsensusParams \<Rightarrow> bool" where
  "params_ok p \<longleftrightarrow>
     length (vUpgrades p) = MAX_NETWORK_UPGRADES \<and> ActivationHeight p BASE_SPROUT = ALWAYS_ACTIVE \<and>
     (\<forall>idx < MAX_NETWORK_UPGRADES. - 1 \<le> ActivationHeight p idx)"

definition upgrade_active :: "ConsensusParams \<Rightarrow> int \<Rightarrow> nat \<Rightarrow> bool" where
  "upgrade_active p h idx \<longleftrightarrow> ActivationHeight p idx \<noteq> - 1 \<and> ActivationHeight p idx \<le> h"

lemma NetworkUpgradeActive_eq [simp]:
  "0 \<le> h \<Longrightarrow> idx < MAX_NETWORK_UPGRADES \<Longrightarrow> NetworkUpgradeActive h p idx = Inr (upgrade_active p h idx)"
  by (simp add: NetworkUpgradeActive_def NetworkUpgradeState_def upgrade_active_def Let_def)

lemma NetworkUpgradeState_pending:
  "0 \<le> h \<Longrightarrow> idx < MAX_NETWORK_UPGRADES \<Longrightarrow>
   \<exists>s. (NetworkUpgradeState h p idx :: ('e, UpgradeState) exec) = Inr s \<and>
     (s = UPGRADE_PENDING \<longleftrightarrow> ActivationHeight p idx \<noteq> - 1 \<and> h < ActivationHeight p idx)"
  by (auto simp: NetworkUpgradeState_def Let_def)

lemma CurrentEpoch_loop_eq:
  assumes "0 \<le> h" "n \<le> MAX_NETWORK_UPGRADES" "params_ok p" "0 < n"
  shows "\<exists>i < n. (CurrentEpoch_loop h p n :: ('e, nat) exec) = Inr i \<and> upgrade_active p h i \<and>
    (\<forall>j. i < j \<and> j < n \<longrightarrow> \<not> upgrade_active p h j)"
  using assms
proof (induction n)
  case (Suc n)
  show ?case
  proof (cases "upgrade_active p h n")
    case True
    then show ?thesis using Suc.prems by (intro exI [of _ n]) auto
  next
    case False
    have "0 < n"
      using False Suc.prems by (cases n) (auto simp: upgrade_active_def params_ok_def)
    then obtain i where "i < n" "(CurrentEpoch_loop h p n :: ('e, nat) exec) = Inr i" "upgrade_active p h i"
      "\<forall>j. i < j \<and> j < n \<longrightarrow> \<not> upgrade_active p h j" using Suc by auto
    then show ?thesis using False Suc.prems by (intro exI [of _ i]) (auto simp: less_Suc_eq)
  qed
qed simp

lemma CurrentEpoch_eq:
  assumes "0 \<le> h" "params_ok p"
  shows "\<exists>i. (CurrentEpoch h p :: ('e, nat) exec) = Inr i \<and> i < MAX_NETWORK_UPGRADES \<and> upgrade_active p h i \<and>
    (\<forall>j. i < j \<longrightarrow> j < MAX_NETWORK_UPGRADES \<longrightarrow> \<not> upgrade_active p h j)"
  using CurrentEpoch_loop_eq [of h MAX_NETWORK_UPGRADES p, where 'e = 'e] assms unfolding CurrentEpoch_def by auto

lemma NextEpoch_loop_eq:
  assumes "0 \<le> h" "\<forall>i \<in> set is. i < MAX_NETWORK_UPGRADES"
  shows "(NextEpoch_loop h p is :: ('e, nat option) exec) =
    Inr (find (\<lambda>i. ActivationHeight p i \<noteq> - 1 \<and> h < ActivationHeight p i) is)"
  using assms
proof (induction "is")
  case (Cons i "is")
  then obtain s where "(NetworkUpgradeState h p i :: ('e, UpgradeState) exec) = Inr s"
    "s = UPGRADE_PENDING \<longleftrightarrow> ActivationHeight p i \<noteq> - 1 \<and> h < ActivationHeight p i"
    using NetworkUpgradeState_pending [of h i p, where 'e = 'e] by auto
  then show ?case using Cons by simp
qed simp

lemma NextEpoch_eq:
  "0 \<le> h \<Longrightarrow> NextEpoch h p =
     Inr (find (\<lambda>i. ActivationHeight p i \<noteq> - 1 \<and> h < ActivationHeight p i) [1..<MAX_NETWORK_UPGRADES])"
  unfolding NextEpoch_def by (subst NextEpoch_loop_eq) auto

definition upgrades_sorted :: "ConsensusParams \<Rightarrow> bool" where
  "upgrades_sorted p \<longleftrightarrow>
     (\<forall>j < MAX_NETWORK_UPGRADES. \<forall>i < j. ActivationHeight p j \<noteq> - 1 \<longrightarrow> ActivationHeight p i \<le> ActivationHeight p j)"

lemma CurrentEpoch_iff:
  assumes "0 \<le> h" "params_ok p"
  shows "(CurrentEpoch h p :: ('e, nat) exec) = Inr i \<longleftrightarrow>
    i < MAX_NETWORK_UPGRADES \<and> upgrade_active p h i \<and>
    (\<forall>j. i < j \<longrightarrow> j < MAX_NETWORK_UPGRADES \<longrightarrow> \<not> upgrade_active p h j)"
  using CurrentEpoch_eq [OF assms, where 'e = 'e]
  by (metis sum.inject(2) linorder_neqE_nat)

lemma upgrade_active_mono: "upgrade_active p h i \<Longrightarrow> h \<le> h' \<Longrightarrow> upgrade_active p h' i"
  by (auto simp: upgrade_active_def)

lemma CurrentEpoch_mono:
  assumes "0 \<le> h" "params_ok p" "h \<le> h'" "(CurrentEpoch h p :: ('e, nat) exec) = Inr i"
  shows "\<exists>j \<ge> i. (CurrentEpoch h' p :: ('e, nat) exec) = Inr j"
proof -
  have h': "0 \<le> h'" using assms(1,3) by simp
  obtain j where j: "(CurrentEpoch h' p :: ('e, nat) exec) = Inr j"
    "\<forall>k. j < k \<longrightarrow> k < MAX_NETWORK_UPGRADES \<longrightarrow> \<not> upgrade_active p h' k"
    using CurrentEpoch_eq [OF h' assms(2), where 'e = 'e] by blast
  have "i < MAX_NETWORK_UPGRADES" "upgrade_active p h i"
    using assms(4) unfolding CurrentEpoch_iff [OF assms(1,2)] by blast+
  then have "i \<le> j" using j(2) upgrade_active_mono [OF _ assms(3)] by (meson not_le)
  then show ?thesis using j(1) by blast
qed

lemma CurrentEpoch_const:
  assumes "0 \<le> h" "params_ok p" "h \<le> h'" "(CurrentEpoch h p :: ('e, nat) exec) = Inr i"
    and "\<And>k. i < k \<Longrightarrow> k < MAX_NETWORK_UPGRADES \<Longrightarrow> \<not> upgrade_active p h' k"
  shows "(CurrentEpoch h' p :: ('e, nat) exec) = Inr i"
proof -
  have h': "0 \<le> h'" using assms(1,3) by simp
  have "i < MAX_NETWORK_UPGRADES" "upgrade_active p h i"
    using assms(4) unfolding CurrentEpoch_iff [OF assms(1,2)] by blast+
  then show ?thesis
    using assms(5) upgrade_active_mono [OF _ assms(3)] unfolding CurrentEpoch_iff [OF h' assms(2)] by blast
qed

lemma find_upt_SomeD:
  assumes "find P [a..<b] = Some k"
  shows "P k \<and> a \<le> k \<and> k < b \<and> (\<forall>j. a \<le> j \<longrightarrow> j < k \<longrightarrow> \<not> P j)"
proof -
  obtain n where n: "n < b - a" "P ([a..<b] ! n)" "k = [a..<b] ! n" "\<forall>m < n. \<not> P ([a..<b] ! m)"
    using assms by (auto simp: find_Some_iff)
  have "\<not> P j" if "a \<le> j" "j < k" for j
  proof -
    have "j - a < n" "[a..<b] ! (j - a) = j" using that n(1,3) by auto
    then show ?thesis using n(4) by metis
  qed
  then show ?thesis using n by auto
qed

lemma all_upgrades:
  "(\<forall>i < MAX_NETWORK_UPGRADES. P i) \<longleftrightarrow> P 0 \<and> P 1 \<and> P 2 \<and> P 3 \<and> P 4 \<and> P 5 \<and> P 6 \<and> P 7 \<and> P 8 \<and> P 9 \<and>
     P 10 \<and> P 11 \<and> P 12 \<and> P 13"
  by (simp add: numeral_nat All_less_Suc conj_ac)

lemma main_upgrades [simp]:
  "map nActivationHeight (vUpgrades main_consensus) =
     [0, - 1, 520000, 520000, 765000, 850000, 916000, 1545000, 1760000, 2167200, 2844000, 3125000, 3270500, 3730000]"
  by (simp add: main_consensus_def upgrade_at_def)

lemma ActivationHeight_map:
  "idx < length (vUpgrades p) \<Longrightarrow> ActivationHeight p idx = map nActivationHeight (vUpgrades p) ! idx"
  by simp

lemma length_main_upgrades [simp]: "length (vUpgrades main_consensus) = MAX_NETWORK_UPGRADES"
  by (simp add: main_consensus_def)

lemma main_activation [simp]:
  "ActivationHeight main_consensus 0 = 0" "ActivationHeight main_consensus 1 = - 1"
  "ActivationHeight main_consensus (Suc 0) = - 1"
  "ActivationHeight main_consensus 2 = 520000" "ActivationHeight main_consensus 3 = 520000"
  "ActivationHeight main_consensus 4 = 765000" "ActivationHeight main_consensus 5 = 850000"
  "ActivationHeight main_consensus 6 = 916000" "ActivationHeight main_consensus 7 = 1545000"
  "ActivationHeight main_consensus 8 = 1760000" "ActivationHeight main_consensus 9 = 2167200"
  "ActivationHeight main_consensus 10 = 2844000" "ActivationHeight main_consensus 11 = 3125000"
  "ActivationHeight main_consensus 12 = 3270500" "ActivationHeight main_consensus 13 = 3730000"
  by (simp_all add: ActivationHeight_map del: nth_map)

lemma main_upgrades_ok: "params_ok main_consensus" "upgrades_sorted main_consensus"
proof -
  show "params_ok main_consensus" unfolding params_ok_def all_upgrades by simp
  have "\<forall>j < MAX_NETWORK_UPGRADES. \<forall>i < MAX_NETWORK_UPGRADES. i < j \<longrightarrow> ActivationHeight main_consensus j \<noteq> - 1 \<longrightarrow>
      ActivationHeight main_consensus i \<le> ActivationHeight main_consensus j"
    unfolding all_upgrades by simp
  then show "upgrades_sorted main_consensus" unfolding upgrades_sorted_def by (meson less_trans)
qed

lemma pending_after_active:
  assumes "upgrades_sorted p" "i < MAX_NETWORK_UPGRADES" "upgrade_active p h i"
    and k: "ActivationHeight p k \<noteq> - 1" "h < ActivationHeight p k"
  shows "i < k"
proof (rule ccontr)
  assume "\<not> i < k"
  then have "k < i" using assms(3) k by (cases "i = k") (auto simp: upgrade_active_def)
  then have "ActivationHeight p k \<le> ActivationHeight p i"
    using assms(1-3) unfolding upgrades_sorted_def upgrade_active_def by blast
  then show False using assms(3) k by (simp add: upgrade_active_def)
qed

lemma CurrentEpoch_until:
  assumes "0 \<le> h" "params_ok p" "upgrades_sorted p" "h \<le> h'" "(CurrentEpoch h p :: ('e, nat) exec) = Inr i"
    and late: "\<And>k. i < k \<Longrightarrow> k < MAX_NETWORK_UPGRADES \<Longrightarrow> ActivationHeight p k \<noteq> - 1 \<Longrightarrow> h < ActivationHeight p k \<Longrightarrow>
      h' < ActivationHeight p k"
  shows "(CurrentEpoch h' p :: ('e, nat) exec) = Inr i"
proof -
  have "\<forall>j. i < j \<longrightarrow> j < MAX_NETWORK_UPGRADES \<longrightarrow> \<not> upgrade_active p h j"
    using CurrentEpoch_eq [OF assms(1,2), where 'e = 'e] assms(5) by auto
  then show ?thesis
    using CurrentEpoch_const [OF assms(1,2,4,5)] late by (metis not_le upgrade_active_def)
qed

lemma CurrentEpoch_at:
  assumes "0 \<le> ActivationHeight p k" "params_ok p" "k < MAX_NETWORK_UPGRADES"
  shows "\<exists>j \<ge> k. (CurrentEpoch (ActivationHeight p k) p :: ('e, nat) exec) = Inr j"
proof -
  have "upgrade_active p (ActivationHeight p k) k" using assms(1) by (simp add: upgrade_active_def)
  then show ?thesis using CurrentEpoch_eq [OF assms(1,2), where 'e = 'e] assms(3) by (meson not_le)
qed

section \<open>Properties\<close>

text \<open>C32: Epochs. For parameters whose activation heights are in the order of the upgrades, the current epoch
  is an active upgrade, no later upgrade is active, and it never decreases with the height; the next activation height, if
  there is one, is above the height, is the activation height of an upgrade, the epoch stays the same
  until it and is a later one from there on; if there is none, the epoch never changes again.\<close>

theorem epoch_progress:
  assumes "params_ok p" and "upgrades_sorted p" and "0 \<le> h"
  shows "\<exists>i n. (CurrentEpoch h p :: ('e, nat) exec) = Inr i \<and>
    i < MAX_NETWORK_UPGRADES \<and> upgrade_active p h i \<and>
    (\<forall>j. i < j \<longrightarrow> j < MAX_NETWORK_UPGRADES \<longrightarrow> \<not> upgrade_active p h j) \<and>
    (\<forall>h' \<ge> h. \<exists>j \<ge> i. (CurrentEpoch h' p :: ('e, nat) exec) = Inr j) \<and>
    (NextActivationHeight h p :: ('e, int option) exec) = Inr n \<and>
    (case n of
       None \<Rightarrow> \<forall>h' \<ge> h. (CurrentEpoch h' p :: ('e, nat) exec) = Inr i
     | Some a \<Rightarrow> h < a \<and> IsActivationHeightForAnyUpgrade a p \<and>
         (\<forall>h'. h \<le> h' \<longrightarrow> h' < a \<longrightarrow> (CurrentEpoch h' p :: ('e, nat) exec) = Inr i) \<and>
         (\<exists>j > i. (CurrentEpoch a p :: ('e, nat) exec) = Inr j))"
proof -
  let ?pending = "\<lambda>i. ActivationHeight p i \<noteq> - 1 \<and> h < ActivationHeight p i"
  obtain i where i: "(CurrentEpoch h p :: ('e, nat) exec) = Inr i" "i < MAX_NETWORK_UPGRADES" "upgrade_active p h i"
    "\<forall>j. i < j \<longrightarrow> j < MAX_NETWORK_UPGRADES \<longrightarrow> \<not> upgrade_active p h j"
    using CurrentEpoch_eq [OF assms(3,1), where 'e = 'e] by blast
  note mono = CurrentEpoch_mono [OF assms(3,1) _ i(1)]
  note until = CurrentEpoch_until [OF assms(3,1,2) _ i(1)]
  show ?thesis
  proof (cases "find ?pending [1..<MAX_NETWORK_UPGRADES]")
    case None
    then have "\<not> ?pending k" if "i < k" "k < MAX_NETWORK_UPGRADES" for k
      using that by (auto simp: find_None_iff)
    then have "(CurrentEpoch h' p :: ('e, nat) exec) = Inr i" if "h \<le> h'" for h' using until that by blast
    moreover have "(NextActivationHeight h p :: ('e, int option) exec) = Inr None"
      using None assms(3) by (simp add: NextActivationHeight_def NextEpoch_eq)
    ultimately show ?thesis using i mono by (intro exI [of _ i] exI [of _ None]) simp
  next
    case (Some k)
    then have k: "?pending k" "1 \<le> k" "k < MAX_NETWORK_UPGRADES" "\<And>j. 1 \<le> j \<Longrightarrow> j < k \<Longrightarrow> \<not> ?pending j"
      using find_upt_SomeD [OF Some] by auto
    define a where "a = ActivationHeight p k"
    have "a \<le> ActivationHeight p j" if "i < j" "j < MAX_NETWORK_UPGRADES" "?pending j" for j
    proof -
      have "k = j \<or> k < j" using k(4) [of j] that(1,3) by (cases "j < k") auto
      then show ?thesis using assms(2) that(2,3) unfolding a_def upgrades_sorted_def by auto
    qed
    then have "(CurrentEpoch h' p :: ('e, nat) exec) = Inr i" if "h \<le> h'" "h' < a" for h'
      using until [OF that(1)] that(2) by force
    moreover have "i < k" using pending_after_active [OF assms(2) i(2,3)] k(1) by blast
    moreover obtain j where "k \<le> j" "(CurrentEpoch a p :: ('e, nat) exec) = Inr j"
      using CurrentEpoch_at [of p k, where 'e = 'e] k(1,3) assms(1,3) by (auto simp: a_def)
    moreover have "(NextActivationHeight h p :: ('e, int option) exec) = Inr (Some a)"
      using Some assms(3) by (simp add: NextActivationHeight_def NextEpoch_eq a_def)
    moreover have "IsActivationHeightForAnyUpgrade a p" "h < a"
      using k assms(3) by (auto simp: IsActivationHeightForAnyUpgrade_def a_def)
    ultimately show ?thesis using i mono by (intro exI [of _ i] exI [of _ "Some a"]) auto
  qed
qed

theorem epoch_progress_witness:
  "upgrade_active main_consensus 600000 UPGRADE_OVERWINTER \<and>
   (CurrentEpoch 600000 main_consensus :: (unit, nat) exec) = Inr UPGRADE_SAPLING"
proof -
  have "(0 :: int) \<le> 600000" by simp
  from epoch_progress [OF main_upgrades_ok this, where 'e = unit]
  obtain i where i: "(CurrentEpoch 600000 main_consensus :: (unit, nat) exec) = Inr i" "i < MAX_NETWORK_UPGRADES"
    "upgrade_active main_consensus 600000 i"
    "\<forall>j. i < j \<longrightarrow> j < MAX_NETWORK_UPGRADES \<longrightarrow> \<not> upgrade_active main_consensus 600000 j" by blast
  have a: "upgrade_active main_consensus 600000 UPGRADE_OVERWINTER" "upgrade_active main_consensus 600000 UPGRADE_SAPLING"
    by (simp_all add: upgrade_active_def)
  have "\<forall>j < MAX_NETWORK_UPGRADES. UPGRADE_SAPLING < j \<longrightarrow> \<not> upgrade_active main_consensus 600000 j"
    unfolding all_upgrades by (simp add: upgrade_active_def)
  then have "\<not> UPGRADE_SAPLING < i" using i(2,3) by blast
  moreover have "\<not> i < UPGRADE_SAPLING" using i(4) a(2) by auto
  ultimately have "i = UPGRADE_SAPLING" by linarith
  then show ?thesis using i(1) a(1) by simp
qed

text \<open>Branch identifiers. The header documents them as non-zero and \<open>PrevEpochBranchId\<close> as returning 0 if no
  upgrade matches. The upgrade Difa has identifier 0, so the identifier 0 of the launch network is found
  at Difa: its predecessor is reported to be Sapling's identifier.\<close>

theorem prev_branch_of_sprout:
  "PrevEpochBranchId SPROUT_BRANCH_ID = 0x76b809bb \<and>
   nBranchId (NetworkUpgradeInfo ! UPGRADE_DIFA) = SPROUT_BRANCH_ID \<and>
   (CurrentEpochBranchId 800000 main_consensus :: (unit, u32) exec) = Inr SPROUT_BRANCH_ID"
proof (intro conjI)
  show "PrevEpochBranchId SPROUT_BRANCH_ID = 0x76b809bb"
    by (simp add: PrevEpochBranchId_def SPROUT_BRANCH_ID_def NetworkUpgradeInfo_def upt_rec)
  show "nBranchId (NetworkUpgradeInfo ! UPGRADE_DIFA) = SPROUT_BRANCH_ID"
    by (simp add: SPROUT_BRANCH_ID_def NetworkUpgradeInfo_def)
  have "\<forall>j < MAX_NETWORK_UPGRADES. 4 < j \<longrightarrow> \<not> upgrade_active main_consensus 800000 j"
    unfolding all_upgrades by (simp add: upgrade_active_def)
  then have "(CurrentEpoch 800000 main_consensus :: (unit, nat) exec) = Inr 4"
    using main_upgrades_ok(1) by (simp add: CurrentEpoch_iff upgrade_active_def)
  then show "(CurrentEpochBranchId 800000 main_consensus :: (unit, u32) exec) = Inr SPROUT_BRANCH_ID"
    by (simp add: CurrentEpochBranchId_def SPROUT_BRANCH_ID_def NetworkUpgradeInfo_def)
qed

end
