(* ===== verification/Validation.thy ===== *)
theory Validation
  imports Chain_Params
begin

text \<open>
  The validation state of src/src/consensus/validation.h, the destinations of
  src/src/script/standard.h and the reward scripts of src/src/chainparams.cpp. A check of the
  program that fails calls \<open>state.DoS\<close>, \<open>state.Invalid\<close> or \<open>state.Error\<close> and returns false; in the
  model it is the failure \<open>Fail r\<close> with the arguments of that call.
\<close>

section \<open>The validation state\<close>

abbreviation (input) REJECT_MALFORMED :: byte where "REJECT_MALFORMED \<equiv> 0x01"
abbreviation (input) REJECT_INVALID :: byte where "REJECT_INVALID \<equiv> 0x10"
abbreviation (input) REJECT_OBSOLETE :: byte where "REJECT_OBSOLETE \<equiv> 0x11"
abbreviation (input) REJECT_DUPLICATE :: byte where "REJECT_DUPLICATE \<equiv> 0x12"
abbreviation (input) REJECT_TIME_TOO_FAST :: byte where "REJECT_TIME_TOO_FAST \<equiv> 0x13"
abbreviation (input) REJECT_NONSTANDARD :: byte where "REJECT_NONSTANDARD \<equiv> 0x40"
abbreviation (input) REJECT_DUST :: byte where "REJECT_DUST \<equiv> 0x41"
abbreviation (input) REJECT_INSUFFICIENTFEE :: byte where "REJECT_INSUFFICIENTFEE \<equiv> 0x42"
abbreviation (input) REJECT_CHECKPOINT :: byte where "REJECT_CHECKPOINT \<equiv> 0x43"

datatype mode_state = MODE_VALID | MODE_INVALID | MODE_ERROR

record CValidationState =
  vs_mode :: mode_state
  nDoS :: int
  strRejectReason :: string
  chRejectCode :: byte
  corruptionPossible :: bool

definition CValidationState_new :: CValidationState where
  "CValidationState_new =
     \<lparr>vs_mode = MODE_VALID, nDoS = 0, strRejectReason = '''', chRejectCode = 0, corruptionPossible = False\<rparr>"

definition state_DoS :: "CValidationState \<Rightarrow> int \<Rightarrow> byte \<Rightarrow> string \<Rightarrow> bool \<Rightarrow> CValidationState" where
  "state_DoS st level code reason corruption =
     (let st = st\<lparr>chRejectCode := code, strRejectReason := reason, corruptionPossible := corruption\<rparr>
      in if vs_mode st = MODE_ERROR then st else st\<lparr>nDoS := nDoS st + level, vs_mode := MODE_INVALID\<rparr>)"

definition state_Invalid :: "CValidationState \<Rightarrow> byte \<Rightarrow> string \<Rightarrow> CValidationState" where
  "state_Invalid st code reason = state_DoS st 0 code reason False"

definition state_Error :: "CValidationState \<Rightarrow> string \<Rightarrow> CValidationState" where
  "state_Error st reason =
     (if vs_mode st = MODE_VALID then st\<lparr>strRejectReason := reason\<rparr> else st)\<lparr>vs_mode := MODE_ERROR\<rparr>"

definition state_IsInvalid :: "CValidationState \<Rightarrow> int option" where
  "state_IsInvalid st = (if vs_mode st = MODE_INVALID then Some (nDoS st) else None)"

datatype reject = DoS int byte string bool | Error string

abbreviation Invalid :: "byte \<Rightarrow> string \<Rightarrow> reject" where
  "Invalid code reason \<equiv> DoS 0 code reason False"

fun apply_reject :: "CValidationState \<Rightarrow> reject \<Rightarrow> CValidationState" where
  "apply_reject st (DoS level code reason corruption) = state_DoS st level code reason corruption"
| "apply_reject st (Error reason) = state_Error st reason"

type_synonym 'a checked = "(reject, 'a) exec"

text \<open>A check: \<open>if (bad) return state.DoS(...)\<close>.\<close>

definition reject_if :: "bool \<Rightarrow> reject \<Rightarrow> unit checked" where
  "reject_if bad r = (if bad then Inl (Fail r) else Inr ())"

lemma reject_if_simps [simp, exec_simps]:
  "reject_if True r = Inl (Fail r)" "reject_if False r = Inr ()" "reject_if b r = Inr u \<longleftrightarrow> \<not> b"
  by (simp_all add: reject_if_def)

section \<open>Destinations and reward scripts\<close>

datatype CTxDestination = CNoDestination | CKeyID bytes | CScriptID bytes

fun IsValidDestination :: "CTxDestination \<Rightarrow> bool" where
  "IsValidDestination CNoDestination = False"
| "IsValidDestination _ = True"

text \<open>
  \<open>decode\<close> is \<open>KeyIO::DecodeDestination\<close>. The assertions that the address is a script hash come
  before the script is built.
\<close>

definition script_hash_script :: "(string \<Rightarrow> CTxDestination) \<Rightarrow> string \<Rightarrow> ('e, script) exec" where
  "script_hash_script decode address =
     exec_bind (exec_assert (IsValidDestination (decode address))) (\<lambda>_.
     case decode address of
       CScriptID scriptID \<Rightarrow>
         exec_bind (script_push_opcode [] OP_HASH160) (\<lambda>s.
         script_push_opcode (script_push_data s scriptID) OP_EQUAL)
     | _ \<Rightarrow> Inl Abort)"

definition GetFoundersRewardScriptAtHeight ::
    "(string \<Rightarrow> CTxDestination) \<Rightarrow> CChainParams \<Rightarrow> int \<Rightarrow> ('e, script) exec" where
  "GetFoundersRewardScriptAtHeight decode cp nHeight =
     exec_bind (exec_assert (0 < nHeight \<and> nHeight \<le> GetLastFoundersRewardBlockHeight (consensus cp))) (\<lambda>_.
     exec_bind (GetFoundersRewardAddressAtHeight cp nHeight) (script_hash_script decode))"

definition GetTreasuryRewardScriptAtHeight ::
    "(string \<Rightarrow> CTxDestination) \<Rightarrow> CChainParams \<Rightarrow> int \<Rightarrow> ('e, script) exec" where
  "GetTreasuryRewardScriptAtHeight decode cp nHeight =
     exec_bind (GetTreasuryRewardAddressAtHeight cp nHeight) (script_hash_script decode)"

definition GetDevelopersRewardScriptAtHeight ::
    "(string \<Rightarrow> CTxDestination) \<Rightarrow> CChainParams \<Rightarrow> int \<Rightarrow> ('e, script) exec" where
  "GetDevelopersRewardScriptAtHeight decode cp nHeight =
     exec_bind (GetDevelopersRewardAddressAtHeight cp nHeight) (script_hash_script decode)"

text \<open>
  The lists of addresses of a network: not empty, both founders lists of the same length, and every
  address is a script hash.
\<close>

definition reward_addresses_ok :: "(string \<Rightarrow> CTxDestination) \<Rightarrow> CChainParams \<Rightarrow> bool" where
  "reward_addresses_ok decode cp \<longleftrightarrow>
     vFoundersRewardAddress cp \<noteq> [] \<and> vTreasuryRewardAddress cp \<noteq> [] \<and> vDevelopersRewardAddress cp \<noteq> [] \<and>
     length (vFoundersRewardAddress2 cp) = length (vFoundersRewardAddress cp) \<and>
     length (vFoundersRewardAddress cp) \<le> 2 ^ 40 \<and> length (vTreasuryRewardAddress cp) \<le> 2 ^ 40 \<and>
     length (vDevelopersRewardAddress cp) \<le> 2 ^ 40 \<and>
     (\<forall>a \<in> set (vFoundersRewardAddress cp @ vFoundersRewardAddress2 cp @ vTreasuryRewardAddress cp @
        vDevelopersRewardAddress cp). \<exists>i. decode a = CScriptID i)"

lemma script_hash_script_ok:
  "decode a = CScriptID i \<Longrightarrow> \<exists>s. (script_hash_script decode a :: ('e, script) exec) = Inr s"
  by (simp add: script_hash_script_def script_push_opcode_def)

lemma reward_address_index_ok:
  assumes "addrs \<noteq> []" "0 \<le> nSubsidyHalvingInterval (consensus cp) + SubsidySlowStartShift (consensus cp) - 1"
    "nSubsidyHalvingInterval (consensus cp) + SubsidySlowStartShift (consensus cp) + int (length addrs) < 2 ^ 63"
  shows "\<exists>i < length addrs. (reward_address_index cp addrs h :: ('e, nat) exec) = Inr i"
proof -
  let ?n = "int (length addrs)"
  let ?m = "GetFoundersRewardRepeatInterval (consensus cp)"
  have n: "0 < ?n" using assms(1) by simp
  have m: "0 \<le> ?m" "?m + ?n < 2 ^ 64"
    using assms(2,3) by (simp_all add: GetFoundersRewardRepeatInterval_def)
  have u: "to_uint64 (to_uint64 ?m + ?n) = ?m + ?n" using m n by (simp add: to_uint64_id)
  have "?n div ?n \<le> (?m + ?n) div ?n" using m n by (intro zdiv_mono1) auto
  then have i: "(?m + ?n) div ?n \<noteq> 0" using n by auto
  have "nat (x mod ?n) < length addrs" for x
    using n pos_mod_bound [OF n, of x] by (simp add: nat_less_iff pos_mod_sign)
  then show ?thesis using n i assms(1) unfolding reward_address_index_def Let_def u by simp
qed

lemma reward_script_list:
  assumes "addrs \<noteq> []" "length addrs \<le> 2 ^ 40" "consensus cp = main_consensus"
    "\<forall>a \<in> set addrs. \<exists>i. decode a = CScriptID i"
  shows "\<exists>i s. i < length addrs \<and> (reward_address_index cp addrs h :: ('e, nat) exec) = Inr i \<and>
    (script_hash_script decode (addrs ! i) :: ('e, script) exec) = Inr s"
proof -
  have p: "nSubsidyHalvingInterval main_consensus = 2102400" "SubsidySlowStartShift main_consensus = 4000"
    by (simp_all add: main_consensus_def SubsidySlowStartShift_def)
  obtain i where i: "i < length addrs" "(reward_address_index cp addrs h :: ('e, nat) exec) = Inr i"
    using reward_address_index_ok [of addrs cp h, where 'e = 'e] assms(1-3) p by auto
  have "addrs ! i \<in> set addrs" using i(1) by simp
  then obtain d where d: "decode (addrs ! i) = CScriptID d" using assms(4) by blast
  obtain s where "(script_hash_script decode (addrs ! i) :: ('e, script) exec) = Inr s"
    using script_hash_script_ok [of decode "addrs ! i", where 'e = 'e] d by blast
  then show ?thesis using i by blast
qed

lemma reward_scripts_ok:
  assumes "reward_addresses_ok decode cp" "consensus cp = main_consensus" "0 < h"
  shows "h < 2106400 \<Longrightarrow> \<exists>s. (GetFoundersRewardScriptAtHeight decode cp h :: ('e, script) exec) = Inr s"
    "\<exists>s. (GetTreasuryRewardScriptAtHeight decode cp h :: ('e, script) exec) = Inr s"
    "\<exists>s. (GetDevelopersRewardScriptAtHeight decode cp h :: ('e, script) exec) = Inr s"
proof -
  note ok = assms(1) [unfolded reward_addresses_ok_def]
  obtain i s where i: "i < length (vTreasuryRewardAddress cp)"
    "(reward_address_index cp (vTreasuryRewardAddress cp) h :: ('e, nat) exec) = Inr i"
    "(script_hash_script decode (vTreasuryRewardAddress cp ! i) :: ('e, script) exec) = Inr s"
    using reward_script_list [of "vTreasuryRewardAddress cp" cp decode h, where 'e = 'e] ok assms(2) by auto
  then show "\<exists>s. (GetTreasuryRewardScriptAtHeight decode cp h :: ('e, script) exec) = Inr s"
    unfolding GetTreasuryRewardScriptAtHeight_def GetTreasuryRewardAddressAtHeight_def by simp
  obtain i s where i: "i < length (vDevelopersRewardAddress cp)"
    "(reward_address_index cp (vDevelopersRewardAddress cp) h :: ('e, nat) exec) = Inr i"
    "(script_hash_script decode (vDevelopersRewardAddress cp ! i) :: ('e, script) exec) = Inr s"
    using reward_script_list [of "vDevelopersRewardAddress cp" cp decode h, where 'e = 'e] ok assms(2) by auto
  then show "\<exists>s. (GetDevelopersRewardScriptAtHeight decode cp h :: ('e, script) exec) = Inr s"
    unfolding GetDevelopersRewardScriptAtHeight_def GetDevelopersRewardAddressAtHeight_def by simp
  obtain i s where i: "i < length (vFoundersRewardAddress cp)"
    "(reward_address_index cp (vFoundersRewardAddress cp) h :: ('e, nat) exec) = Inr i"
    "(script_hash_script decode (vFoundersRewardAddress cp ! i) :: ('e, script) exec) = Inr s"
    using reward_script_list [of "vFoundersRewardAddress cp" cp decode h, where 'e = 'e] ok assms(2) by auto
  have i2: "i < length (vFoundersRewardAddress2 cp)" using i(1) ok by simp
  then have "vFoundersRewardAddress2 cp ! i \<in> set (vFoundersRewardAddress2 cp)" by simp
  then obtain d where "decode (vFoundersRewardAddress2 cp ! i) = CScriptID d" using ok by auto
  then obtain s2 where s2: "(script_hash_script decode (vFoundersRewardAddress2 cp ! i) :: ('e, script) exec) = Inr s2"
    using script_hash_script_ok [of decode "vFoundersRewardAddress2 cp ! i", where 'e = 'e] by blast
  assume h: "h < 2106400"
  have g: "0 < h \<and> h \<le> GetLastFoundersRewardBlockHeight (consensus cp)"
    using assms(2,3) h by (simp add: GetLastFoundersRewardBlockHeight_def main_consensus_def SubsidySlowStartShift_def)
  show "\<exists>s. (GetFoundersRewardScriptAtHeight decode cp h :: ('e, script) exec) = Inr s"
    using g i i2 s2 unfolding GetFoundersRewardScriptAtHeight_def GetFoundersRewardAddressAtHeight_def by simp
qed

end
