(* ===== verification/Coins_Tx.thy ===== *)
theory Coins_Tx
  imports Coins Validation
begin

text \<open>
  Transactions and the coins view: the questions about a transaction in src/src/coins.cpp, the checks of
  its inputs, spending them and adding the outputs, and taking this back with the undo records of
  src/src/undo.h, from src/src/main.cpp. The loop of \<open>DisconnectBlock\<close> is that of a node without the
  optional address and spent indexes. Amounts are integers. The commitment trees are values of the type
  \<open>'t\<close>; appending to a full tree throws.
\<close>

section \<open>Questions\<close>

definition AccessCoins :: "'t CCoinsView \<Rightarrow> bytes \<Rightarrow> CCoins option \<times> 't CCoinsView" where
  "AccessCoins v txid = GetCoins v txid"

definition GetOutputFor :: "'t CCoinsView \<Rightarrow> CTxIn \<Rightarrow> ('e, CTxOut \<times> 't CCoinsView) exec" where
  "GetOutputFor v input =
     (let (coins, v) = AccessCoins v (op_hash (prevout input)); n = op_n (prevout input)
      in exec_bind (exec_assert (coins \<noteq> None \<and> IsAvailable (the coins) n)) (\<lambda>_.
         Inr (co_vout (the coins) ! unat n, v)))"

fun value_in_loop :: "int \<Rightarrow> 't CCoinsView \<Rightarrow> CTxIn list \<Rightarrow> ('e, int \<times> 't CCoinsView) exec" where
  "value_in_loop nResult v [] = Inr (nResult, v)"
| "value_in_loop nResult v (i # is) =
     exec_bind (GetOutputFor v i) (\<lambda>(out, v). value_in_loop (nResult + nValue out) v is)"

definition GetValueIn :: "'t CCoinsView \<Rightarrow> CTransaction \<Rightarrow> ('e, int \<times> 't CCoinsView) exec" where
  "GetValueIn v tx =
     (if IsCoinBase tx then Inr (0, v)
      else exec_bind (value_in_loop 0 v (vin tx)) (\<lambda>(nResult, v).
           exec_bind (GetShieldedValueIn tx) (\<lambda>shielded. Inr (nResult + shielded, v))))"

fun have_inputs_loop :: "'t CCoinsView \<Rightarrow> CTxIn list \<Rightarrow> bool \<times> 't CCoinsView" where
  "have_inputs_loop v [] = (True, v)"
| "have_inputs_loop v (i # is) =
     (case AccessCoins v (op_hash (prevout i)) of
        (coins, v) \<Rightarrow>
          if coins = None \<or> \<not> IsAvailable (the coins) (op_n (prevout i)) then (False, v) else have_inputs_loop v is)"

definition HaveInputs :: "'t CCoinsView \<Rightarrow> CTransaction \<Rightarrow> bool \<times> 't CCoinsView" where
  "HaveInputs v tx = (if IsCoinBase tx then (True, v) else have_inputs_loop v (vin tx))"

datatype UnsatisfiedShieldedReq =
  SproutDuplicateNullifier | SproutUnknownAnchor | SaplingDuplicateNullifier | SaplingUnknownAnchor

fun any_nullifier :: "'t CCoinsView \<Rightarrow> ShieldedType \<Rightarrow> bytes list \<Rightarrow> bool \<times> 't CCoinsView" where
  "any_nullifier v type [] = (False, v)"
| "any_nullifier v type (nf # nfs) =
     (case GetNullifier v type nf of (spent, v) \<Rightarrow> if spent then (True, v) else any_nullifier v type nfs)"

fun append_all :: "'t TreeOps \<Rightarrow> 't \<Rightarrow> bytes list \<Rightarrow> ('e, 't) exec" where
  "append_all ops tree [] = Inr tree"
| "append_all ops tree (c # cs) =
     (case tree_append ops SPROUT tree c of None \<Rightarrow> Inl Throw | Some tree \<Rightarrow> append_all ops tree cs)"

text \<open>A JoinSplit may use the tree of an earlier one of the same transaction as its anchor.\<close>

fun joinsplit_reqs ::
    "'t TreeOps \<Rightarrow> (bytes \<times> 't) list \<Rightarrow> 't CCoinsView \<Rightarrow> JSDescription list \<Rightarrow>
     ('e, UnsatisfiedShieldedReq option \<times> 't CCoinsView) exec" where
  "joinsplit_reqs ops intermediates v [] = Inr (None, v)"
| "joinsplit_reqs ops intermediates v (js # jss) =
     (case any_nullifier v SPROUT (js_nullifiers js) of
        (True, v) \<Rightarrow> Inr (Some SproutDuplicateNullifier, v)
      | (False, v) \<Rightarrow>
          (case (case map_of intermediates (js_anchor js) of
                   Some tree \<Rightarrow> (Some tree, v)
                 | None \<Rightarrow> GetAnchorAt ops v SPROUT (js_anchor js)) of
             (None, v) \<Rightarrow> Inr (Some SproutUnknownAnchor, v)
           | (Some tree, v) \<Rightarrow>
               exec_bind (append_all ops tree (commitments js)) (\<lambda>tree.
               joinsplit_reqs ops (intermediates @ [(tree_root ops SPROUT tree, tree)]) v jss)))"

fun spend_reqs ::
    "'t TreeOps \<Rightarrow> 't CCoinsView \<Rightarrow> SpendDescription list \<Rightarrow> UnsatisfiedShieldedReq option \<times> 't CCoinsView" where
  "spend_reqs ops v [] = (None, v)"
| "spend_reqs ops v (sd # sds) =
     (case GetNullifier v SAPLING (nullifier sd) of
        (True, v) \<Rightarrow> (Some SaplingDuplicateNullifier, v)
      | (False, v) \<Rightarrow>
          (case GetAnchorAt ops v SAPLING (sd_anchor sd) of
             (None, v) \<Rightarrow> (Some SaplingUnknownAnchor, v)
           | (Some _, v) \<Rightarrow> spend_reqs ops v sds))"

definition HaveShieldedRequirements ::
    "'t TreeOps \<Rightarrow> 't CCoinsView \<Rightarrow> CTransaction \<Rightarrow> ('e, UnsatisfiedShieldedReq option \<times> 't CCoinsView) exec" where
  "HaveShieldedRequirements ops v tx =
     exec_bind (joinsplit_reqs ops [] v (vjoinsplit tx)) (\<lambda>(r, v).
     Inr (if r \<noteq> None then (r, v) else spend_reqs ops v (vShieldedSpend tx)))"

section \<open>Checking the inputs\<close>

fun ShieldedReqRejectCode :: "UnsatisfiedShieldedReq \<Rightarrow> byte" where
  "ShieldedReqRejectCode SproutDuplicateNullifier = REJECT_DUPLICATE"
| "ShieldedReqRejectCode SaplingDuplicateNullifier = REJECT_DUPLICATE"
| "ShieldedReqRejectCode SproutUnknownAnchor = REJECT_INVALID"
| "ShieldedReqRejectCode SaplingUnknownAnchor = REJECT_INVALID"

fun ShieldedReqRejectReason :: "UnsatisfiedShieldedReq \<Rightarrow> string" where
  "ShieldedReqRejectReason SproutDuplicateNullifier = ''bad-txns-sprout-duplicate-nullifier''"
| "ShieldedReqRejectReason SproutUnknownAnchor = ''bad-txns-sprout-unknown-anchor''"
| "ShieldedReqRejectReason SaplingDuplicateNullifier = ''bad-txns-sapling-duplicate-nullifier''"
| "ShieldedReqRejectReason SaplingUnknownAnchor = ''bad-txns-sapling-unknown-anchor''"

definition COINBASE_MATURITY :: int where
  "COINBASE_MATURITY = 100"

text \<open>An index out of range aborts; the sum is checked after each input.\<close>

fun check_inputs_loop ::
    "bool \<Rightarrow> int \<Rightarrow> CTransaction \<Rightarrow> int \<Rightarrow> 't CCoinsView \<Rightarrow> CTxIn list \<Rightarrow> (int \<times> 't CCoinsView) checked" where
  "check_inputs_loop protected nSpendHeight tx nValueIn v [] = Inr (nValueIn, v)"
| "check_inputs_loop protected nSpendHeight tx nValueIn v (i # is) =
     (case AccessCoins v (op_hash (prevout i)) of
        (None, v) \<Rightarrow> Inl Abort
      | (Some coins, v) \<Rightarrow>
          exec_bind (reject_if (fCoinBase coins \<and> nSpendHeight - co_nHeight coins < COINBASE_MATURITY)
            (Invalid REJECT_INVALID ''bad-txns-premature-spend-of-coinbase'')) (\<lambda>_.
          exec_bind (reject_if (fCoinBase coins \<and> protected \<and> vout tx \<noteq> [])
            (Invalid REJECT_INVALID ''bad-txns-coinbase-spend-has-transparent-outputs'')) (\<lambda>_.
          exec_bind (exec_assert (unat (op_n (prevout i)) < length (co_vout coins))) (\<lambda>_.
          let value = nValue (co_vout coins ! unat (op_n (prevout i))); nValueIn = nValueIn + value in
          exec_bind (reject_if (\<not> MoneyRange value \<or> \<not> MoneyRange nValueIn)
            (DoS 100 REJECT_INVALID ''bad-txns-inputvalues-outofrange'' False)) (\<lambda>_.
          check_inputs_loop protected nSpendHeight tx nValueIn v is)))))"

definition CheckTxInputs ::
    "'t TreeOps \<Rightarrow> CTransaction \<Rightarrow> 't CCoinsView \<Rightarrow> int \<Rightarrow> ConsensusParams \<Rightarrow> bool \<Rightarrow> 't CCoinsView checked" where
  "CheckTxInputs ops tx inputs nSpendHeight params fCoinbaseEnforcedProtectionEnabled =
     (let (have, inputs) = HaveInputs inputs tx in
      exec_bind (reject_if (\<not> have) (Invalid 0 [])) (\<lambda>_.
      exec_bind (HaveShieldedRequirements ops inputs tx) (\<lambda>(unmet, inputs).
      exec_bind (case unmet of None \<Rightarrow> Inr ()
                 | Some r \<Rightarrow> Inl (Fail (Invalid (ShieldedReqRejectCode r) (ShieldedReqRejectReason r)))) (\<lambda>_.
      exec_bind (check_inputs_loop (fCoinbaseEnforcedProtectionEnabled \<and> fCoinbaseMustBeProtected params) nSpendHeight tx
                   0 inputs (vin tx)) (\<lambda>(nValueIn, inputs).
      exec_bind (GetShieldedValueIn tx) (\<lambda>shielded.
      let nValueIn = nValueIn + shielded in
      exec_bind (reject_if (\<not> MoneyRange nValueIn) (DoS 100 REJECT_INVALID ''bad-txns-inputvalues-outofrange'' False)) (\<lambda>_.
      exec_bind (GetValueOut tx) (\<lambda>nValueOut.
      exec_bind (reject_if (nValueIn < nValueOut) (DoS 100 REJECT_INVALID ''bad-txns-in-belowout'' False)) (\<lambda>_.
      let nTxFee = nValueIn - nValueOut in
      exec_bind (reject_if (nTxFee < 0) (DoS 100 REJECT_INVALID ''bad-txns-fee-negative'' False)) (\<lambda>_.
      exec_bind (reject_if (\<not> MoneyRange nTxFee) (DoS 100 REJECT_INVALID ''bad-txns-fee-outofrange'' False)) (\<lambda>_.
      Inr inputs)))))))))))"

section \<open>Connecting\<close>

record CTxInUndo =
  un_txout :: CTxOut
  un_fCoinBase :: bool
  un_nHeight :: u32
  un_nVersion :: int

definition spend_coin :: "u32 \<Rightarrow> CCoins \<Rightarrow> ('e, CTxInUndo \<times> CCoins) exec" where
  "spend_coin nPos coins =
     (if length (co_vout coins) \<le> unat nPos \<or> CTxOut_IsNull (co_vout coins ! unat nPos) then Inl Abort
      else let undo = \<lparr>un_txout = co_vout coins ! unat nPos, un_fCoinBase = False, un_nHeight = 0, un_nVersion = 0\<rparr>;
               coins = fst (Spend coins nPos)
           in Inr (if length (co_vout coins) = 0
                   then undo\<lparr>un_nHeight := word_of_int (co_nHeight coins), un_fCoinBase := fCoinBase coins,
                             un_nVersion := co_nVersion coins\<rparr>
                   else undo, coins))"

fun spend_inputs :: "'t CCoinsView \<Rightarrow> CTxIn list \<Rightarrow> ('e, CTxInUndo list \<times> 't CCoinsView) exec" where
  "spend_inputs inputs [] = Inr ([], inputs)"
| "spend_inputs inputs (txin # rest) =
     exec_bind (ModifyCoins inputs (op_hash (prevout txin)) (spend_coin (op_n (prevout txin)))) (\<lambda>(undo, inputs).
     exec_bind (spend_inputs inputs rest) (\<lambda>(undos, inputs). Inr (undo # undos, inputs)))"

definition UpdateCoins :: "CTransaction \<Rightarrow> 't CCoinsView \<Rightarrow> int \<Rightarrow> ('e, CTxInUndo list \<times> 't CCoinsView) exec" where
  "UpdateCoins tx inputs nHeight =
     exec_bind (if IsCoinBase tx then Inr ([], inputs) else spend_inputs inputs (vin tx)) (\<lambda>(txundo, inputs).
     exec_bind (SetNullifiers inputs tx True) (\<lambda>inputs.
     exec_bind (ModifyCoins inputs (CTransaction_GetHash tx) (\<lambda>_. Inr ((), FromTx tx nHeight))) (\<lambda>(_, inputs).
     Inr (txundo, inputs))))"

text \<open>What the loop of \<open>ConnectBlock\<close> does to the view: every transaction but the first leaves an undo record.\<close>

fun update_txs :: "int \<Rightarrow> 't CCoinsView \<Rightarrow> CTransaction list \<Rightarrow> ('e, CTxInUndo list list \<times> 't CCoinsView) exec" where
  "update_txs nHeight view [] = Inr ([], view)"
| "update_txs nHeight view (tx # txs) =
     exec_bind (UpdateCoins tx view nHeight) (\<lambda>(undo, view).
     exec_bind (update_txs nHeight view txs) (\<lambda>(vtxundo, view). Inr (undo # vtxundo, view)))"

definition connect_coins :: "int \<Rightarrow> 't CCoinsView \<Rightarrow> CTransaction list \<Rightarrow> ('e, CTxInUndo list list \<times> 't CCoinsView) exec" where
  "connect_coins nHeight view vtx =
     (case vtx of
        [] \<Rightarrow> Inr ([], view)
      | tx # txs \<Rightarrow> exec_bind (UpdateCoins tx view nHeight) (\<lambda>(undoDummy, view). update_txs nHeight view txs))"

section \<open>Disconnecting\<close>

definition unspend_coin :: "CTxInUndo \<Rightarrow> u32 \<Rightarrow> CCoins \<Rightarrow> ('e, bool \<times> CCoins) exec" where
  "unspend_coin undo n coins =
     (let (fClean, coins) =
        (if un_nHeight undo \<noteq> 0
         then (IsPruned coins, CCoins_Clear\<lparr>fCoinBase := un_fCoinBase undo, co_nHeight := sint (un_nHeight undo),
                                             co_nVersion := un_nVersion undo\<rparr>)
         else (\<not> IsPruned coins, coins));
          fClean = (fClean \<and> \<not> IsAvailable coins n);
          size = unat (n + 1);
          coins = (if length (co_vout coins) < size
                   then coins\<lparr>co_vout := co_vout coins @ replicate (size - length (co_vout coins)) CTxOut_null\<rparr>
                   else coins)
      in if unat n < length (co_vout coins)
         then Inr (fClean, coins\<lparr>co_vout := (co_vout coins)[unat n := un_txout undo]\<rparr>)
         else Inl Abort)"

definition ApplyTxInUndo :: "CTxInUndo \<Rightarrow> 't CCoinsView \<Rightarrow> COutPoint \<Rightarrow> ('e, bool \<times> 't CCoinsView) exec" where
  "ApplyTxInUndo undo view out = ModifyCoins view (op_hash out) (unspend_coin undo (op_n out))"

definition remove_outputs :: "CTransaction \<Rightarrow> int \<Rightarrow> CCoins \<Rightarrow> ('e, bool \<times> CCoins) exec" where
  "remove_outputs tx nHeight outs =
     (let outs = ClearUnspendable outs; outsBlock = FromTx tx nHeight;
          outs = (if co_nVersion outsBlock < 0 then outs\<lparr>co_nVersion := co_nVersion outsBlock\<rparr> else outs)
      in Inr (CCoins_eq outs outsBlock, CCoins_Clear))"

text \<open>The pairs of an undo record and an input, from the last input to the first.\<close>

fun restore_inputs :: "'t CCoinsView \<Rightarrow> (CTxInUndo \<times> CTxIn) list \<Rightarrow> ('e, bool \<times> 't CCoinsView) exec" where
  "restore_inputs view [] = Inr (True, view)"
| "restore_inputs view ((undo, txin) # rest) =
     exec_bind (ApplyTxInUndo undo view (prevout txin)) (\<lambda>(clean, view).
     exec_bind (restore_inputs view rest) (\<lambda>(cleans, view). Inr (clean \<and> cleans, view)))"

definition disconnect_outputs :: "int \<Rightarrow> 't CCoinsView \<Rightarrow> CTransaction \<Rightarrow> ('e, bool \<times> 't CCoinsView) exec" where
  "disconnect_outputs nHeight view tx =
     exec_bind (ModifyCoins view (CTransaction_GetHash tx) (remove_outputs tx nHeight)) (\<lambda>(clean, view).
     exec_bind (SetNullifiers view tx False) (\<lambda>view. Inr (clean, view)))"

definition disconnect_tx ::
    "int \<Rightarrow> 't CCoinsView \<Rightarrow> CTxInUndo list \<Rightarrow> CTransaction \<Rightarrow> (string, bool \<times> 't CCoinsView) exec" where
  "disconnect_tx nHeight view txundo tx =
     exec_bind (disconnect_outputs nHeight view tx) (\<lambda>(clean, view).
     if length txundo \<noteq> length (vin tx)
     then Inl (Fail ''transaction and undo data inconsistent'')
     else exec_bind (restore_inputs view (rev (zip txundo (vin tx)))) (\<lambda>(cleans, view). Inr (clean \<and> cleans, view)))"

fun disconnect_txs ::
    "int \<Rightarrow> 't CCoinsView \<Rightarrow> (CTxInUndo list \<times> CTransaction) list \<Rightarrow> (string, bool \<times> 't CCoinsView) exec" where
  "disconnect_txs nHeight view [] = Inr (True, view)"
| "disconnect_txs nHeight view ((txundo, tx) # rest) =
     exec_bind (disconnect_tx nHeight view txundo tx) (\<lambda>(clean, view).
     exec_bind (disconnect_txs nHeight view rest) (\<lambda>(cleans, view). Inr (clean \<and> cleans, view)))"

text \<open>The transactions from the last to the first; the first one has no inputs to restore.\<close>

definition disconnect_coins ::
    "int \<Rightarrow> 't CCoinsView \<Rightarrow> CTxInUndo list list \<Rightarrow> CTransaction list \<Rightarrow> (string, bool \<times> 't CCoinsView) exec" where
  "disconnect_coins nHeight view vtxundo vtx =
     (if length vtxundo + 1 \<noteq> length vtx then Inl (Fail ''block and undo data inconsistent'')
      else exec_bind (disconnect_txs nHeight view (rev (zip vtxundo (tl vtx)))) (\<lambda>(cleans, view).
           exec_bind (disconnect_outputs nHeight view (hd vtx)) (\<lambda>(clean, view). Inr (clean \<and> cleans, view))))"

end
