(* ===== verification/Script_Num.thy ===== *)
theory Script_Num
  imports Script
begin

text \<open>
  The number format of scripts (\<open>CScriptNum\<close>, src/src/script/script.h): little-endian
  sign-magnitude byte strings. The encoder and the decoder are inverse to each other on
  minimally encoded strings, and an operand of at most four bytes lies strictly between
  \<open>-2^31\<close> and \<open>2^31\<close>, which is why the arithmetic opcodes cannot overflow.
\<close>


section \<open>Bytes and sign bits\<close>

lemma byte_sign_bit: "(b :: byte) AND 0x80 = 0 \<longleftrightarrow> unat b < 128"
proof -
  have "b AND 0x80 = 0 \<longleftrightarrow> \<not> bit b 7"
    using and_exp_eq_0_iff_not_bit [of b 7] by simp
  also have "bit b 7 \<longleftrightarrow> odd (unat b div 2 ^ 7)"
    using bit_iff_odd [of "unat b" 7] by (simp add: bit_unsigned_iff)
  also have "odd (unat b div 2 ^ 7) \<longleftrightarrow> \<not> unat b < 128"
  proof -
    have "unat b div 128 < 2" by (simp add: less_mult_imp_div_less)
    then show ?thesis by (auto simp: div_eq_0_iff less_2_cases_iff)
  qed
  finally show ?thesis by simp
qed

lemma unat_byte_low7: "unat ((b :: byte) AND 0x7f) = unat b mod 128"
proof -
  have "b AND 0x7f = take_bit 7 b"
    by (simp add: take_bit_eq_mask mask_eq_exp_minus_1)
  then show ?thesis by (simp add: unsigned_take_bit_eq take_bit_eq_mod unat_mod_distrib)
qed

lemma unat_byte_set_sign: "unat (b :: byte) < 128 \<Longrightarrow> unat (b OR 0x80) = unat b + 128"
proof -
  assume "unat b < 128"
  then have "b AND 0x80 = 0" by (simp add: byte_sign_bit)
  then have "b OR 0x80 = b + 0x80" by (simp add: disjunctive_add_eq_or)
  then show ?thesis using \<open>unat b < 128\<close> by (simp add: unat_word_ariths)
qed

lemma unat_byte_mod128: "unat (b :: byte) mod 128 = (if unat b < 128 then unat b else unat b - 128)"
proof -
  have "unat b - 128 < 128" using unat_byte_less [of b] by linarith
  then show ?thesis by (simp add: le_mod_geq not_less)
qed

lemma byte_zero_iff: "(b :: byte) = 0 \<longleftrightarrow> unat b = 0"
  by (simp add: unat_eq_0)

section \<open>set\_vch\<close>

lemma set_vch_sum_snoc:
  "set_vch_sum (xs @ [b]) = set_vch_sum xs OR push_bit (8 * length xs) (ucast b)"
proof -
  have "foldl (\<lambda>r i. r OR push_bit (8 * i) (ucast ((xs @ [b]) ! i))) 0 [0..<length xs] =
      (set_vch_sum xs :: u64)"
    unfolding set_vch_sum_def by (rule foldl_cong) (auto simp: nth_append)
  then show ?thesis by (simp add: set_vch_sum_def nth_append)
qed

lemma bit_le_nat_bound: "bit (le_nat xs) k \<Longrightarrow> k < 8 * length xs"
proof (rule ccontr)
  assume b: "bit (le_nat xs) k" and "\<not> k < 8 * length xs"
  then have "(256 :: nat) ^ length xs \<le> 2 ^ k"
    using power_increasing [of "8 * length xs" k "2 :: nat"] by (simp add: power_mult)
  with le_nat_less [of xs] have "le_nat xs < 2 ^ k" by simp
  with b show False by (simp add: bit_iff_odd)
qed

lemma set_vch_sum_eq: "length vch \<le> 8 \<Longrightarrow> set_vch_sum vch = of_nat (le_nat vch)"
proof (induction vch rule: rev_induct)
  case Nil
  then show ?case by (simp add: set_vch_sum_def)
next
  case (snoc b xs)
  let ?n = "8 * length xs"
  have "(of_nat (le_nat xs) :: u64) AND push_bit ?n (ucast b) = 0"
    by (rule bit_eqI) (auto simp: bit_simps dest: bit_le_nat_bound)
  then have "set_vch_sum (xs @ [b]) = of_nat (le_nat xs) + push_bit ?n (ucast b)"
    using snoc by (simp add: set_vch_sum_snoc disjunctive_add_eq_or)
  also have "(push_bit ?n (ucast b) :: u64) = of_nat (2 ^ ?n * unat b)"
    by (simp add: push_bit_eq_mult mult.commute)
  finally show ?case
    by (simp add: le_nat_append power_mult)
qed

text \<open>The number a byte string stands for: the low seven bits of the last byte are its
  most significant ones and the eighth is the sign.\<close>

definition scriptnum_val :: "bytes \<Rightarrow> int" where
  "scriptnum_val vch =
     (let m = int (le_nat (butlast vch @ [last vch AND 0x7f]))
      in if unat (last vch) < 128 then m else - m)"

lemma le_nat_low7_less:
  assumes "vch \<noteq> []"
  shows "2 * le_nat (butlast vch @ [last vch AND 0x7f]) < 256 ^ length vch"
proof -
  have "2 * le_nat (butlast vch @ [last vch AND 0x7f]) =
      2 * le_nat (butlast vch) + 256 ^ (length vch - 1) * (2 * (unat (last vch) mod 128))"
    by (simp add: le_nat_append unat_byte_low7)
  also have "\<dots> < 2 * 256 ^ (length vch - 1) + 256 ^ (length vch - 1) * (2 * (unat (last vch) mod 128))"
    using le_nat_less [of "butlast vch"] by simp
  also have "\<dots> = 256 ^ (length vch - 1) * (2 * Suc (unat (last vch) mod 128))"
    by (simp add: algebra_simps)
  also have "\<dots> \<le> 256 ^ (length vch - 1) * 256"
    by (rule mult_le_mono2) (simp add: Suc_leI)
  also have "\<dots> = 256 ^ length vch"
    using assms by (cases vch rule: rev_cases) auto
  finally show ?thesis .
qed

lemma CScriptNum_set_vch_eq:
  assumes "vch \<noteq> []" "length vch \<le> 8"
  shows "CScriptNum_set_vch vch = Inr (scriptnum_val vch)"
proof -
  obtain xs b where v: "vch = xs @ [b]" using assms(1) by (cases vch rule: rev_cases) auto
  let ?c = "b AND 0x7f"
  have l: "length (xs @ [?c]) \<le> 8" using assms(2) v by simp
  have "2 * le_nat (xs @ [?c]) < 256 ^ 8"
    using le_nat_low7_less [OF assms(1)] v
      power_increasing [OF assms(2), of "256 :: nat"] by simp
  then have m: "le_nat (xs @ [?c]) < 2 ^ 63" by simp
  have sint_m: "sint (of_nat (le_nat (xs @ [?c])) :: u64) = int (le_nat (xs @ [?c]))"
    using m by (simp add: signed_of_nat signed_take_bit_int_eq_self)
  have n9: "vch \<noteq> [0, 0, 0, 0, 0, 0, 0, 128, 128]" using assms(2) by auto
  show ?thesis
  proof (cases "unat b < 128")
    case True
    then have "?c = b" by (simp add: word_unat_eq_iff unat_byte_low7)
    moreover have "set_vch_sum (xs @ [b]) = of_nat (le_nat (xs @ [b]))"
      using l by (intro set_vch_sum_eq) simp
    ultimately show ?thesis
      using True assms v n9 sint_m
      by (simp add: CScriptNum_set_vch_def scriptnum_val_def byte_sign_bit)
  next
    case False
    have s: "set_vch_sum xs = of_nat (le_nat xs)"
      using l by (intro set_vch_sum_eq) simp
    have n: "\<not> bit (set_vch_sum xs) k" if "8 * length xs \<le> k" for k
      using that bit_le_nat_bound [of xs k] by (auto simp: s bit_simps)
    have "set_vch_sum (xs @ [b]) AND NOT (push_bit (8 * length xs) 0x80) = set_vch_sum (xs @ [?c])"
    proof (rule bit_eqI)
      fix k
      have "bit (0x80 :: u64) j \<longleftrightarrow> j = 7" for j
        using bit_exp_iff [of 7 j, where ?'a = u64] by auto
      moreover have "bit (0x7f :: byte) j \<longleftrightarrow> j < 7" for j
        using bit_mask_iff [of 7 j, where ?'a = byte] by (auto simp: mask_eq_exp_minus_1)
      moreover have "bit b j \<Longrightarrow> j \<noteq> 7 \<Longrightarrow> j < 7" for j
        by (drule bit_imp_le_length) simp
      moreover have "bit (set_vch_sum xs) j \<Longrightarrow> j < 64" for j
        by (drule bit_imp_le_length) simp
      ultimately show "bit (set_vch_sum (xs @ [b]) AND NOT (push_bit (8 * length xs) 0x80)) k =
          bit (set_vch_sum (xs @ [?c])) k"
        using n [of k] unfolding set_vch_sum_snoc
        by (cases "8 * length xs \<le> k")
          (auto simp: bit_simps less_Suc_eq dest: spec [of _ "k - 8 * length xs"])
    qed
    moreover have "set_vch_sum (xs @ [?c]) = of_nat (le_nat (xs @ [?c]))"
      by (rule set_vch_sum_eq [OF l])
    ultimately show ?thesis
      using False assms v n9 sint_m
      by (simp add: CScriptNum_set_vch_def scriptnum_val_def byte_sign_bit)
  qed
qed


section \<open>serialize\<close>

lemma serialize_abs_0 [simp]: "serialize_abs 0 = []"
  by (simp add: serialize_abs.simps)

lemma serialize_abs_pos: "0 < n \<Longrightarrow> serialize_abs n = of_nat (n mod 256) # serialize_abs (n div 256)"
  by (subst serialize_abs.simps) simp

lemma serialize_abs_Nil_iff [simp]: "serialize_abs n = [] \<longleftrightarrow> n = 0"
  by (cases "n = 0") (auto simp: serialize_abs_pos)

lemma le_nat_serialize_abs [simp]: "le_nat (serialize_abs n) = n"
proof (induction n rule: serialize_abs.induct)
  case (1 n)
  then show ?case
    by (cases "n = 0") (simp_all add: serialize_abs_pos unat_of_nat_byte)
qed

lemma last_serialize_abs: "0 < n \<Longrightarrow> last (serialize_abs n) \<noteq> 0"
proof (induction n rule: serialize_abs.induct)
  case (1 n)
  then show ?case
    by (cases "n div 256 = 0")
      (auto simp: serialize_abs_pos byte_zero_iff unat_of_nat_byte div_eq_0_iff)
qed

lemma serialize_abs_le_nat: "v = [] \<or> last v \<noteq> 0 \<Longrightarrow> serialize_abs (le_nat v) = v"
proof (induction v)
  case (Cons b v)
  show ?case
  proof (cases "v = []")
    case True
    then show ?thesis using Cons.prems
      by (auto simp: serialize_abs_pos byte_zero_iff)
  next
    case False
    then have IH: "serialize_abs (le_nat v) = v" using Cons by simp
    then have "0 < le_nat v" using False by (metis gr0I serialize_abs_0)
    then show ?thesis using IH by (simp add: serialize_abs_pos)
  qed
qed simp

lemma length_serialize_abs: "n < 256 ^ k \<Longrightarrow> length (serialize_abs n) \<le> k"
proof (induction k arbitrary: n)
  case (Suc k)
  then have "n div 256 < 256 ^ k" by (simp add: less_mult_imp_div_less mult.commute)
  with Suc.IH show ?case by (cases "n = 0") (auto simp: serialize_abs_pos)
qed simp

text \<open>The shape of an encoding: magnitude bytes, then the sign folded in or added.\<close>

lemma serialize_cases:
  assumes "val \<noteq> 0" "val \<noteq> INT64_MIN"
  defines "r \<equiv> serialize_abs (nat \<bar>val\<bar>)"
  obtains (ext) "128 \<le> unat (last r)"
      "CScriptNum_serialize val = r @ [if val < 0 then 0x80 else 0]"
    | (fold) "unat (last r) < 128" "last r \<noteq> 0"
      "CScriptNum_serialize val = butlast r @ [if val < 0 then last r OR 0x80 else last r]"
proof -
  have a: "nat (if val < 0 then - val else val) = nat \<bar>val\<bar>" by simp
  have ne: "r \<noteq> []" and l0: "last r \<noteq> 0"
    using assms last_serialize_abs [of "nat \<bar>val\<bar>"] by auto
  have ser: "CScriptNum_serialize val =
      (if last r AND 0x80 \<noteq> 0 then r @ [if val < 0 then 0x80 else 0]
       else if val < 0 then butlast r @ [last r OR 0x80] else r)"
    unfolding CScriptNum_serialize_def Let_def a r_def using assms(1,2) by simp
  show thesis
  proof (cases "unat (last r) < 128")
    case True
    then show thesis
      using ne l0 ser by (intro fold) (auto simp: byte_sign_bit)
  next
    case False
    then show thesis
      using ser by (intro ext) (auto simp: byte_sign_bit)
  qed
qed

lemma scriptnum_val_snoc:
  "scriptnum_val (xs @ [b]) =
     (let m = int (le_nat xs + 256 ^ length xs * (unat b mod 128))
      in if unat b < 128 then m else - m)"
  by (simp add: scriptnum_val_def le_nat_append unat_byte_low7)

lemma scriptnum_val_serialize:
  assumes "val \<noteq> 0" "val \<noteq> INT64_MIN"
  shows "scriptnum_val (CScriptNum_serialize val) = val"
proof -
  let ?r = "serialize_abs (nat \<bar>val\<bar>)"
  have ne: "?r \<noteq> []" using assms by simp
  have split: "le_nat (butlast ?r) + 256 ^ length (butlast ?r) * unat (last ?r) = nat \<bar>val\<bar>"
    using le_nat_append [of "butlast ?r" "[last ?r]"] ne by (simp del: length_butlast)
  have split: "int (le_nat (butlast ?r) + 256 ^ length (butlast ?r) * unat (last ?r)) = \<bar>val\<bar>"
    unfolding split by simp
  from assms show ?thesis
  proof (cases rule: serialize_cases)
    case ext
    then show ?thesis by (auto simp: scriptnum_val_snoc)
  next
    case fold
    then show ?thesis
      using split
      by (auto simp: scriptnum_val_snoc unat_byte_set_sign Let_def
          simp del: length_butlast of_nat_add of_nat_mult)
  qed
qed

lemma length_serialize:
  assumes "0 < k" "\<bar>val\<bar> < 2 ^ (8 * k - 1)"
  shows "length (CScriptNum_serialize val) \<le> k \<or> val = INT64_MIN"
proof (cases "val = 0 \<or> val = INT64_MIN")
  case True
  then show ?thesis by (auto simp: CScriptNum_serialize_def)
next
  case False
  let ?r = "serialize_abs (nat \<bar>val\<bar>)"
  have ne: "?r \<noteq> []" using False by simp
  obtain j where k: "k = Suc j" using assms(1) by (cases k) auto
  have h: "2 * 2 ^ (8 * k - 1) = (256 :: nat) ^ k"
    by (simp add: k power_add power_mult flip: power_Suc)
  have n: "2 * nat \<bar>val\<bar> < 256 ^ k"
  proof -
    have "nat \<bar>val\<bar> < 2 ^ (8 * k - 1)" using assms(2) by (simp add: nat_less_iff)
    then show ?thesis using h by linarith
  qed
  then have l: "length ?r \<le> k" by (intro length_serialize_abs) linarith
  have "length ?r < k" if "128 \<le> unat (last ?r)"
  proof (rule ccontr)
    assume "\<not> length ?r < k"
    then have lr: "length (butlast ?r) = j" using l k by simp
    have "256 ^ j * 128 \<le> 256 ^ j * unat (last ?r)" using that by simp
    also have "\<dots> \<le> nat \<bar>val\<bar>"
      using le_nat_append [of "butlast ?r" "[last ?r]"] ne lr by simp
    finally show False using n k by simp
  qed
  note lt = this
  from False have "val \<noteq> 0" "val \<noteq> INT64_MIN" by auto
  then show ?thesis
    by (cases rule: serialize_cases) (use l ne lt in auto)
qed


section \<open>Round trips of CScriptNum\<close>

lemma set_vch_serialize:
  assumes "in_int64 val"
  shows "CScriptNum_set_vch (CScriptNum_serialize val) = Inr val"
proof (cases "val = 0 \<or> val = INT64_MIN")
  case True
  then show ?thesis by (auto simp: CScriptNum_serialize_def CScriptNum_set_vch_def)
next
  case False
  then have "val \<noteq> 0" "val \<noteq> INT64_MIN" by auto
  then have "CScriptNum_serialize val \<noteq> []"
    by (cases rule: serialize_cases) auto
  moreover have "length (CScriptNum_serialize val) \<le> 8"
    using False assms length_serialize [of 8 val] by (auto simp: in_int64_def)
  ultimately show ?thesis
    using False by (simp add: CScriptNum_set_vch_eq scriptnum_val_serialize)
qed

lemma serialize_minimal:
  assumes "val \<noteq> 0"
  defines "v \<equiv> CScriptNum_serialize val"
  shows "\<not> (last v AND 0x7f = 0 \<and> (length v \<le> 1 \<or> v ! (length v - 2) AND 0x80 = 0))"
proof (cases "val = INT64_MIN")
  case True
  then show ?thesis by (simp add: v_def CScriptNum_serialize_def)
next
  case False
  let ?r = "serialize_abs (nat \<bar>val\<bar>)"
  have ne: "?r \<noteq> []" using assms by simp
  from assms(1) False show ?thesis
  proof (cases rule: serialize_cases)
    case ext
    have "v ! (length v - 2) = last ?r"
      unfolding v_def ext(2) using ne by (simp add: nth_append last_conv_nth)
    moreover have "1 < length v"
      unfolding v_def ext(2) using ne by (cases ?r) auto
    ultimately show ?thesis using ext(1) by (simp add: byte_sign_bit)
  next
    case fold
    have "unat (last v AND 0x7f) = unat (last ?r)"
      unfolding v_def fold(3) using fold(1)
      by (cases "val < 0") (simp_all add: unat_byte_low7 unat_byte_set_sign)
    then show ?thesis using fold(2) by (simp add: byte_zero_iff)
  qed
qed

lemma from_vch_serialize:
  assumes "in_int64 val" "length (CScriptNum_serialize val) \<le> k"
  shows "CScriptNum_from_vch (CScriptNum_serialize val) fRequireMinimal k = Inr val"
proof (cases "val = 0")
  case True
  then show ?thesis
    by (simp add: CScriptNum_from_vch_def CScriptNum_serialize_def CScriptNum_set_vch_def)
next
  case False
  then show ?thesis
    using assms serialize_minimal [of val] set_vch_serialize [OF assms(1)]
    by (auto simp: CScriptNum_from_vch_def)
qed

lemma serialize_set_vch_minimal:
  assumes l: "length v \<le> 8" and ne: "v \<noteq> []"
    and min: "\<not> (last v AND 0x7f = 0 \<and> (length v \<le> 1 \<or> v ! (length v - 2) AND 0x80 = 0))"
  shows "CScriptNum_serialize (scriptnum_val v) = v"
proof -
  obtain w b where v: "v = w @ [b]" using ne by (cases v rule: rev_cases) auto
  let ?x = "b AND 0x7f"
  let ?m = "le_nat (w @ [?x])"
  let ?val = "scriptnum_val v"
  have ux: "unat ?x = unat b mod 128" by (simp add: unat_byte_low7)
  have val: "?val = (if unat b < 128 then int ?m else - int ?m)"
    by (simp add: v scriptnum_val_def)
  have ser: "?m \<noteq> 0 \<and> serialize_abs ?m = (if ?x = 0 then w else w @ [?x]) \<and>
      (?x = 0 \<longrightarrow> w \<noteq> [] \<and> 128 \<le> unat (last w))"
  proof (cases "?x = 0")
    case True
    then have w: "w \<noteq> []" "128 \<le> unat (last w)"
      using min v by (auto simp: byte_sign_bit nth_append last_conv_nth not_less
          simp flip: length_greater_0_conv)
    then have "last w \<noteq> 0" by auto
    then have "serialize_abs (le_nat w) = w" by (intro serialize_abs_le_nat) simp
    moreover have "le_nat w \<noteq> 0" using calculation w(1) by (metis serialize_abs_0)
    ultimately show ?thesis using True w by (simp add: le_nat_append)
  next
    case False
    then have "serialize_abs ?m = w @ [?x]" by (intro serialize_abs_le_nat) simp
    moreover have "?m \<noteq> 0" using calculation by (metis serialize_abs_0 snoc_eq_iff_butlast)
    ultimately show ?thesis using False by simp
  qed
  have "2 * ?m < 256 ^ 8"
    using le_nat_low7_less [OF ne] v power_increasing [OF l, of "256 :: nat"] by simp
  then have nz: "?val \<noteq> 0" "?val \<noteq> INT64_MIN"
    using ser by (auto simp: val)
  have abs: "nat \<bar>?val\<bar> = ?m" by (simp add: val)
  have neg: "?val < 0 \<longleftrightarrow> 128 \<le> unat b"
    using ser by (auto simp: val)
  show ?thesis
  proof (cases "?x = 0")
    case True
    then have "b = (if ?val < 0 then 0x80 else 0)"
    proof -
      have "unat b = 0 \<or> unat b = 128"
        using True ux by (auto simp: unat_byte_mod128 byte_zero_iff split: if_splits)
      then show ?thesis using neg by (auto simp: word_unat_eq_iff)
    qed
    note b = this
    have r: "serialize_abs (nat \<bar>?val\<bar>) = w" "128 \<le> unat (last w)"
      using ser True abs by auto
    from nz show ?thesis
    proof (cases rule: serialize_cases)
      case ext
      then have "CScriptNum_serialize ?val = w @ [if ?val < 0 then 0x80 else 0]"
        unfolding r by blast
      then show ?thesis unfolding b [symmetric] by (simp only: v)
    next
      case fold
      then show ?thesis using r by simp
    qed
  next
    case False
    have "unat ?x < 128" by (simp add: ux)
    moreover have "b = (if ?val < 0 then ?x OR 0x80 else ?x)"
    proof (cases "unat b < 128")
      case True
      then show ?thesis using neg ux by (simp add: word_unat_eq_iff)
    next
      case F: False
      have "unat b mod 128 + 128 = unat b"
        using F by (simp add: unat_byte_mod128)
      then show ?thesis
        using F neg ux by (simp add: word_unat_eq_iff unat_byte_set_sign)
    qed
    ultimately have b: "unat ?x < 128" "b = (if ?val < 0 then ?x OR 0x80 else ?x)" .
    have r: "serialize_abs (nat \<bar>?val\<bar>) = w @ [?x]"
      using ser False abs by auto
    from nz show ?thesis
    proof (cases rule: serialize_cases)
      case ext
      then show ?thesis using b(1) unfolding r by simp
    next
      case fold
      then have "CScriptNum_serialize ?val = w @ [if ?val < 0 then ?x OR 0x80 else ?x]"
        unfolding r last_snoc butlast_snoc by blast
      then show ?thesis unfolding b(2) [symmetric] by (simp only: v)
    qed
  qed
qed


lemma CScriptNum_set_vch_Nil: "CScriptNum_set_vch [] = Inr 0"
  by (simp add: CScriptNum_set_vch_def)

lemma from_vch_InrD:
  assumes "CScriptNum_from_vch v f k = (Inr n :: ('e, int) exec)" "k \<le> 8"
  shows "length v \<le> k" "n = (if v = [] then 0 else scriptnum_val v)"
proof -
  show l: "length v \<le> k" using assms by (auto simp: CScriptNum_from_vch_def split: if_splits)
  have "CScriptNum_set_vch v = (Inr n :: ('e, int) exec)"
    using assms by (auto simp: CScriptNum_from_vch_def split: if_splits)
  then show "n = (if v = [] then 0 else scriptnum_val v)"
    using l assms(2) CScriptNum_set_vch_eq [of v, where 'a = 'e]
    by (cases "v = []") (simp_all add: CScriptNum_set_vch_Nil)
qed

lemma scriptnum_val_bound:
  assumes "v \<noteq> []"
  shows "\<bar>scriptnum_val v\<bar> < 2 ^ (8 * length v - 1)"
proof -
  obtain j where j: "length v = Suc j" using assms by (cases v) auto
  have h: "2 * 2 ^ (8 * length v - 1) = (256 :: nat) ^ length v"
    by (simp add: j power_add power_mult flip: power_Suc)
  have "le_nat (butlast v @ [last v AND 0x7f]) < 2 ^ (8 * length v - 1)"
    using le_nat_low7_less [OF assms] unfolding h [symmetric] by simp
  then have "int (le_nat (butlast v @ [last v AND 0x7f])) < int (2 ^ (8 * length v - 1))"
    by (simp only: of_nat_less_iff)
  then show ?thesis by (simp add: scriptnum_val_def Let_def)
qed

lemma from_vch_bound:
  assumes "CScriptNum_from_vch v f k = Inr n" "0 < k" "k \<le> 8"
  shows "\<bar>n\<bar> < 2 ^ (8 * k - 1)"
proof (cases "v = []")
  case True
  then show ?thesis using from_vch_InrD(2) [OF assms(1,3)] by simp
next
  case False
  have "\<bar>n\<bar> < 2 ^ (8 * length v - 1)"
    using False from_vch_InrD(2) [OF assms(1,3)] scriptnum_val_bound by simp
  also have "(2 :: int) ^ (8 * length v - 1) \<le> 2 ^ (8 * k - 1)"
    using from_vch_InrD(1) [OF assms(1,3)] by (intro power_increasing) auto
  finally show ?thesis .
qed

lemma scriptnum_arith:
  assumes "CScriptNum_from_vch v f 4 = Inr a" "CScriptNum_from_vch w g 4 = Inr b"
  shows "CScriptNum_plus a b = Inr (a + b)" "CScriptNum_minus a b = Inr (a - b)"
    "CScriptNum_uminus a = Inr (- a)"
    "length (CScriptNum_serialize (a + b)) \<le> 5" "length (CScriptNum_serialize (a - b)) \<le> 5"
    "length (CScriptNum_serialize (- a)) \<le> 4"
proof -
  have a: "\<bar>a\<bar> < 2 ^ 31" and b: "\<bar>b\<bar> < 2 ^ 31"
    using from_vch_bound [OF assms(1)] from_vch_bound [OF assms(2)] by simp_all
  show "CScriptNum_plus a b = Inr (a + b)" "CScriptNum_minus a b = Inr (a - b)"
    "CScriptNum_uminus a = Inr (- a)"
    using a b by (auto simp: CScriptNum_plus_def CScriptNum_minus_def CScriptNum_uminus_def)
  have "\<bar>a + b\<bar> < 2 ^ 32" "\<bar>a - b\<bar> < 2 ^ 32" "\<bar>- a\<bar> < 2 ^ 31"
    using a b by auto
  then show "length (CScriptNum_serialize (a + b)) \<le> 5" "length (CScriptNum_serialize (a - b)) \<le> 5"
    "length (CScriptNum_serialize (- a)) \<le> 4"
    using length_serialize [of 5 "a + b"] length_serialize [of 5 "a - b"]
      length_serialize [of 4 "- a"] by auto
qed

section \<open>What the decoder accepts\<close>

text \<open>C7: for operands of at most eight bytes, the decoder with the minimality requirement
  accepts a byte string exactly when it is the encoding of a 64-bit integer that fits the
  size limit, and then returns that integer: encodings are unique, and decoding and
  encoding are inverse to each other.\<close>

theorem scriptnum_decode_iff:
  assumes "k \<le> 8"
  shows "CScriptNum_from_vch v True k = Inr n \<longleftrightarrow>
         v = CScriptNum_serialize n \<and> length v \<le> k \<and> in_int64 n"
proof
  assume d: "CScriptNum_from_vch v True k = Inr n"
  note v = from_vch_InrD [OF d assms]
  have "\<bar>n\<bar> < 2 ^ (8 * 8 - 1)" using from_vch_bound [of v True 8 n] d assms
    by (auto simp: CScriptNum_from_vch_def split: if_splits)
  then have i: "in_int64 n" by (auto simp: in_int64_def)
  show "v = CScriptNum_serialize n \<and> length v \<le> k \<and> in_int64 n"
  proof (cases "v = []")
    case True
    then show ?thesis using v i by (simp add: CScriptNum_serialize_def)
  next
    case False
    have "CScriptNum_serialize (scriptnum_val v) = v"
      using d False v(1) assms
      by (intro serialize_set_vch_minimal) (auto simp: CScriptNum_from_vch_def split: if_splits)
    then show ?thesis using v i False by simp
  qed
next
  assume "v = CScriptNum_serialize n \<and> length v \<le> k \<and> in_int64 n"
  then show "CScriptNum_from_vch v True k = Inr n" by (auto intro: from_vch_serialize)
qed

theorem scriptnum_decode_iff_witness:
  "(4 :: nat) \<le> 8 \<and> CScriptNum_from_vch [0xc8, 0x80] True 4 = (Inr (- 200) :: (unit, int) exec)"
proof -
  have "CScriptNum_serialize (- 200) = [0xc8, 0x80]" by code_simp
  moreover have "in_int64 (- 200)" by code_simp
  ultimately show ?thesis
    using scriptnum_decode_iff [of 4 "[0xc8, 0x80]" "- 200", where 'a = unit] by simp
qed

end
