(* ===== verification/Script_Facts.thy ===== *)
theory Script_Facts
  imports Script_Num
begin

text \<open>
  Facts on the byte level of scripts (src/src/script/script.h, src/src/script/script.cpp):
  the reader \<open>GetOp2\<close> inverts the writer \<open>script_push_data\<close>, every loop over a script
  works on the list of its operations, and the signature operations of a script are
  counted without failure and within a bound linear in its size.
\<close>


section \<open>Pushes\<close>

lemma script_push_data_append: "script_push_data s b = s @ script_push_data [] b"
  by (simp add: script_push_data_def)

lemma GetOp2_push_data:
  assumes "length b < 2 ^ 32"
  shows "\<exists>opcode \<le> OP_PUSHDATA4. GetOp2 (script_push_data [] b @ rest) = (True, opcode, b, rest)"
proof -
  let ?n = "length b"
  consider "?n < 0x4c" | "0x4c \<le> ?n" "?n \<le> 0xff" | "0xff < ?n" "?n \<le> 0xffff" | "0xffff < ?n"
    by linarith
  then show ?thesis
  proof cases
    case 1
    then show ?thesis
      by (simp add: script_push_data_def GetOp2_def GetOp2_operand_def unat_of_nat_byte)
  next
    case 2
    then show ?thesis
      by (simp add: script_push_data_def GetOp2_def GetOp2_operand_def unat_of_nat_byte)
  next
    case 3
    then have "unat (of_nat ?n :: u16) = ?n" by (simp add: unat_of_nat)
    with 3 show ?thesis
      by (simp add: script_push_data_def GetOp2_def GetOp2_operand_def Read_Write)
  next
    case 4
    then have "unat (of_nat ?n :: u32) = ?n" using assms by (simp add: unat_of_nat)
    with 4 show ?thesis
      by (simp add: script_push_data_def GetOp2_def GetOp2_operand_def Read_Write)
  qed
qed

section \<open>The operations of a script\<close>

text \<open>Induction along the operations of a script, the shape of every loop over it.\<close>

lemma GetOp2_nonempty: "GetOp2 pc = (True, opcode, vch, pc') \<Longrightarrow> pc \<noteq> []"
  by (auto simp: GetOp2_def)

lemma script_induct [case_names Nil Bad Op]:
  assumes "P []"
    and "\<And>pc opcode vch pc'. pc \<noteq> [] \<Longrightarrow> GetOp2 pc = (False, opcode, vch, pc') \<Longrightarrow> P pc"
    and "\<And>pc opcode vch pc'. pc \<noteq> [] \<Longrightarrow> GetOp2 pc = (True, opcode, vch, pc') \<Longrightarrow> P pc' \<Longrightarrow> P pc"
  shows "P pc"
proof (induction "length pc" arbitrary: pc rule: less_induct)
  case less
  obtain ok opcode vch pc' where g: "GetOp2 pc = (ok, opcode, vch, pc')"
    by (cases "GetOp2 pc")
  show ?case
  proof (cases "pc = []")
    case False
    then show ?thesis
      using assms(2,3) g less [OF GetOp2_shorter [OF g False]] by (cases ok) auto
  qed (simp add: assms(1))
qed

text \<open>The abstract view: the operations a script parses into, \<open>None\<close> if it does not.\<close>

function script_ops :: "bytes \<Rightarrow> (opcodetype \<times> valtype) list option" where
  "script_ops pc =
     (if pc = [] then Some []
      else case GetOp2 pc of (ok, opcode, vch, pc') \<Rightarrow>
        if ok then map_option (Cons (opcode, vch)) (script_ops pc') else None)"
  by pat_completeness auto
termination
  by (relation "measure length") (auto dest: GetOp2_shorter [OF sym])

declare script_ops.simps [simp del]

lemma script_ops_simps [simp]:
  "script_ops [] = Some []"
  "pc \<noteq> [] \<Longrightarrow> GetOp2 pc = (ok, opcode, vch, pc') \<Longrightarrow>
   script_ops pc = (if ok then map_option (Cons (opcode, vch)) (script_ops pc') else None)"
  by (simp_all add: script_ops.simps [of "[]"] script_ops.simps [of pc])

lemma IsPushOnly_from_simps [simp]:
  "IsPushOnly_from []"
  "pc \<noteq> [] \<Longrightarrow> GetOp2 pc = (ok, opcode, vch, pc') \<Longrightarrow>
   IsPushOnly_from pc = (ok \<and> opcode \<le> OP_16 \<and> IsPushOnly_from pc')"
  by (auto simp: IsPushOnly_from.simps [of "[]"] IsPushOnly_from.simps [of pc])

lemma last_push_simps [simp]:
  "last_push d [] = Some d"
  "pc \<noteq> [] \<Longrightarrow> GetOp2 pc = (ok, opcode, vch, pc') \<Longrightarrow>
   last_push d pc = (if ok \<and> opcode \<le> OP_16 then last_push vch pc' else None)"
  by (auto simp: last_push.simps [of d "[]"] last_push.simps [of d pc])

lemma GetOp2_operand_append:
  "GetOp2_operand opcode pc = Some (n, pc') \<Longrightarrow> GetOp2_operand opcode (pc @ t) = Some (n, pc' @ t)"
  by (auto simp: GetOp2_operand_def ReadLE16_def ReadLE32_def split: if_splits)

lemma GetOp2_append:
  assumes "GetOp2 pc = (True, opcode, vch, pc')"
  shows "GetOp2 (pc @ t) = (True, opcode, vch, pc' @ t)"
proof (cases pc)
  case Nil
  then show ?thesis using assms by (simp add: GetOp2_def)
next
  case (Cons b pc1)
  show ?thesis
  proof (cases "unat b \<le> OP_PUSHDATA4")
    case True
    then obtain n pc2 where o: "GetOp2_operand (unat b) pc1 = Some (n, pc2)"
      using assms Cons by (cases "GetOp2_operand (unat b) pc1") (auto simp: GetOp2_def)
    show ?thesis
      using assms Cons True o GetOp2_operand_append [OF o, of t]
      by (auto simp: GetOp2_def split: if_splits)
  next
    case False
    then show ?thesis using assms Cons by (simp add: GetOp2_def)
  qed
qed

lemma script_ops_append:
  "script_ops s = Some ops \<Longrightarrow> script_ops (s @ t) = map_option ((@) ops) (script_ops t)"
proof (induction s arbitrary: ops rule: script_induct)
  case Nil
  then show ?case by (auto simp: option.map_ident)
next
  case (Op pc opcode vch pc')
  then obtain ops' where o: "script_ops pc' = Some ops'" "ops = (opcode, vch) # ops'"
    by auto
  have "script_ops (pc @ t) = map_option (Cons (opcode, vch)) (script_ops (pc' @ t))"
    using Op(1) GetOp2_append [OF Op(2), of t] by simp
  then show ?case using o Op(3) [OF o(1)] by (simp add: option.map_comp comp_def)
qed simp

lemma IsPushOnly_from_iff:
  "IsPushOnly_from pc \<longleftrightarrow>
     (\<exists>ops. script_ops pc = Some ops \<and> (\<forall>(opcode, _) \<in> set ops. opcode \<le> OP_16))"
  by (induction pc rule: script_induct) auto

lemma last_push_eq:
  "last_push d pc =
     (if IsPushOnly_from pc then Some (last (d # map snd (the (script_ops pc)))) else None)"
proof (induction pc arbitrary: d rule: script_induct)
  case (Op pc opcode vch pc')
  then show ?case by (auto simp: IsPushOnly_from_iff [of pc'])
qed simp_all

section \<open>Signature operations\<close>

lemma DecodeOP_N_small: "OP_1 \<le> opcode \<Longrightarrow> opcode \<le> OP_16 \<Longrightarrow>
   DecodeOP_N opcode = Inr (opcode - 0x50)"
  by (simp add: DecodeOP_N_def)

lemma EncodeOP_N_DecodeOP_N:
  assumes "0 \<le> n" "n \<le> 16"
  shows "exec_bind (EncodeOP_N n) DecodeOP_N = Inr (nat n)"
  using assms by (auto simp: EncodeOP_N_def DecodeOP_N_def)

lemma GetSigOpCount_loop_simps [simp]:
  "GetSigOpCount_loop f l n [] = Inr n"
  "pc \<noteq> [] \<Longrightarrow> GetOp2 pc = (False, opcode, vch, pc') \<Longrightarrow> GetSigOpCount_loop f l n pc = Inr n"
  "pc \<noteq> [] \<Longrightarrow> GetOp2 pc = (True, opcode, vch, pc') \<Longrightarrow>
   GetSigOpCount_loop f l n pc =
     GetSigOpCount_loop f opcode
       (if opcode = OP_CHECKSIG \<or> opcode = OP_CHECKSIGVERIFY then n + 1
        else if opcode = OP_CHECKMULTISIG \<or> opcode = OP_CHECKMULTISIGVERIFY
        then if f \<and> OP_1 \<le> l \<and> l \<le> OP_16 then n + (l - 0x50) else n + 20
        else n) pc'"
  by (simp_all add: GetSigOpCount_loop.simps [of f l n "[]"] GetSigOpCount_loop.simps [of f l n pc]
      DecodeOP_N_small)

lemma GetSigOpCount_loop_bounds:
  "\<exists>k m. GetSigOpCount_loop True l n pc = (Inr (n + k) :: ('e, nat) exec) \<and>
       GetSigOpCount_loop False l' n' pc = (Inr (n' + m) :: ('e, nat) exec) \<and> k \<le> m \<and> m \<le> 20 * length pc"
proof (induction pc arbitrary: l l' n n' rule: script_induct)
  case (Op pc opcode vch pc')
  have sh: "length pc' < length pc" using GetOp2_shorter [OF Op(2,1)] .
  define i where "i = (if opcode = OP_CHECKSIG \<or> opcode = OP_CHECKSIGVERIFY then 1
      else if opcode = OP_CHECKMULTISIG \<or> opcode = OP_CHECKMULTISIGVERIFY
      then if OP_1 \<le> l \<and> l \<le> OP_16 then l - 0x50 else 20 else 0)"
  define j :: nat where "j = (if opcode = OP_CHECKSIG \<or> opcode = OP_CHECKSIGVERIFY then 1
      else if opcode = OP_CHECKMULTISIG \<or> opcode = OP_CHECKMULTISIGVERIFY then 20 else 0)"
  have ij: "i \<le> j" "j \<le> 20" by (auto simp: i_def j_def)
  have "GetSigOpCount_loop True l n pc = (GetSigOpCount_loop True opcode (n + i) pc' :: ('e, nat) exec)"
    "GetSigOpCount_loop False l' n' pc = (GetSigOpCount_loop False opcode (n' + j) pc' :: ('e, nat) exec)"
    using Op(1,2) by (simp_all add: i_def j_def)
  moreover obtain k m where "GetSigOpCount_loop True opcode (n + i) pc' = (Inr (n + i + k) :: ('e, nat) exec)"
    "GetSigOpCount_loop False opcode (n' + j) pc' = (Inr (n' + j + m) :: ('e, nat) exec)" "k \<le> m" "m \<le> 20 * length pc'"
    using Op(3) by blast
  ultimately show ?case using ij sh
    by (intro exI [of _ "i + k"] exI [of _ "j + m"]) simp
qed simp_all

lemma IsPayToPublicKeyHash_iff:
  "IsPayToPublicKeyHash s \<longleftrightarrow>
     (\<exists>h. length h = 20 \<and> s = [0x76, 0xa9, 0x14] @ h @ [0x88, 0xac])"
proof
  assume p: "IsPayToPublicKeyHash s"
  then have l: "length s = 25" by (simp add: IsPayToPublicKeyHash_def)
  have "s = take 3 s @ take 20 (drop 3 s) @ drop 23 s"
    using append_take_drop_id [of 3 s] append_take_drop_id [of 20 "drop 3 s"] by simp
  moreover have "take 3 s = [0x76, 0xa9, 0x14]"
    using p by (auto simp: IsPayToPublicKeyHash_def list_eq_iff_nth_eq less_Suc_eq numeral_3_eq_3 numeral_2_eq_2)
  moreover have "drop 23 s = [0x88, 0xac]"
    using p by (auto simp: IsPayToPublicKeyHash_def list_eq_iff_nth_eq less_2_cases_iff)
  ultimately show "\<exists>h. length h = 20 \<and> s = [0x76, 0xa9, 0x14] @ h @ [0x88, 0xac]"
    using l by (intro exI [of _ "take 20 (drop 3 s)"]) simp
next
  assume "\<exists>h. length h = 20 \<and> s = [0x76, 0xa9, 0x14] @ h @ [0x88, 0xac]"
  then show "IsPayToPublicKeyHash s"
    by (auto simp: IsPayToPublicKeyHash_def nth_append nth_Cons')
qed

lemma IsPayToScriptHash_iff:
  "IsPayToScriptHash s \<longleftrightarrow> (\<exists>h. length h = 20 \<and> s = [0xa9, 0x14] @ h @ [0x87])"
proof
  assume p: "IsPayToScriptHash s"
  then have l: "length s = 23" by (simp add: IsPayToScriptHash_def)
  have "s = take 2 s @ take 20 (drop 2 s) @ drop 22 s"
    using append_take_drop_id [of 2 s] append_take_drop_id [of 20 "drop 2 s"] by simp
  moreover have "take 2 s = [0xa9, 0x14]"
    using p by (auto simp: IsPayToScriptHash_def list_eq_iff_nth_eq less_Suc_eq numeral_2_eq_2)
  moreover have "drop 22 s = [0x87]"
    using p by (auto simp: IsPayToScriptHash_def list_eq_iff_nth_eq less_Suc_eq)
  ultimately show "\<exists>h. length h = 20 \<and> s = [0xa9, 0x14] @ h @ [0x87]"
    using l by (intro exI [of _ "take 20 (drop 2 s)"]) simp
next
  assume "\<exists>h. length h = 20 \<and> s = [0xa9, 0x14] @ h @ [0x87]"
  then show "IsPayToScriptHash s"
    by (auto simp: IsPayToScriptHash_def nth_append nth_Cons')
qed

lemma IsNormalPaymentScript_loop_simps:
  "IsNormalPaymentScript_loop i []"
  "pc \<noteq> [] \<Longrightarrow> GetOp2 pc = (ok, opcode, vch, pc') \<Longrightarrow>
   IsNormalPaymentScript_loop i pc =
     ((i = 0 \<longrightarrow> opcode = OP_DUP) \<and> (i = 1 \<longrightarrow> opcode = OP_HASH160) \<and>
      (i = 3 \<longrightarrow> opcode = OP_EQUALVERIFY) \<and> (i = 4 \<longrightarrow> opcode = OP_CHECKSIG) \<and> i \<noteq> 5 \<and>
      IsNormalPaymentScript_loop (i + 1) pc')"
  by (subst IsNormalPaymentScript_loop.simps, simp)+

lemma P2PKH_normal:
  assumes "IsPayToPublicKeyHash s"
  shows "IsNormalPaymentScript s"
proof -
  obtain h where s: "s = [0x76, 0xa9, 0x14] @ h @ [0x88, 0xac]" and h: "length h = 20"
    using assms by (auto simp: IsPayToPublicKeyHash_iff)
  have g: "GetOp2 (0x76 # r) = (True, 0x76, [], r)" "GetOp2 (0xa9 # r) = (True, 0xa9, [], r)"
    "GetOp2 (0x14 # h @ r) = (True, 0x14, h, r)"
    "GetOp2 (0x88 # r) = (True, 0x88, [], r)" "GetOp2 (0xac # r) = (True, 0xac, [], r)" for r
    using h by (simp_all add: GetOp2_def GetOp2_operand_def)
  show ?thesis
    using h by (simp add: IsNormalPaymentScript_def s IsNormalPaymentScript_loop_simps(1)
        IsNormalPaymentScript_loop_simps(2) [OF _ g(1)] IsNormalPaymentScript_loop_simps(2) [OF _ g(2)]
        IsNormalPaymentScript_loop_simps(2) [OF _ g(3)] IsNormalPaymentScript_loop_simps(2) [OF _ g(4)]
        IsNormalPaymentScript_loop_simps(2) [OF _ g(5)])
qed

section \<open>Properties\<close>

lemma script_ops_push_data:
  assumes "length d < 2 ^ 32" "script_ops s = Some ops"
  shows "\<exists>opcode \<le> OP_PUSHDATA4. script_ops (script_push_data s d) = Some (ops @ [(opcode, d)])"
proof -
  obtain opcode where g: "opcode \<le> OP_PUSHDATA4"
    "GetOp2 (script_push_data [] d) = (True, opcode, d, [])"
    using GetOp2_push_data [OF assms(1), of "[]"] by auto
  then have "script_ops (script_push_data [] d) = Some [(opcode, d)]"
    using GetOp2_nonempty [OF g(2)] by simp
  then have "script_ops (s @ script_push_data [] d) = Some (ops @ [(opcode, d)])"
    using script_ops_append [OF assms(2)] by simp
  then show ?thesis using g(1) by (auto simp: script_push_data_append [of s])
qed

text \<open>C10: a script built by pushing any sequence of data items is push-only and parses
  into exactly these items, in order.\<close>

theorem push_script_roundtrip:
  assumes "\<forall>d \<in> set ds. length d < 2 ^ 32"
  shows "IsPushOnly (foldl script_push_data [] ds) \<and>
         (\<exists>ops. script_ops (foldl script_push_data [] ds) = Some ops \<and> map snd ops = ds)"
proof -
  have "\<exists>ops. script_ops (foldl script_push_data [] ds) = Some ops \<and> map snd ops = ds \<and>
      (\<forall>(opcode, _) \<in> set ops. opcode \<le> OP_16)"
    using assms
  proof (induction ds rule: rev_induct)
    case (snoc d ds)
    then obtain ops where o: "script_ops (foldl script_push_data [] ds) = Some ops"
      "map snd ops = ds" "\<forall>(opcode, _) \<in> set ops. opcode \<le> OP_16" by auto
    obtain opcode where "opcode \<le> OP_PUSHDATA4"
      "script_ops (script_push_data (foldl script_push_data [] ds) d) = Some (ops @ [(opcode, d)])"
      using script_ops_push_data [OF _ o(1)] snoc.prems by auto
    then show ?case using o by auto
  qed simp
  then show ?thesis by (auto simp: IsPushOnly_def IsPushOnly_from_iff)
qed

theorem push_script_roundtrip_witness:
  "IsPushOnly (foldl script_push_data [] [[1, 2], replicate 80 7, []]) \<and>
   (\<exists>ops. script_ops (foldl script_push_data [] [[1, 2], replicate 80 7, []]) = Some ops \<and>
          map snd ops = [[1, 2], replicate 80 7, []])"
  using push_script_roundtrip [of "[[1, 2], replicate 80 7, []]"] by simp

text \<open>C11: counting the signature operations of a script never fails an assertion; the
  accurate count is at most the legacy count, which is at most twenty per script byte.\<close>

theorem sigop_count_bounds:
  "\<exists>k m. GetSigOpCount s True = (Inr k :: ('e, nat) exec) \<and>
         GetSigOpCount s False = (Inr m :: ('e, nat) exec) \<and> k \<le> m \<and> m \<le> 20 * length s"
  using GetSigOpCount_loop_bounds [of OP_INVALIDOPCODE 0 s OP_INVALIDOPCODE 0, where 'e = 'e]
  by (simp add: GetSigOpCount_def)

text \<open>for a pay-to-script-hash output, the operations counted are those of the script
  that the \<open>scriptSig\<close> pushes last, and none when the \<open>scriptSig\<close> is not push-only.\<close>

theorem p2sh_sigop_count:
  assumes "IsPayToScriptHash s"
  shows "GetSigOpCount_scriptSig s scriptSig =
     (if IsPushOnly scriptSig
      then GetSigOpCount (last ([] # map snd (the (script_ops scriptSig)))) True else Inr 0)"
  using assms by (simp add: GetSigOpCount_scriptSig_def last_push_eq IsPushOnly_def)

theorem p2sh_sigop_count_witness:
  "IsPayToScriptHash ([0xa9, 0x14] @ replicate 20 0 @ [0x87]) \<and>
   GetSigOpCount_scriptSig ([0xa9, 0x14] @ replicate 20 0 @ [0x87]) [2, 0x52, 0xae] =
     (Inr 2 :: (unit, nat) exec)"
proof -
  have p: "IsPayToScriptHash ([0xa9, 0x14] @ replicate 20 0 @ [0x87])" by code_simp
  have "IsPushOnly [2, 0x52, 0xae]" "script_ops [2, 0x52, 0xae] = Some [(2, [0x52, 0xae])]"
    by code_simp+
  moreover have "GetSigOpCount [0x52, 0xae] True = (Inr 2 :: (unit, nat) exec)" by code_simp
  ultimately show ?thesis
    using p2sh_sigop_count [OF p, of "[2, 0x52, 0xae]", where 'a = unit] p by simp
qed

text \<open>C12: every pay-to-public-key-hash script counts as a normal payment script, and so does
  a 25-byte script that pushes 22 bytes after \<open>OP_DUP OP_HASH160\<close> and verifies nothing.\<close>

theorem normal_payment_script:
  "(IsPayToPublicKeyHash s \<longrightarrow> IsNormalPaymentScript s) \<and>
   (length h = 22 \<longrightarrow> IsNormalPaymentScript ([0x76, 0xa9, 0x16] @ h))"
proof -
  have "IsNormalPaymentScript ([0x76, 0xa9, 0x16] @ h)" if h: "length h = 22"
  proof -
    have g: "GetOp2 (0x76 # r) = (True, 0x76, [], r)" "GetOp2 (0xa9 # r) = (True, 0xa9, [], r)"
      "GetOp2 (0x16 # h) = (True, 0x16, h, [])" for r
      using h by (simp_all add: GetOp2_def GetOp2_operand_def)
    show ?thesis
      using h by (simp add: IsNormalPaymentScript_def IsNormalPaymentScript_loop_simps(1)
          IsNormalPaymentScript_loop_simps(2) [OF _ g(1)]
          IsNormalPaymentScript_loop_simps(2) [OF _ g(2)]
          IsNormalPaymentScript_loop_simps(2) [OF _ g(3)])
  qed
  then show ?thesis using P2PKH_normal by blast
qed

theorem normal_payment_script_witness:
  "IsNormalPaymentScript ([0x76, 0xa9, 0x14] @ replicate 20 1 @ [0x88, 0xac]) \<and>
   IsNormalPaymentScript ([0x76, 0xa9, 0x16] @ replicate 22 1) \<and>
   \<not> IsPayToPublicKeyHash ([0x76, 0xa9, 0x16] @ replicate 22 1)"
proof -
  have "IsPayToPublicKeyHash ([0x76, 0xa9, 0x14] @ replicate 20 1 @ [0x88, 0xac])"
    "\<not> IsPayToPublicKeyHash ([0x76, 0xa9, 0x16] @ replicate 22 1)" by code_simp+
  then show ?thesis
    using normal_payment_script [of "[0x76, 0xa9, 0x14] @ replicate 20 1 @ [0x88, 0xac]"
        "replicate 22 1"] by simp
qed

end
