(* ===== verification/Script_Checks.thy ===== *)
theory Script_Checks
  imports Script_Facts
begin

text \<open>
  The checks on stack elements of src/src/script/interpreter.cpp that precede the script
  interpreter: booleans, signature and public key encodings and minimal pushes, with the
  error codes of src/src/script/script_error.h and the verification flags of
  src/src/script/interpreter.h.
\<close>

section \<open>Error codes\<close>

datatype ScriptError =
    SCRIPT_ERR_OK
  | SCRIPT_ERR_UNKNOWN_ERROR
  | SCRIPT_ERR_EVAL_FALSE
  | SCRIPT_ERR_OP_RETURN
  | SCRIPT_ERR_SCRIPT_SIZE
  | SCRIPT_ERR_PUSH_SIZE
  | SCRIPT_ERR_OP_COUNT
  | SCRIPT_ERR_STACK_SIZE
  | SCRIPT_ERR_SIG_COUNT
  | SCRIPT_ERR_PUBKEY_COUNT
  | SCRIPT_ERR_VERIFY
  | SCRIPT_ERR_EQUALVERIFY
  | SCRIPT_ERR_CHECKMULTISIGVERIFY
  | SCRIPT_ERR_CHECKSIGVERIFY
  | SCRIPT_ERR_NUMEQUALVERIFY
  | SCRIPT_ERR_BAD_OPCODE
  | SCRIPT_ERR_DISABLED_OPCODE
  | SCRIPT_ERR_INVALID_STACK_OPERATION
  | SCRIPT_ERR_INVALID_ALTSTACK_OPERATION
  | SCRIPT_ERR_UNBALANCED_CONDITIONAL
  | SCRIPT_ERR_NEGATIVE_LOCKTIME
  | SCRIPT_ERR_UNSATISFIED_LOCKTIME
  | SCRIPT_ERR_SIG_HASHTYPE
  | SCRIPT_ERR_SIG_DER
  | SCRIPT_ERR_MINIMALDATA
  | SCRIPT_ERR_SIG_PUSHONLY
  | SCRIPT_ERR_SIG_HIGH_S
  | SCRIPT_ERR_SIG_NULLDUMMY
  | SCRIPT_ERR_PUBKEYTYPE
  | SCRIPT_ERR_CLEANSTACK
  | SCRIPT_ERR_DISCOURAGE_UPGRADABLE_NOPS
  | SCRIPT_ERR_ERROR_COUNT

definition ScriptErrorString :: "ScriptError \<Rightarrow> string" where
  "ScriptErrorString serror =
     (case serror of
       SCRIPT_ERR_OK \<Rightarrow> ''No error''
      | SCRIPT_ERR_EVAL_FALSE \<Rightarrow> ''Script evaluated without error but finished with a false/empty top stack element''
      | SCRIPT_ERR_VERIFY \<Rightarrow> ''Script failed an OP_VERIFY operation''
      | SCRIPT_ERR_EQUALVERIFY \<Rightarrow> ''Script failed an OP_EQUALVERIFY operation''
      | SCRIPT_ERR_CHECKMULTISIGVERIFY \<Rightarrow> ''Script failed an OP_CHECKMULTISIGVERIFY operation''
      | SCRIPT_ERR_CHECKSIGVERIFY \<Rightarrow> ''Script failed an OP_CHECKSIGVERIFY operation''
      | SCRIPT_ERR_NUMEQUALVERIFY \<Rightarrow> ''Script failed an OP_NUMEQUALVERIFY operation''
      | SCRIPT_ERR_SCRIPT_SIZE \<Rightarrow> ''Script is too big''
      | SCRIPT_ERR_PUSH_SIZE \<Rightarrow> ''Push value size limit exceeded''
      | SCRIPT_ERR_OP_COUNT \<Rightarrow> ''Operation limit exceeded''
      | SCRIPT_ERR_STACK_SIZE \<Rightarrow> ''Stack size limit exceeded''
      | SCRIPT_ERR_SIG_COUNT \<Rightarrow> ''Signature count negative or greater than pubkey count''
      | SCRIPT_ERR_PUBKEY_COUNT \<Rightarrow> ''Pubkey count negative or limit exceeded''
      | SCRIPT_ERR_BAD_OPCODE \<Rightarrow> ''Opcode missing or not understood''
      | SCRIPT_ERR_DISABLED_OPCODE \<Rightarrow> ''Attempted to use a disabled opcode''
      | SCRIPT_ERR_INVALID_STACK_OPERATION \<Rightarrow> ''Operation not valid with the current stack size''
      | SCRIPT_ERR_INVALID_ALTSTACK_OPERATION \<Rightarrow> ''Operation not valid with the current altstack size''
      | SCRIPT_ERR_OP_RETURN \<Rightarrow> ''OP_RETURN was encountered''
      | SCRIPT_ERR_UNBALANCED_CONDITIONAL \<Rightarrow> ''Invalid OP_IF construction''
      | SCRIPT_ERR_NEGATIVE_LOCKTIME \<Rightarrow> ''Negative locktime''
      | SCRIPT_ERR_UNSATISFIED_LOCKTIME \<Rightarrow> ''Locktime requirement not satisfied''
      | SCRIPT_ERR_SIG_HASHTYPE \<Rightarrow> ''Signature hash type missing or not understood''
      | SCRIPT_ERR_SIG_DER \<Rightarrow> ''Non-canonical DER signature''
      | SCRIPT_ERR_MINIMALDATA \<Rightarrow> ''Data push larger than necessary''
      | SCRIPT_ERR_SIG_PUSHONLY \<Rightarrow> ''Only non-push operators allowed in signatures''
      | SCRIPT_ERR_SIG_HIGH_S \<Rightarrow> ''Non-canonical signature: S value is unnecessarily high''
      | SCRIPT_ERR_SIG_NULLDUMMY \<Rightarrow> ''Dummy CHECKMULTISIG argument must be zero''
      | SCRIPT_ERR_DISCOURAGE_UPGRADABLE_NOPS \<Rightarrow> ''NOPx reserved for soft-fork upgrades''
      | SCRIPT_ERR_PUBKEYTYPE \<Rightarrow> ''Public key is neither compressed or uncompressed''
      | _ \<Rightarrow> ''unknown error'')"

section \<open>Flags\<close>

abbreviation (input) SCRIPT_VERIFY_P2SH :: u32 where
  "SCRIPT_VERIFY_P2SH \<equiv> 0x1"

abbreviation (input) SCRIPT_VERIFY_STRICTENC :: u32 where
  "SCRIPT_VERIFY_STRICTENC \<equiv> 0x2"

abbreviation (input) SCRIPT_VERIFY_LOW_S :: u32 where
  "SCRIPT_VERIFY_LOW_S \<equiv> 0x8"

abbreviation (input) SCRIPT_VERIFY_NULLDUMMY :: u32 where
  "SCRIPT_VERIFY_NULLDUMMY \<equiv> 0x10"

abbreviation (input) SCRIPT_VERIFY_SIGPUSHONLY :: u32 where
  "SCRIPT_VERIFY_SIGPUSHONLY \<equiv> 0x20"

abbreviation (input) SCRIPT_VERIFY_MINIMALDATA :: u32 where
  "SCRIPT_VERIFY_MINIMALDATA \<equiv> 0x40"

abbreviation (input) SCRIPT_VERIFY_DISCOURAGE_UPGRADABLE_NOPS :: u32 where
  "SCRIPT_VERIFY_DISCOURAGE_UPGRADABLE_NOPS \<equiv> 0x80"

abbreviation (input) SCRIPT_VERIFY_CLEANSTACK :: u32 where
  "SCRIPT_VERIFY_CLEANSTACK \<equiv> 0x100"

abbreviation (input) SCRIPT_VERIFY_CHECKLOCKTIMEVERIFY :: u32 where
  "SCRIPT_VERIFY_CHECKLOCKTIMEVERIFY \<equiv> 0x200"

abbreviation (input) SIGHASH_ALL :: nat where
  "SIGHASH_ALL \<equiv> 1"

abbreviation (input) SIGHASH_NONE :: nat where
  "SIGHASH_NONE \<equiv> 2"

abbreviation (input) SIGHASH_SINGLE :: nat where
  "SIGHASH_SINGLE \<equiv> 3"

abbreviation (input) SIGHASH_ANYONECANPAY :: nat where
  "SIGHASH_ANYONECANPAY \<equiv> 0x80"

definition flag_set :: "u32 \<Rightarrow> u32 \<Rightarrow> bool" where
  "flag_set flags f \<longleftrightarrow> flags AND f \<noteq> 0"

section \<open>Booleans and the stack\<close>

fun CastToBool :: "valtype \<Rightarrow> bool" where
  "CastToBool [] = False"
| "CastToBool (b # vch) = (if b \<noteq> 0 then \<not> (vch = [] \<and> b = 0x80) else CastToBool vch)"

text \<open>The macro \<open>stacktop(i)\<close>, with a negative \<open>i\<close>, and \<open>popstack\<close>.\<close>

definition stacktop :: "'a list \<Rightarrow> int \<Rightarrow> ('e, 'a) exec" where
  "stacktop stack i = vec_at stack (int (length stack) + i)"

definition popstack :: "'a list \<Rightarrow> ('e, 'a list) exec" where
  "popstack stack = (if stack = [] then Inl Throw else Inr (butlast stack))"

section \<open>Public keys and signatures\<close>

definition IsCompressedOrUncompressedPubKey :: "valtype \<Rightarrow> bool" where
  "IsCompressedOrUncompressedPubKey vchPubKey =
     (if length vchPubKey < 33 then False
      else if vchPubKey ! 0 = 0x04 then (if length vchPubKey \<noteq> 65 then False else True)
      else if vchPubKey ! 0 = 0x02 \<or> vchPubKey ! 0 = 0x03
      then (if length vchPubKey \<noteq> 33 then False else True)
      else False)"

text \<open>The checks on one integer of the signature whose first byte has index \<open>at\<close>: nonempty,
  not negative, no superfluous zero byte.\<close>

definition der_integer :: "bytes \<Rightarrow> nat \<Rightarrow> nat \<Rightarrow> nat \<Rightarrow> ('e, bool) exec" where
  "der_integer sig tag at len =
     exec_bind (vec_get sig tag) (\<lambda>t.
     if t \<noteq> 0x02 then Inr False
     else if len = 0 then Inr False
     else exec_bind (vec_get sig at) (\<lambda>b0.
     if b0 AND 0x80 \<noteq> 0 then Inr False
     else if 1 < len \<and> b0 = 0
     then exec_bind (vec_get sig (at + 1)) (\<lambda>b1. Inr (b1 AND 0x80 \<noteq> 0))
     else Inr True))"

definition IsValidSignatureEncoding :: "bytes \<Rightarrow> ('e, bool) exec" where
  "IsValidSignatureEncoding sig =
     (if length sig < 9 then Inr False
      else if 73 < length sig then Inr False
      else exec_bind (vec_get sig 0) (\<lambda>b0.
      if b0 \<noteq> 0x30 then Inr False
      else exec_bind (vec_get sig 1) (\<lambda>b1.
      if unat b1 \<noteq> length sig - 3 then Inr False
      else exec_bind (vec_get sig 3) (\<lambda>b3.
      let lenR = unat b3 in
      if length sig \<le> 5 + lenR then Inr False
      else exec_bind (vec_get sig (5 + lenR)) (\<lambda>bS.
      let lenS = unat bS in
      if lenR + lenS + 7 \<noteq> length sig then Inr False
      else exec_bind (der_integer sig 2 4 lenR) (\<lambda>okR.
      if \<not> okR then Inr False
      else der_integer sig (lenR + 4) (lenR + 6) lenS))))))"

text \<open>
  \<open>serror\<close> is the value of the caller's error variable: on a high \<open>S\<close> the function
  returns false and leaves it as it was. \<open>CheckLowS\<close> stands for
  \<open>CPubKey::CheckLowS\<close>, which asks the secp256k1 library.
\<close>

definition IsLowDERSignature ::
    "(bytes \<Rightarrow> bool) \<Rightarrow> valtype \<Rightarrow> ScriptError \<Rightarrow> (ScriptError, unit) exec" where
  "IsLowDERSignature CheckLowS vchSig serror =
     exec_bind (IsValidSignatureEncoding vchSig) (\<lambda>ok.
     if \<not> ok then Inl (Fail SCRIPT_ERR_SIG_DER)
     else if CheckLowS (butlast vchSig) then Inr () else Inl (Fail serror))"

definition IsDefinedHashtypeSignature :: "valtype \<Rightarrow> bool" where
  "IsDefinedHashtypeSignature vchSig =
     (if length vchSig = 0 then False
      else let nHashType = unat (last vchSig AND NOT (of_nat SIGHASH_ANYONECANPAY))
           in if nHashType < SIGHASH_ALL \<or> SIGHASH_SINGLE < nHashType then False else True)"

definition CheckSignatureEncoding ::
    "(bytes \<Rightarrow> bool) \<Rightarrow> valtype \<Rightarrow> u32 \<Rightarrow> ScriptError \<Rightarrow> (ScriptError, unit) exec" where
  "CheckSignatureEncoding CheckLowS vchSig flags serror =
     (if length vchSig = 0 then Inr ()
      else exec_bind (IsValidSignatureEncoding vchSig) (\<lambda>ok.
      if \<not> ok then Inl (Fail SCRIPT_ERR_SIG_DER)
      else exec_bind (if flag_set flags SCRIPT_VERIFY_LOW_S
                      then IsLowDERSignature CheckLowS vchSig serror else Inr ()) (\<lambda>_.
      if flag_set flags SCRIPT_VERIFY_STRICTENC \<and> \<not> IsDefinedHashtypeSignature vchSig
      then Inl (Fail SCRIPT_ERR_SIG_HASHTYPE)
      else Inr ())))"

definition CheckPubKeyEncoding :: "valtype \<Rightarrow> u32 \<Rightarrow> (ScriptError, unit) exec" where
  "CheckPubKeyEncoding vchPubKey flags =
     (if flag_set flags SCRIPT_VERIFY_STRICTENC \<and> \<not> IsCompressedOrUncompressedPubKey vchPubKey
      then Inl (Fail SCRIPT_ERR_PUBKEYTYPE) else Inr ())"

section \<open>Minimal pushes\<close>

definition CheckMinimalPush :: "valtype \<Rightarrow> opcodetype \<Rightarrow> bool" where
  "CheckMinimalPush data opcode =
     (if length data = 0 then opcode = OP_0
      else if length data = 1 \<and> 1 \<le> unat (data ! 0) \<and> unat (data ! 0) \<le> 16
      then opcode = OP_1 + (unat (data ! 0) - 1)
      else if length data = 1 \<and> data ! 0 = 0x81 then opcode = OP_1NEGATE
      else if length data \<le> 75 then opcode = length data
      else if length data \<le> 255 then opcode = OP_PUSHDATA1
      else if length data \<le> 65535 then opcode = OP_PUSHDATA2
      else True)"

end
