(* ===== verification/Interpreter.thy ===== *)
theory Interpreter
  imports Script_Checks Hash
begin

text \<open>
  The script interpreter \<open>EvalScript\<close> and \<open>VerifyScript\<close> of
  src/src/script/interpreter.cpp. Each case of the switch is a definition; the loop body,
  the loop and the two entry points are composed of them as in the code. A failing
  operation returns \<open>Fail\<close> with the error it sets, an exception of \<open>at()\<close>,
  \<open>popstack\<close> or a \<open>CScriptNum\<close> constructor is \<open>Throw\<close>, which \<open>EvalScript\<close> catches, and
  a failed assertion is \<open>Abort\<close>. The stack of a failing run is not part of the result:
  the callers of \<open>EvalScript\<close> modelled here discard it.
\<close>

section \<open>State and context\<close>

text \<open>The virtual functions of \<open>BaseSignatureChecker\<close>.\<close>

record checker =
  checker_CheckSig :: "valtype \<Rightarrow> valtype \<Rightarrow> script \<Rightarrow> u32 \<Rightarrow> bool"
  checker_CheckLockTime :: "int \<Rightarrow> bool"

definition BaseSignatureChecker :: checker where
  "BaseSignatureChecker =
     \<lparr>checker_CheckSig = \<lambda>_ _ _ _. False, checker_CheckLockTime = \<lambda>_. False\<rparr>"

text \<open>The arguments of \<open>EvalScript\<close> that do not change while it runs, and the library
  function behind \<open>CPubKey::CheckLowS\<close>.\<close>

record eval_ctx =
  cx_script :: script
  cx_flags :: u32
  cx_checker :: checker
  cx_branch :: u32
  cx_CheckLowS :: "bytes \<Rightarrow> bool"

text \<open>The context of a run with the base checker.\<close>

definition base_ctx :: "script \<Rightarrow> u32 \<Rightarrow> eval_ctx" where
  "base_ctx s flags =
     \<lparr>cx_script = s, cx_flags = flags, cx_checker = BaseSignatureChecker, cx_branch = 0,
      cx_CheckLowS = \<lambda>_. True\<rparr>"

text \<open>The local variables of the loop.\<close>

record eval_state =
  es_stack :: "valtype list"
  es_altstack :: "valtype list"
  es_vfExec :: "bool list"
  es_nOpCount :: int

abbreviation (input) vchFalse :: valtype where
  "vchFalse \<equiv> []"

abbreviation (input) vchTrue :: valtype where
  "vchTrue \<equiv> [1]"

definition cx_has :: "eval_ctx \<Rightarrow> u32 \<Rightarrow> bool" where
  "cx_has cx f = flag_set (cx_flags cx) f"

definition fRequireMinimal :: "eval_ctx \<Rightarrow> bool" where
  "fRequireMinimal cx = cx_has cx SCRIPT_VERIFY_MINIMALDATA"

text \<open>A number read from a stack element with the default size limit.\<close>

definition stack_num :: "eval_ctx \<Rightarrow> valtype list \<Rightarrow> int \<Rightarrow> (ScriptError, int) exec" where
  "stack_num cx stack i =
     exec_bind (stacktop stack i) (\<lambda>vch.
     CScriptNum_from_vch vch (fRequireMinimal cx) nDefaultMaxNumSize)"

definition bool_num :: "bool \<Rightarrow> int" where
  "bool_num b = (if b then 1 else 0)"

abbreviation (input) stack_error :: "(ScriptError, 'a) exec" where
  "stack_error \<equiv> Inl (Fail SCRIPT_ERR_INVALID_STACK_OPERATION)"

section \<open>Constants and control\<close>

definition op_push_value :: "opcodetype \<Rightarrow> valtype list \<Rightarrow> (ScriptError, valtype list) exec" where
  "op_push_value opcode stack =
     Inr (stack @ [CScriptNum_getvch (int opcode - (int OP_1 - 1))])"

definition op_CHECKLOCKTIMEVERIFY ::
    "eval_ctx \<Rightarrow> valtype list \<Rightarrow> (ScriptError, valtype list) exec" where
  "op_CHECKLOCKTIMEVERIFY cx stack =
     (if \<not> cx_has cx SCRIPT_VERIFY_CHECKLOCKTIMEVERIFY then
        (if cx_has cx SCRIPT_VERIFY_DISCOURAGE_UPGRADABLE_NOPS
         then Inl (Fail SCRIPT_ERR_DISCOURAGE_UPGRADABLE_NOPS) else Inr stack)
      else if length stack < 1 then stack_error
      else exec_bind (stacktop stack (- 1)) (\<lambda>vch.
      exec_bind (CScriptNum_from_vch vch (fRequireMinimal cx) 5) (\<lambda>nLockTime.
      if nLockTime < 0 then Inl (Fail SCRIPT_ERR_NEGATIVE_LOCKTIME)
      else if \<not> checker_CheckLockTime (cx_checker cx) nLockTime
      then Inl (Fail SCRIPT_ERR_UNSATISFIED_LOCKTIME)
      else Inr stack)))"

definition op_NOPx :: "eval_ctx \<Rightarrow> valtype list \<Rightarrow> (ScriptError, valtype list) exec" where
  "op_NOPx cx stack =
     (if cx_has cx SCRIPT_VERIFY_DISCOURAGE_UPGRADABLE_NOPS
      then Inl (Fail SCRIPT_ERR_DISCOURAGE_UPGRADABLE_NOPS) else Inr stack)"

definition op_IF :: "bool \<Rightarrow> opcodetype \<Rightarrow> eval_state \<Rightarrow> (ScriptError, eval_state) exec" where
  "op_IF fExec opcode st =
     (if fExec then
        (if length (es_stack st) < 1 then Inl (Fail SCRIPT_ERR_UNBALANCED_CONDITIONAL)
         else exec_bind (stacktop (es_stack st) (- 1)) (\<lambda>vch.
         let fValue = CastToBool vch;
             fValue = (if opcode = OP_NOTIF then \<not> fValue else fValue)
         in exec_bind (popstack (es_stack st)) (\<lambda>stack.
            Inr (st\<lparr>es_stack := stack, es_vfExec := es_vfExec st @ [fValue]\<rparr>))))
      else Inr (st\<lparr>es_vfExec := es_vfExec st @ [False]\<rparr>))"

definition op_ELSE :: "eval_state \<Rightarrow> (ScriptError, eval_state) exec" where
  "op_ELSE st =
     (if es_vfExec st = [] then Inl (Fail SCRIPT_ERR_UNBALANCED_CONDITIONAL)
      else Inr (st\<lparr>es_vfExec := butlast (es_vfExec st) @ [\<not> last (es_vfExec st)]\<rparr>))"

definition op_ENDIF :: "eval_state \<Rightarrow> (ScriptError, eval_state) exec" where
  "op_ENDIF st =
     (if es_vfExec st = [] then Inl (Fail SCRIPT_ERR_UNBALANCED_CONDITIONAL)
      else Inr (st\<lparr>es_vfExec := butlast (es_vfExec st)\<rparr>))"

definition op_VERIFY :: "valtype list \<Rightarrow> (ScriptError, valtype list) exec" where
  "op_VERIFY stack =
     (if length stack < 1 then stack_error
      else exec_bind (stacktop stack (- 1)) (\<lambda>vch.
      if CastToBool vch then popstack stack else Inl (Fail SCRIPT_ERR_VERIFY)))"

section \<open>Stack operations\<close>

definition op_TOALTSTACK :: "eval_state \<Rightarrow> (ScriptError, eval_state) exec" where
  "op_TOALTSTACK st =
     (if length (es_stack st) < 1 then stack_error
      else exec_bind (stacktop (es_stack st) (- 1)) (\<lambda>vch.
      exec_bind (popstack (es_stack st)) (\<lambda>stack.
      Inr (st\<lparr>es_stack := stack, es_altstack := es_altstack st @ [vch]\<rparr>))))"

definition op_FROMALTSTACK :: "eval_state \<Rightarrow> (ScriptError, eval_state) exec" where
  "op_FROMALTSTACK st =
     (if length (es_altstack st) < 1 then Inl (Fail SCRIPT_ERR_INVALID_ALTSTACK_OPERATION)
      else exec_bind (stacktop (es_altstack st) (- 1)) (\<lambda>vch.
      exec_bind (popstack (es_altstack st)) (\<lambda>altstack.
      Inr (st\<lparr>es_stack := es_stack st @ [vch], es_altstack := altstack\<rparr>))))"

definition op_2DROP :: "valtype list \<Rightarrow> (ScriptError, valtype list) exec" where
  "op_2DROP stack =
     (if length stack < 2 then stack_error else exec_bind (popstack stack) popstack)"

definition op_2DUP :: "valtype list \<Rightarrow> (ScriptError, valtype list) exec" where
  "op_2DUP stack =
     (if length stack < 2 then stack_error
      else exec_bind (stacktop stack (- 2)) (\<lambda>vch1.
      exec_bind (stacktop stack (- 1)) (\<lambda>vch2.
      Inr (stack @ [vch1] @ [vch2]))))"

definition op_3DUP :: "valtype list \<Rightarrow> (ScriptError, valtype list) exec" where
  "op_3DUP stack =
     (if length stack < 3 then stack_error
      else exec_bind (stacktop stack (- 3)) (\<lambda>vch1.
      exec_bind (stacktop stack (- 2)) (\<lambda>vch2.
      exec_bind (stacktop stack (- 1)) (\<lambda>vch3.
      Inr (stack @ [vch1] @ [vch2] @ [vch3])))))"

definition op_2OVER :: "valtype list \<Rightarrow> (ScriptError, valtype list) exec" where
  "op_2OVER stack =
     (if length stack < 4 then stack_error
      else exec_bind (stacktop stack (- 4)) (\<lambda>vch1.
      exec_bind (stacktop stack (- 3)) (\<lambda>vch2.
      Inr (stack @ [vch1] @ [vch2]))))"

definition op_2ROT :: "valtype list \<Rightarrow> (ScriptError, valtype list) exec" where
  "op_2ROT stack =
     (if length stack < 6 then stack_error
      else exec_bind (stacktop stack (- 6)) (\<lambda>vch1.
      exec_bind (stacktop stack (- 5)) (\<lambda>vch2.
      Inr (vec_erase stack (length stack - 6) (length stack - 4) @ [vch1] @ [vch2]))))"

text \<open>\<open>swap(stacktop(i), stacktop(j))\<close>.\<close>

definition stack_swap :: "valtype list \<Rightarrow> int \<Rightarrow> int \<Rightarrow> (ScriptError, valtype list) exec" where
  "stack_swap stack i j =
     exec_bind (stacktop stack i) (\<lambda>_.
     exec_bind (stacktop stack j) (\<lambda>_.
     Inr (vec_swap stack (nat (int (length stack) + i)) (nat (int (length stack) + j)))))"

definition op_2SWAP :: "valtype list \<Rightarrow> (ScriptError, valtype list) exec" where
  "op_2SWAP stack =
     (if length stack < 4 then stack_error
      else exec_bind (stack_swap stack (- 4) (- 2)) (\<lambda>stack. stack_swap stack (- 3) (- 1)))"

definition op_IFDUP :: "valtype list \<Rightarrow> (ScriptError, valtype list) exec" where
  "op_IFDUP stack =
     (if length stack < 1 then stack_error
      else exec_bind (stacktop stack (- 1)) (\<lambda>vch.
      if CastToBool vch then Inr (stack @ [vch]) else Inr stack))"

definition op_DEPTH :: "valtype list \<Rightarrow> (ScriptError, valtype list) exec" where
  "op_DEPTH stack = Inr (stack @ [CScriptNum_getvch (int (length stack))])"

definition op_DROP :: "valtype list \<Rightarrow> (ScriptError, valtype list) exec" where
  "op_DROP stack = (if length stack < 1 then stack_error else popstack stack)"

definition op_DUP :: "valtype list \<Rightarrow> (ScriptError, valtype list) exec" where
  "op_DUP stack =
     (if length stack < 1 then stack_error
      else exec_bind (stacktop stack (- 1)) (\<lambda>vch. Inr (stack @ [vch])))"

definition op_NIP :: "valtype list \<Rightarrow> (ScriptError, valtype list) exec" where
  "op_NIP stack =
     (if length stack < 2 then stack_error
      else Inr (vec_erase stack (length stack - 2) (length stack - 1)))"

definition op_OVER :: "valtype list \<Rightarrow> (ScriptError, valtype list) exec" where
  "op_OVER stack =
     (if length stack < 2 then stack_error
      else exec_bind (stacktop stack (- 2)) (\<lambda>vch. Inr (stack @ [vch])))"

definition op_PICK_ROLL ::
    "eval_ctx \<Rightarrow> opcodetype \<Rightarrow> valtype list \<Rightarrow> (ScriptError, valtype list) exec" where
  "op_PICK_ROLL cx opcode stack =
     (if length stack < 2 then stack_error
      else exec_bind (stack_num cx stack (- 1)) (\<lambda>bn.
      let n = CScriptNum_getint bn in
      exec_bind (popstack stack) (\<lambda>stack.
      if n < 0 \<or> int (length stack) \<le> n then stack_error
      else exec_bind (stacktop stack (- n - 1)) (\<lambda>vch.
      let stack = (if opcode = OP_ROLL
                   then vec_erase stack (length stack - nat n - 1) (length stack - nat n)
                   else stack)
      in Inr (stack @ [vch])))))"

definition op_ROT :: "valtype list \<Rightarrow> (ScriptError, valtype list) exec" where
  "op_ROT stack =
     (if length stack < 3 then stack_error
      else exec_bind (stack_swap stack (- 3) (- 2)) (\<lambda>stack. stack_swap stack (- 2) (- 1)))"

definition op_SWAP :: "valtype list \<Rightarrow> (ScriptError, valtype list) exec" where
  "op_SWAP stack = (if length stack < 2 then stack_error else stack_swap stack (- 2) (- 1))"

definition op_TUCK :: "valtype list \<Rightarrow> (ScriptError, valtype list) exec" where
  "op_TUCK stack =
     (if length stack < 2 then stack_error
      else exec_bind (stacktop stack (- 1)) (\<lambda>vch.
      Inr (vec_insert stack (length stack - 2) vch)))"

definition op_SIZE :: "valtype list \<Rightarrow> (ScriptError, valtype list) exec" where
  "op_SIZE stack =
     (if length stack < 1 then stack_error
      else exec_bind (stacktop stack (- 1)) (\<lambda>vch.
      Inr (stack @ [CScriptNum_getvch (int (length vch))])))"

section \<open>Comparison and numbers\<close>

definition op_EQUAL :: "opcodetype \<Rightarrow> valtype list \<Rightarrow> (ScriptError, valtype list) exec" where
  "op_EQUAL opcode stack =
     (if length stack < 2 then stack_error
      else exec_bind (stacktop stack (- 2)) (\<lambda>vch1.
      exec_bind (stacktop stack (- 1)) (\<lambda>vch2.
      let fEqual = (vch1 = vch2) in
      exec_bind (popstack stack) (\<lambda>stack.
      exec_bind (popstack stack) (\<lambda>stack.
      let stack = stack @ [if fEqual then vchTrue else vchFalse] in
      if opcode = OP_EQUALVERIFY
      then (if fEqual then popstack stack else Inl (Fail SCRIPT_ERR_EQUALVERIFY))
      else Inr stack)))))"

definition numeric1 :: "opcodetype \<Rightarrow> int \<Rightarrow> (ScriptError, int) exec" where
  "numeric1 opcode bn =
     (if opcode = OP_1ADD then CScriptNum_plus bn 1
      else if opcode = OP_1SUB then CScriptNum_minus bn 1
      else if opcode = OP_NEGATE then CScriptNum_uminus bn
      else if opcode = OP_ABS then (if bn < 0 then CScriptNum_uminus bn else Inr bn)
      else if opcode = OP_NOT then Inr (bool_num (bn = 0))
      else if opcode = OP_0NOTEQUAL then Inr (bool_num (bn \<noteq> 0))
      else Inl Abort)"

definition op_numeric1 ::
    "eval_ctx \<Rightarrow> opcodetype \<Rightarrow> valtype list \<Rightarrow> (ScriptError, valtype list) exec" where
  "op_numeric1 cx opcode stack =
     (if length stack < 1 then stack_error
      else exec_bind (stack_num cx stack (- 1)) (\<lambda>bn.
      exec_bind (numeric1 opcode bn) (\<lambda>bn.
      exec_bind (popstack stack) (\<lambda>stack.
      Inr (stack @ [CScriptNum_getvch bn])))))"

definition numeric2 :: "opcodetype \<Rightarrow> int \<Rightarrow> int \<Rightarrow> (ScriptError, int) exec" where
  "numeric2 opcode bn1 bn2 =
     (if opcode = OP_ADD then CScriptNum_plus bn1 bn2
      else if opcode = OP_SUB then CScriptNum_minus bn1 bn2
      else if opcode = OP_BOOLAND then Inr (bool_num (bn1 \<noteq> 0 \<and> bn2 \<noteq> 0))
      else if opcode = OP_BOOLOR then Inr (bool_num (bn1 \<noteq> 0 \<or> bn2 \<noteq> 0))
      else if opcode = OP_NUMEQUAL then Inr (bool_num (bn1 = bn2))
      else if opcode = OP_NUMEQUALVERIFY then Inr (bool_num (bn1 = bn2))
      else if opcode = OP_NUMNOTEQUAL then Inr (bool_num (bn1 \<noteq> bn2))
      else if opcode = OP_LESSTHAN then Inr (bool_num (bn1 < bn2))
      else if opcode = OP_GREATERTHAN then Inr (bool_num (bn2 < bn1))
      else if opcode = OP_LESSTHANOREQUAL then Inr (bool_num (bn1 \<le> bn2))
      else if opcode = OP_GREATERTHANOREQUAL then Inr (bool_num (bn2 \<le> bn1))
      else if opcode = OP_MIN then Inr (if bn1 < bn2 then bn1 else bn2)
      else if opcode = OP_MAX then Inr (if bn2 < bn1 then bn1 else bn2)
      else Inl Abort)"

definition op_numeric2 ::
    "eval_ctx \<Rightarrow> opcodetype \<Rightarrow> valtype list \<Rightarrow> (ScriptError, valtype list) exec" where
  "op_numeric2 cx opcode stack =
     (if length stack < 2 then stack_error
      else exec_bind (stack_num cx stack (- 2)) (\<lambda>bn1.
      exec_bind (stack_num cx stack (- 1)) (\<lambda>bn2.
      exec_bind (numeric2 opcode bn1 bn2) (\<lambda>bn.
      exec_bind (popstack stack) (\<lambda>stack.
      exec_bind (popstack stack) (\<lambda>stack.
      let stack = stack @ [CScriptNum_getvch bn] in
      if opcode = OP_NUMEQUALVERIFY
      then exec_bind (stacktop stack (- 1)) (\<lambda>vch.
           if CastToBool vch then popstack stack else Inl (Fail SCRIPT_ERR_NUMEQUALVERIFY))
      else Inr stack))))))"

definition op_WITHIN :: "eval_ctx \<Rightarrow> valtype list \<Rightarrow> (ScriptError, valtype list) exec" where
  "op_WITHIN cx stack =
     (if length stack < 3 then stack_error
      else exec_bind (stack_num cx stack (- 3)) (\<lambda>bn1.
      exec_bind (stack_num cx stack (- 2)) (\<lambda>bn2.
      exec_bind (stack_num cx stack (- 1)) (\<lambda>bn3.
      let fValue = (bn2 \<le> bn1 \<and> bn1 < bn3) in
      exec_bind (popstack stack) (\<lambda>stack.
      exec_bind (popstack stack) (\<lambda>stack.
      exec_bind (popstack stack) (\<lambda>stack.
      Inr (stack @ [if fValue then vchTrue else vchFalse]))))))))"

section \<open>Hashes and signatures\<close>

definition op_hash :: "opcodetype \<Rightarrow> valtype list \<Rightarrow> (ScriptError, valtype list) exec" where
  "op_hash opcode stack =
     (if length stack < 1 then stack_error
      else exec_bind (stacktop stack (- 1)) (\<lambda>vch.
      let vchHash = (if opcode = OP_RIPEMD160 then CRIPEMD160_hash vch
                     else if opcode = OP_SHA1 then CSHA1_hash vch
                     else if opcode = OP_SHA256 then CSHA256_hash vch
                     else if opcode = OP_HASH160
                     then CHash160_Finalize (CHash160_Write CHash160_new vch)
                     else CHash256_Finalize (CHash256_Write CHash256_new vch))
      in exec_bind (popstack stack) (\<lambda>stack. Inr (stack @ [vchHash]))))"

text \<open>The two encoding checks before a signature check. The error variable still has the
  value \<open>EvalScript\<close> starts it with.\<close>

definition check_encodings :: "eval_ctx \<Rightarrow> valtype \<Rightarrow> valtype \<Rightarrow> (ScriptError, unit) exec" where
  "check_encodings cx vchSig vchPubKey =
     exec_bind (CheckSignatureEncoding (cx_CheckLowS cx) vchSig (cx_flags cx)
                  SCRIPT_ERR_UNKNOWN_ERROR) (\<lambda>_.
     CheckPubKeyEncoding vchPubKey (cx_flags cx))"

definition cx_CheckSig :: "eval_ctx \<Rightarrow> valtype \<Rightarrow> valtype \<Rightarrow> bool" where
  "cx_CheckSig cx vchSig vchPubKey =
     checker_CheckSig (cx_checker cx) vchSig vchPubKey (cx_script cx) (cx_branch cx)"

definition op_CHECKSIG ::
    "eval_ctx \<Rightarrow> opcodetype \<Rightarrow> valtype list \<Rightarrow> (ScriptError, valtype list) exec" where
  "op_CHECKSIG cx opcode stack =
     (if length stack < 2 then stack_error
      else exec_bind (stacktop stack (- 2)) (\<lambda>vchSig.
      exec_bind (stacktop stack (- 1)) (\<lambda>vchPubKey.
      exec_bind (check_encodings cx vchSig vchPubKey) (\<lambda>_.
      let fSuccess = cx_CheckSig cx vchSig vchPubKey in
      exec_bind (popstack stack) (\<lambda>stack.
      exec_bind (popstack stack) (\<lambda>stack.
      let stack = stack @ [if fSuccess then vchTrue else vchFalse] in
      if opcode = OP_CHECKSIGVERIFY
      then (if fSuccess then popstack stack else Inl (Fail SCRIPT_ERR_CHECKSIGVERIFY))
      else Inr stack))))))"

text \<open>The loop over signatures and keys of \<open>OP_CHECKMULTISIG\<close>; its result is \<open>fSuccess\<close>.\<close>

function multisig_loop ::
    "eval_ctx \<Rightarrow> valtype list \<Rightarrow> int \<Rightarrow> int \<Rightarrow> int \<Rightarrow> int \<Rightarrow> (ScriptError, bool) exec" where
  "multisig_loop cx stack nSigsCount isig nKeysCount ikey =
     (if 0 < nSigsCount then
        exec_bind (stacktop stack (- isig)) (\<lambda>vchSig.
        exec_bind (stacktop stack (- ikey)) (\<lambda>vchPubKey.
        exec_bind (check_encodings cx vchSig vchPubKey) (\<lambda>_.
        let fOk = cx_CheckSig cx vchSig vchPubKey;
            isig = (if fOk then isig + 1 else isig);
            nSigsCount = (if fOk then nSigsCount - 1 else nSigsCount);
            ikey = ikey + 1;
            nKeysCount = nKeysCount - 1
        in if nKeysCount < nSigsCount then Inr False
           else multisig_loop cx stack nSigsCount isig nKeysCount ikey)))
      else Inr True)"
  by pat_completeness auto
termination
  by (relation "measure (\<lambda>(cx, stack, s, i, k, j). nat k)") (auto split: if_splits)

declare multisig_loop.simps [simp del]

definition pop_many :: "nat \<Rightarrow> 'a list \<Rightarrow> ('e, 'a list) exec" where
  "pop_many n stack = ((\<lambda>r. exec_bind r popstack) ^^ n) (Inr stack)"

definition op_CHECKMULTISIG ::
    "eval_ctx \<Rightarrow> opcodetype \<Rightarrow> eval_state \<Rightarrow> (ScriptError, eval_state) exec" where
  "op_CHECKMULTISIG cx opcode st =
     (let stack = es_stack st in
      if int (length stack) < 1 then stack_error
      else exec_bind (stack_num cx stack (- 1)) (\<lambda>bnKeys.
      let nKeysCount = CScriptNum_getint bnKeys in
      if nKeysCount < 0 \<or> 20 < nKeysCount then Inl (Fail SCRIPT_ERR_PUBKEY_COUNT)
      else let nOpCount = es_nOpCount st + nKeysCount in
      if 201 < nOpCount then Inl (Fail SCRIPT_ERR_OP_COUNT)
      else let ikey = 2; i = 2 + nKeysCount in
      if int (length stack) < i then stack_error
      else exec_bind (stack_num cx stack (- i)) (\<lambda>bnSigs.
      let nSigsCount = CScriptNum_getint bnSigs in
      if nSigsCount < 0 \<or> nKeysCount < nSigsCount then Inl (Fail SCRIPT_ERR_SIG_COUNT)
      else let isig = i + 1; i = i + 1 + nSigsCount in
      if int (length stack) < i then stack_error
      else exec_bind (multisig_loop cx stack nSigsCount isig nKeysCount ikey) (\<lambda>fSuccess.
      exec_bind (pop_many (nat (i - 1)) stack) (\<lambda>stack.
      if length stack < 1 then stack_error
      else exec_bind (stacktop stack (- 1)) (\<lambda>dummy.
      if cx_has cx SCRIPT_VERIFY_NULLDUMMY \<and> length dummy \<noteq> 0
      then Inl (Fail SCRIPT_ERR_SIG_NULLDUMMY)
      else exec_bind (popstack stack) (\<lambda>stack.
      let stack = stack @ [if fSuccess then vchTrue else vchFalse] in
      exec_bind
        (if opcode = OP_CHECKMULTISIGVERIFY
         then (if fSuccess then popstack stack else Inl (Fail SCRIPT_ERR_CHECKMULTISIGVERIFY))
         else Inr stack) (\<lambda>stack.
      Inr (st\<lparr>es_stack := stack, es_nOpCount := nOpCount\<rparr>)))))))))"

section \<open>The loop\<close>

definition on_stack ::
    "(valtype list \<Rightarrow> (ScriptError, valtype list) exec) \<Rightarrow> eval_state \<Rightarrow>
     (ScriptError, eval_state) exec" where
  "on_stack f st = exec_bind (f (es_stack st)) (\<lambda>stack. Inr (st\<lparr>es_stack := stack\<rparr>))"

definition eval_switch ::
    "eval_ctx \<Rightarrow> bool \<Rightarrow> opcodetype \<Rightarrow> eval_state \<Rightarrow> (ScriptError, eval_state) exec" where
  "eval_switch cx fExec opcode st =
     (if opcode = OP_1NEGATE \<or> (OP_1 \<le> opcode \<and> opcode \<le> OP_16)
      then on_stack (op_push_value opcode) st
      else if opcode = OP_NOP then Inr st
      else if opcode = OP_CHECKLOCKTIMEVERIFY then on_stack (op_CHECKLOCKTIMEVERIFY cx) st
      else if opcode = OP_NOP1 \<or> (OP_NOP3 \<le> opcode \<and> opcode \<le> OP_NOP10)
      then on_stack (op_NOPx cx) st
      else if opcode = OP_IF \<or> opcode = OP_NOTIF then op_IF fExec opcode st
      else if opcode = OP_ELSE then op_ELSE st
      else if opcode = OP_ENDIF then op_ENDIF st
      else if opcode = OP_VERIFY then on_stack op_VERIFY st
      else if opcode = OP_RETURN then Inl (Fail SCRIPT_ERR_OP_RETURN)
      else if opcode = OP_TOALTSTACK then op_TOALTSTACK st
      else if opcode = OP_FROMALTSTACK then op_FROMALTSTACK st
      else if opcode = OP_2DROP then on_stack op_2DROP st
      else if opcode = OP_2DUP then on_stack op_2DUP st
      else if opcode = OP_3DUP then on_stack op_3DUP st
      else if opcode = OP_2OVER then on_stack op_2OVER st
      else if opcode = OP_2ROT then on_stack op_2ROT st
      else if opcode = OP_2SWAP then on_stack op_2SWAP st
      else if opcode = OP_IFDUP then on_stack op_IFDUP st
      else if opcode = OP_DEPTH then on_stack op_DEPTH st
      else if opcode = OP_DROP then on_stack op_DROP st
      else if opcode = OP_DUP then on_stack op_DUP st
      else if opcode = OP_NIP then on_stack op_NIP st
      else if opcode = OP_OVER then on_stack op_OVER st
      else if opcode = OP_PICK \<or> opcode = OP_ROLL then on_stack (op_PICK_ROLL cx opcode) st
      else if opcode = OP_ROT then on_stack op_ROT st
      else if opcode = OP_SWAP then on_stack op_SWAP st
      else if opcode = OP_TUCK then on_stack op_TUCK st
      else if opcode = OP_SIZE then on_stack op_SIZE st
      else if opcode = OP_EQUAL \<or> opcode = OP_EQUALVERIFY then on_stack (op_EQUAL opcode) st
      else if opcode \<in> {OP_1ADD, OP_1SUB, OP_NEGATE, OP_ABS, OP_NOT, OP_0NOTEQUAL}
      then on_stack (op_numeric1 cx opcode) st
      else if opcode \<in> {OP_ADD, OP_SUB, OP_BOOLAND, OP_BOOLOR, OP_NUMEQUAL, OP_NUMEQUALVERIFY,
                        OP_NUMNOTEQUAL, OP_LESSTHAN, OP_GREATERTHAN, OP_LESSTHANOREQUAL,
                        OP_GREATERTHANOREQUAL, OP_MIN, OP_MAX}
      then on_stack (op_numeric2 cx opcode) st
      else if opcode = OP_WITHIN then on_stack (op_WITHIN cx) st
      else if opcode \<in> {OP_RIPEMD160, OP_SHA1, OP_SHA256, OP_HASH160, OP_HASH256}
      then on_stack (op_hash opcode) st
      else if opcode = OP_CHECKSIG \<or> opcode = OP_CHECKSIGVERIFY
      then on_stack (op_CHECKSIG cx opcode) st
      else if opcode = OP_CHECKMULTISIG \<or> opcode = OP_CHECKMULTISIGVERIFY
      then op_CHECKMULTISIG cx opcode st
      else Inl (Fail SCRIPT_ERR_BAD_OPCODE))"

definition disabled_opcode :: "opcodetype \<Rightarrow> bool" where
  "disabled_opcode opcode \<longleftrightarrow>
     opcode \<in> {OP_CAT, OP_SUBSTR, OP_LEFT, OP_RIGHT, OP_INVERT, OP_AND, OP_OR, OP_XOR, OP_2MUL,
               OP_2DIV, OP_MUL, OP_DIV, OP_MOD, OP_LSHIFT, OP_RSHIFT, OP_CODESEPARATOR}"

text \<open>One turn of the loop after the opcode has been read and counted.\<close>

definition eval_op ::
    "eval_ctx \<Rightarrow> opcodetype \<Rightarrow> valtype \<Rightarrow> eval_state \<Rightarrow> (ScriptError, eval_state) exec" where
  "eval_op cx opcode vchPushValue st =
     (let fExec = (count_list (es_vfExec st) False = 0) in
      if disabled_opcode opcode then Inl (Fail SCRIPT_ERR_DISABLED_OPCODE)
      else exec_bind
        (if fExec \<and> opcode \<le> OP_PUSHDATA4 then
           (if fRequireMinimal cx \<and> \<not> CheckMinimalPush vchPushValue opcode
            then Inl (Fail SCRIPT_ERR_MINIMALDATA)
            else Inr (st\<lparr>es_stack := es_stack st @ [vchPushValue]\<rparr>))
         else if fExec \<or> (OP_IF \<le> opcode \<and> opcode \<le> OP_ENDIF)
         then eval_switch cx fExec opcode st
         else Inr st) (\<lambda>st.
      if 1000 < length (es_stack st) + length (es_altstack st)
      then Inl (Fail SCRIPT_ERR_STACK_SIZE) else Inr st))"

definition eval_step ::
    "eval_ctx \<Rightarrow> bytes \<Rightarrow> eval_state \<Rightarrow> (ScriptError, bytes \<times> eval_state) exec" where
  "eval_step cx pc st =
     (case GetOp2 pc of (ok, opcode, vchPushValue, pc') \<Rightarrow>
      if \<not> ok then Inl (Fail SCRIPT_ERR_BAD_OPCODE)
      else if MAX_SCRIPT_ELEMENT_SIZE < length vchPushValue then Inl (Fail SCRIPT_ERR_PUSH_SIZE)
      else let nOpCount = (if OP_16 < opcode then es_nOpCount st + 1 else es_nOpCount st) in
      if OP_16 < opcode \<and> 201 < nOpCount then Inl (Fail SCRIPT_ERR_OP_COUNT)
      else exec_bind (eval_op cx opcode vchPushValue (st\<lparr>es_nOpCount := nOpCount\<rparr>)) (\<lambda>st.
      Inr (pc', st)))"

lemma eval_step_shorter:
  "eval_step cx pc st = Inr (pc', st') \<Longrightarrow> pc \<noteq> [] \<Longrightarrow> length pc' < length pc"
  by (auto simp: eval_step_def Let_def split: prod.splits if_splits dest: GetOp2_shorter)

function eval_loop :: "eval_ctx \<Rightarrow> bytes \<Rightarrow> eval_state \<Rightarrow> (ScriptError, eval_state) exec" where
  "eval_loop cx pc st =
     (if pc = [] then Inr st
      else exec_bind (eval_step cx pc st) (\<lambda>(pc', st'). eval_loop cx pc' st'))"
  by pat_completeness auto
termination
  by (relation "measure (\<lambda>(cx, pc, st). length pc)") (auto dest: eval_step_shorter)

declare eval_loop.simps [simp del]

definition EvalScript ::
    "eval_ctx \<Rightarrow> valtype list \<Rightarrow> (ScriptError, valtype list) exec" where
  "EvalScript cx stack =
     (if MAX_SCRIPT_SIZE < length (cx_script cx) then Inl (Fail SCRIPT_ERR_SCRIPT_SIZE)
      else case eval_loop cx (cx_script cx)
                  \<lparr>es_stack = stack, es_altstack = [], es_vfExec = [], es_nOpCount = 0\<rparr> of
        Inl Throw \<Rightarrow> Inl (Fail SCRIPT_ERR_UNKNOWN_ERROR)
      | Inl e \<Rightarrow> Inl e
      | Inr st \<Rightarrow> if es_vfExec st \<noteq> [] then Inl (Fail SCRIPT_ERR_UNBALANCED_CONDITIONAL)
                  else Inr (es_stack st))"

section \<open>VerifyScript\<close>

definition eval_false :: "valtype list \<Rightarrow> bool" where
  "eval_false stack \<longleftrightarrow> stack = [] \<or> \<not> CastToBool (last stack)"

definition VerifyScript :: "eval_ctx \<Rightarrow> script \<Rightarrow> script \<Rightarrow> (ScriptError, unit) exec" where
  "VerifyScript cx scriptSig scriptPubKey =
     (if cx_has cx SCRIPT_VERIFY_SIGPUSHONLY \<and> \<not> IsPushOnly scriptSig
      then Inl (Fail SCRIPT_ERR_SIG_PUSHONLY)
      else exec_bind (EvalScript (cx\<lparr>cx_script := scriptSig\<rparr>) []) (\<lambda>stack.
      let stackCopy = (if cx_has cx SCRIPT_VERIFY_P2SH then stack else []) in
      exec_bind (EvalScript (cx\<lparr>cx_script := scriptPubKey\<rparr>) stack) (\<lambda>stack.
      if eval_false stack then Inl (Fail SCRIPT_ERR_EVAL_FALSE)
      else exec_bind
        (if cx_has cx SCRIPT_VERIFY_P2SH \<and> IsPayToScriptHash scriptPubKey then
           (if \<not> IsPushOnly scriptSig then Inl (Fail SCRIPT_ERR_SIG_PUSHONLY)
            else exec_bind (exec_assert (stackCopy \<noteq> [])) (\<lambda>_.
            let pubKey2 = last stackCopy in
            exec_bind (popstack stackCopy) (\<lambda>stack.
            exec_bind (EvalScript (cx\<lparr>cx_script := pubKey2\<rparr>) stack) (\<lambda>stack.
            if eval_false stack then Inl (Fail SCRIPT_ERR_EVAL_FALSE) else Inr stack))))
         else Inr stack) (\<lambda>stack.
      if cx_has cx SCRIPT_VERIFY_CLEANSTACK then
        exec_bind (exec_assert (cx_has cx SCRIPT_VERIFY_P2SH)) (\<lambda>_.
        if length stack \<noteq> 1 then Inl (Fail SCRIPT_ERR_CLEANSTACK) else Inr ())
      else Inr ()))))"

end
