(* ===== verification/Interp_Limits.thy ===== *)
theory Interp_Limits
  imports Interpreter
begin

text \<open>
  The resource limits of the script interpreter: whatever the script, the flags and the
  signature checker, no assertion of the interpreter fails, no signature byte is read out
  of range, and the stacks stay within 1000 elements of at most 520 bytes.
\<close>

section \<open>Weakest preconditions of the stack primitives\<close>

lemma exec_all_stack [wp_simps]:
  "exec_all P (stacktop s i) \<longleftrightarrow>
     (0 \<le> int (length s) + i \<longrightarrow> i < 0 \<longrightarrow> P (s ! nat (int (length s) + i)))"
  "exec_all Q (popstack s) \<longleftrightarrow> (s \<noteq> [] \<longrightarrow> Q (butlast s))"
  by (auto simp: exec_all_def stacktop_def popstack_def vec_at_def)

lemma exec_all_from_vch [wp_simps]:
  "exec_all P (CScriptNum_from_vch v f k :: ('e, int) exec) \<longleftrightarrow>
     (\<forall>n. CScriptNum_from_vch v f k = (Inr n :: ('e, int) exec) \<longrightarrow> P n)"
proof -
  have "CScriptNum_from_vch v f k \<noteq> (Inl Abort :: ('e, int) exec)"
    by (simp add: CScriptNum_from_vch_def CScriptNum_set_vch_def Let_def)
  then show ?thesis by (simp add: exec_all_iff)
qed

section \<open>Limits\<close>

definition elems_ok :: "valtype list \<Rightarrow> bool" where
  "elems_ok s \<longleftrightarrow> (\<forall>v \<in> set s. length v \<le> MAX_SCRIPT_ELEMENT_SIZE)"

lemma elems_ok_simps [simp]:
  "elems_ok []"
  "elems_ok (v # s) \<longleftrightarrow> length v \<le> 520 \<and> elems_ok s"
  "elems_ok (s @ t) \<longleftrightarrow> elems_ok s \<and> elems_ok t"
  by (auto simp: elems_ok_def)

lemma elems_ok_subset: "set t \<subseteq> set s \<Longrightarrow> elems_ok s \<Longrightarrow> elems_ok t"
  by (auto simp: elems_ok_def)

lemma elems_ok_mono [simp]:
  "elems_ok s \<Longrightarrow> elems_ok (butlast s)"
  "elems_ok s \<Longrightarrow> elems_ok (vec_erase s i j)"
  "elems_ok s \<Longrightarrow> length v \<le> 520 \<Longrightarrow> elems_ok (vec_insert s i v)"
  "elems_ok s \<Longrightarrow> i < length s \<Longrightarrow> j < length s \<Longrightarrow> elems_ok (vec_swap s i j)"
  "elems_ok s \<Longrightarrow> i < length s \<Longrightarrow> length (s ! i) \<le> 520"
  using set_vec_ops(1) [of s i j] set_vec_ops(2) [of s i v] set_vec_ops(3) [of i s j]
  by (auto simp: elems_ok_def dest: in_set_butlastD)

lemma elems_ok_top [simp]: "elems_ok s \<Longrightarrow> s \<noteq> [] \<Longrightarrow> length (s ! nat (int (length s) - 1)) \<le> 520"
  by (cases s rule: rev_cases) (auto simp: nth_append)

definition preserves_limits :: "(valtype list \<Rightarrow> (ScriptError, valtype list) exec) \<Rightarrow> bool" where
  "preserves_limits f \<longleftrightarrow> (\<forall>s. elems_ok s \<longrightarrow> length s \<le> 1000 \<longrightarrow> exec_all elems_ok (f s))"

lemma getvch_small: "\<bar>n\<bar> < 2 ^ 39 \<Longrightarrow> length (CScriptNum_getvch n) \<le> 5"
  using length_serialize [of 5 n] by (auto simp: CScriptNum_getvch_def)

lemma getvch_limit [simp]: "\<bar>n\<bar> < 2 ^ 39 \<Longrightarrow> length (CScriptNum_getvch n) \<le> 520"
  using getvch_small [of n] by simp

lemma limits_control:
  "opcode \<le> 0x60 \<Longrightarrow> preserves_limits (op_push_value opcode)"
  "preserves_limits (op_CHECKLOCKTIMEVERIFY cx)"
  "preserves_limits (op_NOPx cx)"
  "preserves_limits op_VERIFY"
  by (auto simp: preserves_limits_def op_push_value_def op_CHECKLOCKTIMEVERIFY_def op_NOPx_def
      op_VERIFY_def wp_simps)

lemma limits_stack_ops:
  "preserves_limits op_2DROP" "preserves_limits op_2DUP" "preserves_limits op_3DUP"
  "preserves_limits op_2OVER" "preserves_limits op_2ROT" "preserves_limits op_IFDUP"
  "preserves_limits op_DEPTH" "preserves_limits op_DROP" "preserves_limits op_DUP"
  "preserves_limits op_NIP" "preserves_limits op_OVER" "preserves_limits op_TUCK"
  by (auto simp: preserves_limits_def op_2DROP_def op_2DUP_def op_3DUP_def op_2OVER_def
      op_2ROT_def op_IFDUP_def op_DEPTH_def op_DROP_def op_DUP_def op_NIP_def op_OVER_def
      op_TUCK_def wp_simps)

lemma limits_SIZE: "preserves_limits op_SIZE"
proof -
  have "length (CScriptNum_getvch (int (length (s ! nat (int (length s) - 1))))) \<le> 520"
    if "elems_ok s" "s \<noteq> []" for s
    using elems_ok_top [OF that] by (intro getvch_limit) simp
  then show ?thesis by (auto simp: preserves_limits_def op_SIZE_def wp_simps)
qed

lemma stack_swap_wp:
  "- i \<le> int (length s) \<Longrightarrow> i < 0 \<Longrightarrow> - j \<le> int (length s) \<Longrightarrow> j < 0 \<Longrightarrow> elems_ok s \<Longrightarrow>
   exec_all (\<lambda>t. elems_ok t \<and> length t = length s) (stack_swap s i j)"
  by (auto simp: stack_swap_def wp_simps)

lemma limits_swaps: "preserves_limits op_2SWAP" "preserves_limits op_ROT" "preserves_limits op_SWAP"
  unfolding preserves_limits_def op_2SWAP_def op_ROT_def op_SWAP_def wp_simps
  by (auto intro!: exec_all_mono [OF stack_swap_wp])

lemma limits_EQUAL: "preserves_limits (op_EQUAL opcode)"
  by (auto simp: preserves_limits_def op_EQUAL_def Let_def wp_simps)

lemma limits_PICK_ROLL: "preserves_limits (op_PICK_ROLL cx opcode)"
  by (auto simp: preserves_limits_def op_PICK_ROLL_def stack_num_def Let_def wp_simps)

lemma limits_WITHIN: "preserves_limits (op_WITHIN cx)"
  by (auto simp: preserves_limits_def op_WITHIN_def stack_num_def Let_def wp_simps)

lemma limits_hash: "preserves_limits (op_hash opcode)"
  by (auto simp: preserves_limits_def op_hash_def Let_def wp_simps simp flip: Hash160_def Hash1_def)

lemma bool_num_abs: "\<bar>bool_num b\<bar> \<le> 1"
  by (simp add: bool_num_def)

lemma numeric1_wp:
  assumes "opcode \<in> {OP_1ADD, OP_1SUB, OP_NEGATE, OP_ABS, OP_NOT, OP_0NOTEQUAL}" "\<bar>n\<bar> < 2 ^ 31"
  shows "exec_all (\<lambda>r. \<bar>r\<bar> < 2 ^ 39) (numeric1 opcode n)"
  using assms
  by (auto simp: numeric1_def CScriptNum_plus_def CScriptNum_minus_def CScriptNum_uminus_def
      bool_num_def wp_simps)

lemma numeric2_wp:
  assumes "opcode \<in> {OP_ADD, OP_SUB, OP_BOOLAND, OP_BOOLOR, OP_NUMEQUAL, OP_NUMEQUALVERIFY,
                        OP_NUMNOTEQUAL, OP_LESSTHAN, OP_GREATERTHAN, OP_LESSTHANOREQUAL,
                        OP_GREATERTHANOREQUAL, OP_MIN, OP_MAX}" "\<bar>m\<bar> < 2 ^ 31" "\<bar>n\<bar> < 2 ^ 31"
  shows "exec_all (\<lambda>r. \<bar>r\<bar> < 2 ^ 39) (numeric2 opcode m n)"
proof -
  have r: "CScriptNum_plus m n = Inr (m + n)" "CScriptNum_minus m n = Inr (m - n)"
    using assms(2,3) by (auto simp: CScriptNum_plus_def CScriptNum_minus_def)
  have b: "\<bar>m + n\<bar> < 2 ^ 39" "\<bar>m - n\<bar> < 2 ^ 39" "\<bar>m\<bar> < 2 ^ 39" "\<bar>n\<bar> < 2 ^ 39"
    using assms(2,3) by simp_all
  have c: "\<bar>bool_num c\<bar> < 2 ^ 39" for c using bool_num_abs [of c] by simp
  from assms(1) show ?thesis
    by (elim insertE emptyE) (use b c in \<open>simp_all add: numeric2_def r wp_simps\<close>)
qed

lemma stack_num_wp: "exec_all (\<lambda>n. \<bar>n\<bar> < 2 ^ 31) (stack_num cx s i)"
  using from_vch_bound [of _ _ 4] by (auto simp: stack_num_def wp_simps)

lemma limits_numeric1:
  assumes "opcode \<in> {OP_1ADD, OP_1SUB, OP_NEGATE, OP_ABS, OP_NOT, OP_0NOTEQUAL}"
  shows "preserves_limits (op_numeric1 cx opcode)"
  unfolding preserves_limits_def op_numeric1_def wp_simps
  by (auto intro!: exec_all_mono [OF stack_num_wp] exec_all_mono [OF numeric1_wp [OF assms]])

lemma limits_numeric2:
  assumes "opcode \<in> {OP_ADD, OP_SUB, OP_BOOLAND, OP_BOOLOR, OP_NUMEQUAL, OP_NUMEQUALVERIFY,
                        OP_NUMNOTEQUAL, OP_LESSTHAN, OP_GREATERTHAN, OP_LESSTHANOREQUAL,
                        OP_GREATERTHANOREQUAL, OP_MIN, OP_MAX}"
  shows "preserves_limits (op_numeric2 cx opcode)"
  unfolding preserves_limits_def op_numeric2_def wp_simps Let_def
  by (auto intro!: exec_all_mono [OF stack_num_wp] exec_all_mono [OF numeric2_wp [OF assms]] simp: wp_simps)

section \<open>Signature encodings stay inside the signature\<close>

lemma vec_get_wp [wp_simps]: "exec_all P (vec_get xs i) \<longleftrightarrow> i < length xs \<and> P (xs ! i)"
  by (auto simp: vec_get_def exec_all_def)

lemma der_integer_wp:
  assumes "tag < length sig" "at + len < length sig"
  shows "exec_all (\<lambda>_. True) (der_integer sig tag at len)"
  using assms by (auto simp: der_integer_def wp_simps)

lemma IsValidSignatureEncoding_wp: "exec_all (\<lambda>_. True) (IsValidSignatureEncoding sig)"
  by (auto simp: IsValidSignatureEncoding_def Let_def wp_simps
      intro!: exec_all_mono [OF der_integer_wp] der_integer_wp)

lemma check_encodings_wp: "exec_all (\<lambda>_. True) (check_encodings cx vchSig vchPubKey)"
  by (auto simp: check_encodings_def CheckSignatureEncoding_def CheckPubKeyEncoding_def
      IsLowDERSignature_def wp_simps intro!: exec_all_mono [OF IsValidSignatureEncoding_wp])

lemma limits_CHECKSIG: "preserves_limits (op_CHECKSIG cx opcode)"
  unfolding preserves_limits_def op_CHECKSIG_def wp_simps Let_def
  by (auto intro!: exec_all_mono [OF check_encodings_wp] simp: wp_simps)

lemma multisig_loop_wp: "exec_all (\<lambda>_. True) (multisig_loop cx s ns i nk j)"
proof (induction "nat nk" arbitrary: ns i nk j rule: less_induct)
  case less
  show ?case
    by (subst multisig_loop.simps)
      (auto simp: wp_simps Let_def intro!: exec_all_mono [OF check_encodings_wp] less)
qed

lemma pop_many_eq: "n \<le> length s \<Longrightarrow> pop_many n s = (Inr (take (length s - n) s) :: ('e, 'a list) exec)"
proof (induction n)
  case (Suc n)
  then have "pop_many (Suc n) s = exec_bind (pop_many n s) (popstack :: _ \<Rightarrow> ('e, 'a list) exec)"
    by (simp add: pop_many_def)
  then show ?case using Suc by (auto simp: popstack_def butlast_take)
qed (simp add: pop_many_def)

section \<open>The invariant of the loop\<close>

definition state_ok :: "eval_state \<Rightarrow> bool" where
  "state_ok st \<longleftrightarrow> elems_ok (es_stack st) \<and> elems_ok (es_altstack st) \<and> es_nOpCount st \<le> 201"

definition limits :: "eval_state \<Rightarrow> bool" where
  "limits st \<longleftrightarrow> state_ok st \<and> length (es_stack st) + length (es_altstack st) \<le> 1000"

lemma CHECKMULTISIG_wp:
  assumes "limits st"
  shows "exec_all state_ok (op_CHECKMULTISIG cx opcode st)"
proof -
  have ok: "elems_ok (take k (es_stack st))" for k
    using assms elems_ok_subset [of "take k (es_stack st)" "es_stack st"]
    by (auto simp: limits_def state_ok_def dest: in_set_takeD)
  show ?thesis
    using assms
    by (auto simp: op_CHECKMULTISIG_def Let_def wp_simps pop_many_eq state_ok_def limits_def
        intro!: exec_all_mono [OF stack_num_wp] exec_all_mono [OF multisig_loop_wp] ok elems_ok_mono(1) [OF ok])
qed

lemma on_stack_wp:
  "preserves_limits f \<Longrightarrow> limits st \<Longrightarrow> exec_all state_ok (on_stack f st)"
  unfolding preserves_limits_def on_stack_def limits_def wp_simps
  by (auto simp: state_ok_def elim!: allE [of _ "es_stack st"] intro: exec_all_mono)

lemma state_ops_wp:
  assumes "limits st"
  shows "exec_all state_ok (op_IF fExec opcode st)" "exec_all state_ok (op_ELSE st)"
    "exec_all state_ok (op_ENDIF st)" "exec_all state_ok (op_TOALTSTACK st)"
    "exec_all state_ok (op_FROMALTSTACK st)"
  using assms
  by (auto simp: op_IF_def op_ELSE_def op_ENDIF_def op_TOALTSTACK_def op_FROMALTSTACK_def Let_def
      wp_simps limits_def state_ok_def)

lemma limits_state_ok: "limits st \<Longrightarrow> state_ok st"
  by (simp add: limits_def)

lemmas limits_ops = limits_control limits_stack_ops limits_SIZE limits_swaps limits_EQUAL
  limits_PICK_ROLL limits_WITHIN limits_hash limits_numeric1 limits_numeric2 limits_CHECKSIG

lemma eval_switch_wp:
  assumes "limits st"
  shows "exec_all state_ok (eval_switch cx fExec opcode st)"
proof -
  note os = on_stack_wp [OF _ assms]
  show ?thesis
    unfolding eval_switch_def wp_simps
    by (intro if_boolI os limits_ops CHECKMULTISIG_wp state_ops_wp limits_state_ok assms TrueI)
      (assumption | linarith | auto)+
qed

lemma eval_op_wp:
  assumes "limits st" "length vch \<le> MAX_SCRIPT_ELEMENT_SIZE"
  shows "exec_all limits (eval_op cx opcode vch st)"
  using assms
  by (auto simp: eval_op_def Let_def wp_simps limits_def state_ok_def
      intro!: exec_all_mono [OF eval_switch_wp])

lemma eval_step_wp:
  assumes "limits st"
  shows "exec_all (\<lambda>(pc', st'). limits st') (eval_step cx pc st)"
proof -
  obtain ok opcode vch pc' where g: "GetOp2 pc = (ok, opcode, vch, pc')" by (cases "GetOp2 pc")
  let ?n = "if OP_16 < opcode then es_nOpCount st + 1 else es_nOpCount st"
  have l: "limits (st\<lparr>es_nOpCount := ?n\<rparr>)" if "\<not> (OP_16 < opcode \<and> 201 < ?n)"
    using assms that by (auto simp: limits_def state_ok_def)
  show ?thesis
    unfolding eval_step_def g Let_def prod.case wp_simps
    by (intro if_boolI TrueI) (use eval_op_wp [OF l] in auto)
qed

lemma eval_loop_wp: "limits st \<Longrightarrow> exec_all limits (eval_loop cx pc st)"
proof (induction "length pc" arbitrary: pc st rule: less_induct)
  case less
  show ?case
  proof (cases "pc = []")
    case True
    then show ?thesis using less(2) by (simp add: eval_loop.simps wp_simps)
  next
    case False
    have "exec_all (\<lambda>(pc', st'). exec_all limits (eval_loop cx pc' st')) (eval_step cx pc st)"
      using eval_step_wp [OF less(2), of cx pc] less(1) eval_step_shorter [OF _ False, of cx st]
      by (auto simp: exec_all_iff [of _ "eval_step cx pc st"])
    with False show ?thesis
      by (subst eval_loop.simps) (simp add: wp_simps case_prod_unfold)
  qed
qed

lemma EvalScript_wp:
  assumes "elems_ok stack" "length stack \<le> 1000"
  shows "exec_all (\<lambda>s. elems_ok s \<and> length s \<le> 1000) (EvalScript cx stack)"
proof -
  let ?st = "\<lparr>es_stack = stack, es_altstack = [], es_vfExec = [], es_nOpCount = 0\<rparr>"
  have "limits ?st" using assms by (simp add: limits_def state_ok_def)
  then have "exec_all limits (eval_loop cx (cx_script cx) ?st)" by (rule eval_loop_wp)
  then show ?thesis
    by (auto simp: EvalScript_def exec_all_def limits_def state_ok_def
        split: sum.splits failure.splits)
qed


section \<open>VerifyScript\<close>

lemma EvalScript_not_Throw: "EvalScript cx stack \<noteq> Inl Throw"
  by (auto simp: EvalScript_def split: sum.splits failure.splits)

text \<open>A pay-to-script-hash script fails on the empty stack.\<close>

lemma GetOp2_op:
  "0x4e < unat b \<Longrightarrow> GetOp2 (b # pc) = (True, unat b, [], pc)"
  by (simp add: GetOp2_def)

lemma eval_loop_Cons:
  assumes "0x60 < unat b" "es_nOpCount st < 201"
  shows "eval_loop cx (b # pc) st =
     exec_bind (eval_op cx (unat b) [] (st\<lparr>es_nOpCount := es_nOpCount st + 1\<rparr>)) (\<lambda>st'. eval_loop cx pc st')"
  using assms
  by (subst eval_loop.simps)
    (cases "eval_op cx (unat b) [] (st\<lparr>es_nOpCount := es_nOpCount st + 1\<rparr>)",
     simp_all add: eval_step_def GetOp2_op)

lemma EvalScript_P2SH_empty:
  assumes "IsPayToScriptHash (cx_script cx)"
  shows "EvalScript cx [] = Inl (Fail SCRIPT_ERR_INVALID_STACK_OPERATION)"
proof -
  obtain h where h: "length h = 20" "cx_script cx = 0xa9 # 0x14 # h @ [0x87]"
    using assms by (auto simp: IsPayToScriptHash_iff)
  then show ?thesis
    by (simp add: EvalScript_def eval_loop_Cons eval_op_def eval_switch_def disabled_opcode_def
        on_stack_def op_hash_def)
qed

lemma VerifyScript_wp:
  assumes "cx_has cx SCRIPT_VERIFY_CLEANSTACK \<Longrightarrow> cx_has cx SCRIPT_VERIFY_P2SH"
  shows "exec_all (\<lambda>_. True) (VerifyScript cx scriptSig scriptPubKey)"
proof -
  let ?ok = "\<lambda>s. elems_ok s \<and> length s \<le> 1000"
  have e: "exec_all P (EvalScript c s)" if "?ok s" "\<And>t. ?ok t \<Longrightarrow> EvalScript c s = Inr t \<Longrightarrow> P t" for P c s
    using EvalScript_wp [of s c] that by (auto simp: exec_all_iff)
  have ne: "s \<noteq> []" if "EvalScript (cx\<lparr>cx_script := scriptPubKey\<rparr>) s = Inr t" "IsPayToScriptHash scriptPubKey" for s t
    using that EvalScript_P2SH_empty [of "cx\<lparr>cx_script := scriptPubKey\<rparr>"] by auto
  show ?thesis
    unfolding VerifyScript_def Let_def wp_simps
    by (intro if_boolI TrueI e conjI) (auto simp: exec_assert_def wp_simps assms dest: ne intro!: e)
qed

lemma VerifyScript_not_Throw: "VerifyScript cx scriptSig scriptPubKey \<noteq> Inl Throw"
  by (auto simp: VerifyScript_def Let_def exec_bind_Inl_iff EvalScript_not_Throw exec_assert_def popstack_def split: if_splits)

section \<open>Unspendable scripts\<close>

lemma EvalScript_unspendable:
  assumes "IsUnspendable (cx_script cx)"
  shows "\<exists>e. EvalScript cx stack = Inl (Fail e)"
proof (cases "MAX_SCRIPT_SIZE < length (cx_script cx)")
  case True
  then show ?thesis by (simp add: EvalScript_def)
next
  case False
  then obtain pc where "cx_script cx = 0x6a # pc"
    using assms by (cases "cx_script cx") (auto simp: IsUnspendable_def)
  with False show ?thesis
    by (simp add: EvalScript_def eval_loop_Cons eval_op_def eval_switch_def disabled_opcode_def)
qed

section \<open>Properties\<close>

text \<open>C1: started on a stack of at most 1000 elements of at most 520 bytes each, with any
  script, flags and checker, \<open>EvalScript\<close> either fails with an error code or returns a stack
  within the same limits; it never fails an assertion and no exception leaves it.\<close>

theorem eval_script_limits:
  assumes "\<forall>v \<in> set stack. length v \<le> MAX_SCRIPT_ELEMENT_SIZE" "length stack \<le> 1000"
  shows "(\<exists>e. EvalScript cx stack = Inl (Fail e)) \<or>
         (\<exists>s. EvalScript cx stack = Inr s \<and> length s \<le> 1000 \<and>
              (\<forall>v \<in> set s. length v \<le> MAX_SCRIPT_ELEMENT_SIZE))"
proof -
  have "exec_all (\<lambda>s. elems_ok s \<and> length s \<le> 1000) (EvalScript cx stack)"
    using assms by (intro EvalScript_wp) (simp_all add: elems_ok_def)
  then show ?thesis
    using EvalScript_not_Throw [of cx stack]
    by (cases "EvalScript cx stack" rule: sum.exhaust)
      (auto simp: exec_all_def elems_ok_def split: failure.splits intro: failure.exhaust)
qed

theorem eval_script_limits_witness:
  "length [[1 :: byte]] \<le> 1000 \<and>
   ((\<exists>e. EvalScript (base_ctx [0x76] 0) [[1]] = Inl (Fail e)) \<or>
    (\<exists>s. EvalScript (base_ctx [0x76] 0) [[1]] = Inr s \<and> length s \<le> 1000))"
  using eval_script_limits [of "[[1]]" "base_ctx [0x76] 0"] by auto

text \<open>C3: if the clean-stack flag is only used together with the P2SH flag, \<open>VerifyScript\<close>
  always returns success or an error code: neither its assertions nor those of the
  interpreter can fail, for any pair of scripts. In particular the stack that is restored
  for the redeem script of a P2SH output is not empty.\<close>

theorem verify_script_total:
  assumes "cx_has cx SCRIPT_VERIFY_CLEANSTACK \<longrightarrow> cx_has cx SCRIPT_VERIFY_P2SH"
  shows "VerifyScript cx scriptSig scriptPubKey = Inr () \<or>
         (\<exists>e. VerifyScript cx scriptSig scriptPubKey = Inl (Fail e))"
proof -
  have "exec_all (\<lambda>_. True) (VerifyScript cx scriptSig scriptPubKey)"
    using assms by (intro VerifyScript_wp) simp
  then show ?thesis
    using VerifyScript_not_Throw [of cx scriptSig scriptPubKey]
    by (cases "VerifyScript cx scriptSig scriptPubKey" rule: sum.exhaust)
      (auto simp: exec_all_def split: failure.splits intro: failure.exhaust)
qed

theorem verify_script_total_witness:
  "cx_has (base_ctx [] 0x101) SCRIPT_VERIFY_CLEANSTACK \<and>
   cx_has (base_ctx [] 0x101) SCRIPT_VERIFY_P2SH \<and>
   (VerifyScript (base_ctx [] 0x101) [0x51] [0x51] = Inr () \<or>
    (\<exists>e. VerifyScript (base_ctx [] 0x101) [0x51] [0x51] = Inl (Fail e)))"
proof -
  have c: "cx_has (base_ctx [] 0x101) SCRIPT_VERIFY_CLEANSTACK"
    "cx_has (base_ctx [] 0x101) SCRIPT_VERIFY_P2SH"
    by (simp_all add: cx_has_def base_ctx_def flag_set_def)
  show ?thesis using verify_script_total [of "base_ctx [] 0x101" "[0x51]" "[0x51]"] c by blast
qed

text \<open>C9: an output whose script \<open>IsUnspendable\<close> reports as unspendable cannot be spent:
  \<open>VerifyScript\<close> rejects it for every \<open>scriptSig\<close>, all flags and every checker.\<close>

theorem unspendable_never_verifies:
  assumes "IsUnspendable scriptPubKey"
  shows "VerifyScript cx scriptSig scriptPubKey \<noteq> Inr ()"
proof
  assume "VerifyScript cx scriptSig scriptPubKey = Inr ()"
  then obtain s1 s2 where "EvalScript (cx\<lparr>cx_script := scriptPubKey\<rparr>) s1 = Inr s2"
    by (auto simp: VerifyScript_def Let_def exec_bind_Inr_iff split: if_splits)
  then show False
    using EvalScript_unspendable [of "cx\<lparr>cx_script := scriptPubKey\<rparr>" s1] assms by auto
qed

theorem unspendable_never_verifies_witness:
  "IsUnspendable [0x6a, 0x51] \<and> VerifyScript (base_ctx [] 0) [0x51] [0x6a, 0x51] \<noteq> Inr ()"
  using unspendable_never_verifies [of "[0x6a, 0x51]" "base_ctx [] 0" "[0x51]"]
  by (simp add: IsUnspendable_def)

end
