(* ===== verification/Interp_Flags.thy ===== *)
theory Interp_Flags
  imports Interp_Limits
begin

text \<open>
  The verification flags are restrictions: a script that passes with a set of flags passes
  with every subset of them, with the same final stack. The comments of
  src/src/script/interpreter.h call this being softfork safe.
\<close>


section \<open>Weaker checks\<close>

definition exec_le :: "('e, 'a) exec \<Rightarrow> ('e, 'a) exec \<Rightarrow> bool" where
  "exec_le m m' \<longleftrightarrow> (\<forall>x. m' = Inr x \<longrightarrow> m = Inr x)"

lemma exec_le_refl [intro!, simp]: "exec_le m m"
  by (simp add: exec_le_def)

lemma exec_le_Inl [intro!, simp]: "exec_le m (Inl e)"
  by (simp add: exec_le_def)

lemma exec_leD: "exec_le m m' \<Longrightarrow> m' = Inr x \<Longrightarrow> m = Inr x"
  by (simp add: exec_le_def)

lemma exec_le_bind [intro]:
  "exec_le m m' \<Longrightarrow> (\<And>x. m' = Inr x \<Longrightarrow> exec_le (f x) (g x)) \<Longrightarrow> exec_le (exec_bind m f) (exec_bind m' g)"
  by (auto simp: exec_le_def)

lemma exec_le_if:
  "(b' \<Longrightarrow> b \<Longrightarrow> exec_le m m') \<Longrightarrow> (\<not> b' \<Longrightarrow> \<not> b \<Longrightarrow> exec_le n n') \<Longrightarrow>
   (b' \<Longrightarrow> \<not> b \<Longrightarrow> exec_le n m') \<Longrightarrow> (\<not> b' \<Longrightarrow> b \<Longrightarrow> exec_le m n') \<Longrightarrow>
   exec_le (if b then m else n) (if b' then m' else n')"
  by auto

lemma exec_le_if_same:
  "(b \<Longrightarrow> exec_le m m') \<Longrightarrow> (\<not> b \<Longrightarrow> exec_le n n') \<Longrightarrow>
   exec_le (if b then m else n) (if b then m' else n')"
  by auto

text \<open>\<open>f\<close> asks for a subset of the checks of \<open>g\<close>. Turning \<open>CHECKLOCKTIMEVERIFY\<close> on
  is only a restriction if upgradable no-ops were not discouraged before.\<close>

definition relaxes :: "u32 \<Rightarrow> u32 \<Rightarrow> bool" where
  "relaxes f g \<longleftrightarrow> f AND g = f \<and>
     (flag_set f SCRIPT_VERIFY_DISCOURAGE_UPGRADABLE_NOPS \<and> flag_set g SCRIPT_VERIFY_CHECKLOCKTIMEVERIFY
      \<longrightarrow> flag_set f SCRIPT_VERIFY_CHECKLOCKTIMEVERIFY)"

lemma relaxes_flag: "relaxes f g \<Longrightarrow> flag_set f x \<Longrightarrow> flag_set g x"
proof -
  assume "relaxes f g" "flag_set f x"
  then have "f AND (g AND x) \<noteq> 0" by (simp add: relaxes_def flag_set_def flip: and.assoc)
  then show "flag_set g x" by (auto simp: flag_set_def)
qed

definition relax :: "eval_ctx \<Rightarrow> u32 \<Rightarrow> eval_ctx" where
  "relax cx f = cx\<lparr>cx_flags := f\<rparr>"

lemma relax_simps [simp]:
  "cx_script (relax cx f) = cx_script cx" "cx_checker (relax cx f) = cx_checker cx"
  "cx_branch (relax cx f) = cx_branch cx" "cx_CheckLowS (relax cx f) = cx_CheckLowS cx"
  "cx_flags (relax cx f) = f" "cx_CheckSig (relax cx f) = cx_CheckSig cx"
  "(relax cx f)\<lparr>cx_script := s\<rparr> = relax (cx\<lparr>cx_script := s\<rparr>) f"
  by (simp_all add: relax_def cx_CheckSig_def fun_eq_iff)

lemma relax_has: "relaxes f (cx_flags cx) \<Longrightarrow> cx_has (relax cx f) x \<Longrightarrow> cx_has cx x"
  by (auto simp: cx_has_def dest: relaxes_flag)

lemma from_vch_le: "(b \<longrightarrow> b') \<Longrightarrow> exec_le (CScriptNum_from_vch v b k) (CScriptNum_from_vch v b' k)"
  by (auto simp: exec_le_def CScriptNum_from_vch_def split: if_splits)

lemma stack_num_le:
  "relaxes f (cx_flags cx) \<Longrightarrow> exec_le (stack_num (relax cx f) s i) (stack_num cx s i)"
  unfolding stack_num_def
  by (intro exec_le_bind exec_le_refl from_vch_le) (auto simp: fRequireMinimal_def dest: relax_has)

lemma check_encodings_le:
  assumes "relaxes f (cx_flags cx)"
  shows "exec_le (check_encodings (relax cx f) sig key) (check_encodings cx sig key)"
  unfolding check_encodings_def CheckSignatureEncoding_def CheckPubKeyEncoding_def relax_simps
  by (intro exec_le_bind exec_le_if exec_le_refl exec_le_Inl)
    (auto simp: exec_le_def dest: relaxes_flag [OF assms])

lemma ops_le:
  assumes "relaxes f (cx_flags cx)"
  shows "exec_le (op_CHECKLOCKTIMEVERIFY (relax cx f) s) (op_CHECKLOCKTIMEVERIFY cx s)"
    "exec_le (op_NOPx (relax cx f) s) (op_NOPx cx s)"
    "exec_le (op_PICK_ROLL (relax cx f) opcode s) (op_PICK_ROLL cx opcode s)"
    "exec_le (op_numeric1 (relax cx f) opcode s) (op_numeric1 cx opcode s)"
    "exec_le (op_numeric2 (relax cx f) opcode s) (op_numeric2 cx opcode s)"
    "exec_le (op_WITHIN (relax cx f) s) (op_WITHIN cx s)"
    "exec_le (op_CHECKSIG (relax cx f) opcode s) (op_CHECKSIG cx opcode s)"
proof -
  have m: "fRequireMinimal (relax cx f) \<longrightarrow> fRequireMinimal cx"
    using relax_has [OF assms] by (auto simp: fRequireMinimal_def)
  have r: "cx_has (relax cx f) SCRIPT_VERIFY_DISCOURAGE_UPGRADABLE_NOPS \<Longrightarrow>
      cx_has cx SCRIPT_VERIFY_CHECKLOCKTIMEVERIFY \<Longrightarrow> cx_has (relax cx f) SCRIPT_VERIFY_CHECKLOCKTIMEVERIFY"
    using assms by (auto simp: relaxes_def cx_has_def)
  note h = relax_has [OF assms]
  note sn = stack_num_le [OF assms]
  have c: "exec_le (Inr s) (op_CHECKLOCKTIMEVERIFY cx s)"
    by (auto simp: exec_le_def op_CHECKLOCKTIMEVERIFY_def exec_bind_Inr_iff split: if_splits)
  show "exec_le (op_CHECKLOCKTIMEVERIFY (relax cx f) s) (op_CHECKLOCKTIMEVERIFY cx s)"
  proof (cases "cx_has (relax cx f) SCRIPT_VERIFY_CHECKLOCKTIMEVERIFY")
    case True
    then show ?thesis
      unfolding op_CHECKLOCKTIMEVERIFY_def
      using m by (simp add: h) (intro impI exec_le_bind exec_le_refl from_vch_le; simp)
  next
    case False
    show ?thesis
    proof (cases "cx_has (relax cx f) SCRIPT_VERIFY_DISCOURAGE_UPGRADABLE_NOPS")
      case True
      then show ?thesis using False r h by (auto simp: op_CHECKLOCKTIMEVERIFY_def)
    next
      case F: False
      then have "op_CHECKLOCKTIMEVERIFY (relax cx f) s = Inr s"
        using False by (simp add: op_CHECKLOCKTIMEVERIFY_def)
      then show ?thesis using c by simp
    qed
  qed
  show "exec_le (op_NOPx (relax cx f) s) (op_NOPx cx s)"
    using h by (auto simp: op_NOPx_def)
  show "exec_le (op_PICK_ROLL (relax cx f) opcode s) (op_PICK_ROLL cx opcode s)"
    unfolding op_PICK_ROLL_def Let_def by (intro exec_le_if_same exec_le_bind exec_le_refl sn)
  show "exec_le (op_numeric1 (relax cx f) opcode s) (op_numeric1 cx opcode s)"
    unfolding op_numeric1_def Let_def by (intro exec_le_if_same exec_le_bind exec_le_refl sn)
  show "exec_le (op_numeric2 (relax cx f) opcode s) (op_numeric2 cx opcode s)"
    unfolding op_numeric2_def Let_def by (intro exec_le_if_same exec_le_bind exec_le_refl sn)
  show "exec_le (op_WITHIN (relax cx f) s) (op_WITHIN cx s)"
    unfolding op_WITHIN_def Let_def by (intro exec_le_if_same exec_le_bind exec_le_refl sn)
  show "exec_le (op_CHECKSIG (relax cx f) opcode s) (op_CHECKSIG cx opcode s)"
    unfolding op_CHECKSIG_def Let_def relax_simps
    by (intro exec_le_if_same exec_le_bind exec_le_refl check_encodings_le assms)
qed

lemma multisig_loop_le:
  assumes "relaxes f (cx_flags cx)"
  shows "exec_le (multisig_loop (relax cx f) s ns i nk j) (multisig_loop cx s ns i nk j)"
proof (induction "nat nk" arbitrary: ns i nk j rule: less_induct)
  case less
  have IH: "exec_le (multisig_loop (relax cx f) s ns' i' (nk - 1) j') (multisig_loop cx s ns' i' (nk - 1) j')"
    if "\<not> nk - 1 < ns'" "0 \<le> ns'" for ns' i' j'
    using that by (intro less) simp
  show ?case
    unfolding multisig_loop.simps [of _ s ns i nk j] Let_def relax_simps
    by (intro exec_le_if_same exec_le_bind exec_le_refl check_encodings_le assms IH) auto
qed

lemma CHECKMULTISIG_le:
  assumes "relaxes f (cx_flags cx)"
  shows "exec_le (op_CHECKMULTISIG (relax cx f) opcode st) (op_CHECKMULTISIG cx opcode st)"
proof -
  have nd: "exec_le (if cx_has (relax cx f) SCRIPT_VERIFY_NULLDUMMY \<and> length d \<noteq> 0 then Inl e else m)
      (if cx_has cx SCRIPT_VERIFY_NULLDUMMY \<and> length d \<noteq> 0 then Inl e else m)" for d e m
    using relax_has [OF assms, of SCRIPT_VERIFY_NULLDUMMY] by auto
  show ?thesis
    unfolding op_CHECKMULTISIG_def Let_def
    by (intro nd exec_le_if_same exec_le_bind exec_le_refl stack_num_le multisig_loop_le assms)
qed

lemma on_stack_le: "exec_le (f (es_stack st)) (g (es_stack st)) \<Longrightarrow> exec_le (on_stack f st) (on_stack g st)"
  unfolding on_stack_def by (intro exec_le_bind exec_le_refl)

lemma eval_switch_le:
  assumes "relaxes f (cx_flags cx)"
  shows "exec_le (eval_switch (relax cx f) fExec opcode st) (eval_switch cx fExec opcode st)"
  unfolding eval_switch_def
  by (intro exec_le_if_same exec_le_refl exec_le_Inl on_stack_le ops_le CHECKMULTISIG_le assms)

lemma eval_op_le:
  assumes "relaxes f (cx_flags cx)"
  shows "exec_le (eval_op (relax cx f) opcode vch st) (eval_op cx opcode vch st)"
proof -
  have m: "fRequireMinimal (relax cx f) \<Longrightarrow> fRequireMinimal cx"
    using relax_has [OF assms] by (auto simp: fRequireMinimal_def)
  have p: "exec_le (if fRequireMinimal (relax cx f) \<and> c then Inl e else x)
      (if fRequireMinimal cx \<and> c then Inl e else x)" for c e x
    using m by auto
  show ?thesis
    unfolding eval_op_def Let_def
    by (intro p exec_le_if_same exec_le_bind exec_le_refl exec_le_Inl eval_switch_le assms)
qed

lemma eval_step_le:
  assumes "relaxes f (cx_flags cx)"
  shows "exec_le (eval_step (relax cx f) pc st) (eval_step cx pc st)"
  unfolding eval_step_def Let_def case_prod_unfold
  by (intro exec_le_if_same exec_le_bind exec_le_refl exec_le_Inl eval_op_le assms)

lemma eval_loop_le:
  assumes "relaxes f (cx_flags cx)"
  shows "exec_le (eval_loop (relax cx f) pc st) (eval_loop cx pc st)"
proof (induction "length pc" arbitrary: pc st rule: less_induct)
  case less
  show ?case
  proof (cases "pc = []")
    case False
    show ?thesis
      unfolding eval_loop.simps [of _ pc st] case_prod_unfold
      by (intro exec_le_if_same exec_le_bind exec_le_refl eval_step_le assms less)
        (metis False eval_step_shorter prod.collapse)
  qed (simp add: eval_loop.simps)
qed

lemma EvalScript_le:
  assumes "relaxes f (cx_flags cx)"
  shows "exec_le (EvalScript (relax cx f) stack) (EvalScript cx stack)"
proof -
  let ?st = "\<lparr>es_stack = stack, es_altstack = [], es_vfExec = [], es_nOpCount = 0\<rparr>"
  have l: "exec_le (eval_loop (relax cx f) (cx_script cx) ?st) (eval_loop cx (cx_script cx) ?st)"
    using eval_loop_le [OF assms] .
  show ?thesis
    unfolding exec_le_def
  proof (intro allI impI)
    fix s assume "EvalScript cx stack = Inr s"
    then obtain st where "eval_loop cx (cx_script cx) ?st = Inr st" "es_vfExec st = []" "s = es_stack st"
      "\<not> MAX_SCRIPT_SIZE < length (cx_script cx)"
      by (auto simp: EvalScript_def split: if_splits sum.splits failure.splits)
    then show "EvalScript (relax cx f) stack = Inr s"
      using exec_leD [OF l] by (simp add: EvalScript_def)
  qed
qed

lemma exec_if_Inr_iff:
  "(if b then Inl e else m) = Inr x \<longleftrightarrow> \<not> b \<and> m = Inr x"
  by simp

text \<open>What it takes to pass \<open>VerifyScript\<close>.\<close>

lemma VerifyScript_iff:
  "VerifyScript cx scriptSig scriptPubKey = Inr () \<longleftrightarrow>
     (cx_has cx SCRIPT_VERIFY_SIGPUSHONLY \<longrightarrow> IsPushOnly scriptSig) \<and>
     (\<exists>s1 s2 s3. EvalScript (cx\<lparr>cx_script := scriptSig\<rparr>) [] = Inr s1 \<and>
        EvalScript (cx\<lparr>cx_script := scriptPubKey\<rparr>) s1 = Inr s2 \<and> \<not> eval_false s2 \<and>
        (if cx_has cx SCRIPT_VERIFY_P2SH \<and> IsPayToScriptHash scriptPubKey
         then IsPushOnly scriptSig \<and> s1 \<noteq> [] \<and>
              EvalScript (cx\<lparr>cx_script := last s1\<rparr>) (butlast s1) = Inr s3 \<and> \<not> eval_false s3
         else s3 = s2) \<and>
        (cx_has cx SCRIPT_VERIFY_CLEANSTACK \<longrightarrow> cx_has cx SCRIPT_VERIFY_P2SH \<and> length s3 = 1))"
proof (cases "cx_has cx SCRIPT_VERIFY_P2SH \<and> IsPayToScriptHash scriptPubKey")
  case True
  then show ?thesis
    unfolding VerifyScript_def Let_def exec_if_Inr_iff exec_bind_Inr_iff
    by (simp add: exec_if_Inr_iff exec_bind_Inr_iff popstack_def exec_assert_def split: if_split) blast
next
  case False
  then show ?thesis
    unfolding VerifyScript_def Let_def if_not_P [OF False] exec_if_Inr_iff exec_bind_Inr_iff
    by (auto simp: exec_assert_def)
qed

lemma VerifyScript_le:
  assumes "relaxes f (cx_flags cx)"
    and "flag_set f SCRIPT_VERIFY_CLEANSTACK \<longrightarrow> flag_set f SCRIPT_VERIFY_P2SH"
    and "VerifyScript cx scriptSig scriptPubKey = Inr ()"
  shows "VerifyScript (relax cx f) scriptSig scriptPubKey = Inr ()"
proof -
  note h = relax_has [OF assms(1)]
  have e: "EvalScript cx' s = Inr t \<Longrightarrow> cx_flags cx' = cx_flags cx \<Longrightarrow> EvalScript (relax cx' f) s = Inr t" for cx' s t
    using EvalScript_le [of f cx'] assms(1) by (simp add: exec_le_def)
  have c: "cx_has (relax cx f) SCRIPT_VERIFY_CLEANSTACK \<longrightarrow> cx_has (relax cx f) SCRIPT_VERIFY_P2SH"
    using assms(2) by (simp add: cx_has_def)
  obtain s1 s2 s3 where s: "EvalScript (cx\<lparr>cx_script := scriptSig\<rparr>) [] = Inr s1"
    "EvalScript (cx\<lparr>cx_script := scriptPubKey\<rparr>) s1 = Inr s2" "\<not> eval_false s2"
    "if cx_has cx SCRIPT_VERIFY_P2SH \<and> IsPayToScriptHash scriptPubKey
         then IsPushOnly scriptSig \<and> s1 \<noteq> [] \<and>
              EvalScript (cx\<lparr>cx_script := last s1\<rparr>) (butlast s1) = Inr s3 \<and> \<not> eval_false s3
         else s3 = s2"
    "cx_has cx SCRIPT_VERIFY_CLEANSTACK \<longrightarrow> cx_has cx SCRIPT_VERIFY_P2SH \<and> length s3 = 1"
    "cx_has cx SCRIPT_VERIFY_SIGPUSHONLY \<longrightarrow> IsPushOnly scriptSig"
    using assms(3) unfolding VerifyScript_iff by blast
  let ?s3 = "if cx_has (relax cx f) SCRIPT_VERIFY_P2SH \<and> IsPayToScriptHash scriptPubKey then s3 else s2"
  show ?thesis
    unfolding VerifyScript_iff relax_simps
    using s h c e [OF s(1)] e [OF s(2)] e [of "cx\<lparr>cx_script := last s1\<rparr>" "butlast s1" s3]
    by (intro conjI exI [of _ s1] exI [of _ s2] exI [of _ ?s3]) (auto split: if_splits)
qed

section \<open>Properties\<close>

text \<open>Dropping \<open>CHECKLOCKTIMEVERIFY\<close> makes its opcode a no-op, which may be discouraged: then less is accepted.\<close>

lemma dropping_locktime_rejects:
  defines "cx \<equiv> (base_ctx [] 0)\<lparr>cx_checker := \<lparr>checker_CheckSig = \<lambda>_ _ _ _. True, checker_CheckLockTime = \<lambda>_. True\<rparr>\<rparr>"
  shows "VerifyScript (relax cx (SCRIPT_VERIFY_CHECKLOCKTIMEVERIFY OR SCRIPT_VERIFY_DISCOURAGE_UPGRADABLE_NOPS)) [0x51] [0xb1] = Inr ()"
    "VerifyScript (relax cx SCRIPT_VERIFY_DISCOURAGE_UPGRADABLE_NOPS) [0x51] [0xb1] =
      Inl (Fail SCRIPT_ERR_DISCOURAGE_UPGRADABLE_NOPS)"
  unfolding cx_def by code_simp+

text \<open>C5: Verification flags only restrict, with one exception. A pair of scripts that \<open>VerifyScript\<close> accepts under
  some flags is accepted under every subset \<open>f\<close> of them, provided that \<open>f\<close> does not use the
  clean-stack flag without the P2SH flag (the code asserts that), and that \<open>f\<close> does not discourage
  upgradable no-ops while dropping a \<open>CHECKLOCKTIMEVERIFY\<close> flag that was set.\<close>

theorem flags_softfork_safe:
  assumes "f AND cx_flags cx = f"
    and "flag_set f SCRIPT_VERIFY_CLEANSTACK \<longrightarrow> flag_set f SCRIPT_VERIFY_P2SH"
    and "flag_set f SCRIPT_VERIFY_DISCOURAGE_UPGRADABLE_NOPS \<and> flag_set (cx_flags cx) SCRIPT_VERIFY_CHECKLOCKTIMEVERIFY \<longrightarrow>
      flag_set f SCRIPT_VERIFY_CHECKLOCKTIMEVERIFY"
    and "VerifyScript cx scriptSig scriptPubKey = Inr ()"
  shows "VerifyScript (relax cx f) scriptSig scriptPubKey = Inr ()"
  by (rule VerifyScript_le [OF _ assms(2,4)]) (use assms(1,3) in \<open>simp add: relaxes_def\<close>)

theorem flags_softfork_safe_witness:
  "VerifyScript (base_ctx [] 0x41) [0x51] [0x76, 0x87] = Inr () \<and>
   VerifyScript (relax (base_ctx [] 0x41) 0x1) [0x51] [0x76, 0x87] = Inr ()"
proof -
  have r: "0x1 AND cx_flags (base_ctx [] 0x41) = 0x1"
    and c: "flag_set 0x1 SCRIPT_VERIFY_CLEANSTACK \<longrightarrow> flag_set 0x1 SCRIPT_VERIFY_P2SH"
    and n: "flag_set 0x1 SCRIPT_VERIFY_DISCOURAGE_UPGRADABLE_NOPS \<and>
      flag_set (cx_flags (base_ctx [] 0x41)) SCRIPT_VERIFY_CHECKLOCKTIMEVERIFY \<longrightarrow> flag_set 0x1 SCRIPT_VERIFY_CHECKLOCKTIMEVERIFY"
    by (simp_all add: base_ctx_def flag_set_def)
  have v: "VerifyScript (base_ctx [] 0x41) [0x51] [0x76, 0x87] = Inr ()" by code_simp
  show ?thesis using flags_softfork_safe [OF r c n v] v by blast
qed

end
