(* ===== verification/Interp_Effects.thy ===== *)
theory Interp_Effects
  imports Interp_Flags "HOL-Library.Sublist"
begin

text \<open>
  What the operations of the script interpreter do to the stack: the effects that the
  comments of src/src/script/interpreter.cpp document, the matching of signatures to keys
  that \<open>OP_CHECKMULTISIG\<close> decides, and the spending condition of a
  pay-to-public-key-hash output.
\<close>


section \<open>Stack effects\<close>

lemma stacktop_append:
  assumes "0 < k" "k \<le> int (length xs)"
  shows "stacktop (s @ xs) (- k) = Inr (xs ! (length xs - nat k))"
proof -
  have "nat (int (length (s @ xs)) + - k) = length s + (length xs - nat k)"
    using assms by auto
  then show ?thesis using assms by (auto simp: stacktop_def vec_at_def nth_append)
qed

lemma stacktop_append_small [simp]:
  "stacktop (s @ [a]) (- 1) = Inr a"
  "stacktop (s @ [b, a]) (- 1) = Inr a" "stacktop (s @ [b, a]) (- 2) = Inr b"
  "stacktop (s @ [c, b, a]) (- 1) = Inr a" "stacktop (s @ [c, b, a]) (- 2) = Inr b"
  "stacktop (s @ [c, b, a]) (- 3) = Inr c"
  "stacktop (s @ [d, c, b, a]) (- 1) = Inr a" "stacktop (s @ [d, c, b, a]) (- 2) = Inr b"
  "stacktop (s @ [d, c, b, a]) (- 3) = Inr c" "stacktop (s @ [d, c, b, a]) (- 4) = Inr d"
  "stacktop (s @ [f, e, d, c, b, a]) (- 6) = Inr f" "stacktop (s @ [f, e, d, c, b, a]) (- 5) = Inr e"
  by (simp_all add: stacktop_append)

lemma popstack_append [simp]:
  "popstack (s @ [a]) = Inr s" "popstack (s @ [b, a]) = Inr (s @ [b])"
  "popstack (s @ [c, b, a]) = Inr (s @ [c, b])"
  by (simp_all add: popstack_def butlast_append)

lemma vec_ops_append [simp]:
  "vec_swap (s @ xs) (length s + i) (length s + j) = s @ vec_swap xs i j"
  "vec_erase (s @ xs) (length s + i) (length s + j) = s @ vec_erase xs i j"
  "vec_insert (s @ xs) (length s + i) v = s @ vec_insert xs i v"
  by (simp_all add: vec_swap_def vec_erase_def vec_insert_def list_update_append)

lemma stack_swap_append:
  assumes "0 < k" "k \<le> int (length xs)" "0 < l" "l \<le> int (length xs)"
  shows "stack_swap (s @ xs) (- k) (- l) =
     Inr (s @ vec_swap xs (length xs - nat k) (length xs - nat l))"
proof -
  have "nat (int (length (s @ xs)) + - k) = length s + (length xs - nat k)"
    "nat (int (length (s @ xs)) + - l) = length s + (length xs - nat l)"
    using assms by auto
  then show ?thesis
    using assms
    by (simp add: stack_swap_def stacktop_append del: diff_add_assoc Nat.add_diff_assoc length_append)
qed

lemma op_effects:
  "op_2DROP (s @ [x1, x2]) = Inr s"
  "op_2DUP (s @ [x1, x2]) = Inr (s @ [x1, x2, x1, x2])"
  "op_3DUP (s @ [x1, x2, x3]) = Inr (s @ [x1, x2, x3, x1, x2, x3])"
  "op_2OVER (s @ [x1, x2, x3, x4]) = Inr (s @ [x1, x2, x3, x4, x1, x2])"
  "op_2ROT (s @ [x1, x2, x3, x4, x5, x6]) = Inr (s @ [x3, x4, x5, x6, x1, x2])"
  "op_2SWAP (s @ [x1, x2, x3, x4]) = Inr (s @ [x3, x4, x1, x2])"
  "op_DROP (s @ [x1]) = Inr s"
  "op_DUP (s @ [x1]) = Inr (s @ [x1, x1])"
  "op_NIP (s @ [x1, x2]) = Inr (s @ [x2])"
  "op_OVER (s @ [x1, x2]) = Inr (s @ [x1, x2, x1])"
  "op_ROT (s @ [x1, x2, x3]) = Inr (s @ [x2, x3, x1])"
  "op_SWAP (s @ [x1, x2]) = Inr (s @ [x2, x1])"
  "op_TUCK (s @ [x1, x2]) = Inr (s @ [x2, x1, x2])"
proof -
  note e = vec_ops_append(2) [of s _ 0] vec_ops_append(3) [of s _ 0]
  show "op_2ROT (s @ [x1, x2, x3, x4, x5, x6]) = Inr (s @ [x3, x4, x5, x6, x1, x2])"
    using vec_ops_append(2) [of s "[x1, x2, x3, x4, x5, x6]" 0 2]
    by (simp add: op_2ROT_def vec_erase_def)
  show "op_NIP (s @ [x1, x2]) = Inr (s @ [x2])"
    by (simp add: op_NIP_def vec_erase_def)
  show "op_TUCK (s @ [x1, x2]) = Inr (s @ [x2, x1, x2])"
    by (simp add: op_TUCK_def vec_insert_def)
  show "op_2SWAP (s @ [x1, x2, x3, x4]) = Inr (s @ [x3, x4, x1, x2])"
    "op_ROT (s @ [x1, x2, x3]) = Inr (s @ [x2, x3, x1])"
    "op_SWAP (s @ [x1, x2]) = Inr (s @ [x2, x1])"
    by (simp_all add: op_2SWAP_def op_ROT_def op_SWAP_def stack_swap_append vec_swap_def)
qed (simp_all add: op_2DROP_def op_2DUP_def op_3DUP_def op_2OVER_def op_DROP_def op_DUP_def op_OVER_def)

lemma PICK_ROLL_effect:
  assumes "CScriptNum_from_vch v (fRequireMinimal cx) 4 = (Inr (int (length xs)) :: (ScriptError, int) exec)"
  shows "op_PICK_ROLL cx opcode (s @ x # xs @ [v]) =
    Inr (if opcode = OP_ROLL then s @ xs @ [x] else s @ x # xs @ [x])"
proof -
  have b: "int (length xs) < 2 ^ 31" using from_vch_bound [OF assms] by simp
  have t: "stacktop (s @ x # xs @ [v]) (- 1) = (Inr v :: (ScriptError, valtype) exec)"
    using stacktop_append [of 1 "[v]" "s @ x # xs"] by simp
  have u: "stacktop (s @ x # xs) (- int (length xs) - 1) = (Inr x :: (ScriptError, valtype) exec)"
    using stacktop_append [of "int (length xs) + 1" "x # xs" s] by (simp add: minus_diff_commute)
  have p: "popstack (s @ x # xs @ [v]) = (Inr (s @ x # xs) :: (ScriptError, valtype list) exec)"
    by (simp add: popstack_def butlast_append)
  show ?thesis
    using b by (simp add: op_PICK_ROLL_def stack_num_def t assms CScriptNum_getint_def p u vec_erase_def Let_def)
qed

section \<open>CHECKMULTISIG\<close>

lemma list_emb_drop_first: "list_emb P (x # xs) ys \<Longrightarrow> list_emb P xs ys"
  by (metis list_emb_ConsD list_emb_Cons list_emb_append2)

lemma list_emb_greedy:
  "list_emb P (x # xs) (y # ys) \<longleftrightarrow> (if P x y then list_emb P xs ys else list_emb P (x # xs) ys)"
  using list_emb_drop_first [of P x xs ys] by (auto)

lemma list_emb_rev: "list_emb P (rev xs) (rev ys) \<longleftrightarrow> list_emb P xs ys"
proof -
  have r: "list_emb P xs ys \<Longrightarrow> list_emb P (rev xs) (rev ys)" for xs ys
  proof (induction rule: list_emb.induct)
    case (list_emb_Cons xs ys y)
    then show ?case by (simp add: list_emb_append2 list_emb_prefix)
  next
    case (list_emb_Cons2 x y xs ys)
    then show ?case by (simp add: list_emb_append_mono)
  qed simp
  from r [of xs ys] r [of "rev xs" "rev ys"] show ?thesis by auto
qed

lemma multisig_loop_emb:
  assumes "\<And>k. k < length S \<Longrightarrow> stacktop st (- (isig + int k)) = (Inr (S ! k) :: (ScriptError, valtype) exec)"
    and "\<And>k. k < length K \<Longrightarrow> stacktop st (- (ikey + int k)) = (Inr (K ! k) :: (ScriptError, valtype) exec)"
    and "\<And>sig key. sig \<in> set S \<Longrightarrow> key \<in> set K \<Longrightarrow> check_encodings cx sig key = Inr ()"
    and "length S \<le> length K"
  shows "multisig_loop cx st (int (length S)) isig (int (length K)) ikey = Inr (list_emb (cx_CheckSig cx) S K)"
  using assms
proof (induction K arbitrary: S isig ikey)
  case Nil
  then show ?case by (simp add: multisig_loop.simps)
next
  case (Cons key K)
  show ?case
  proof (cases S)
    case Nil
    then show ?thesis by (simp add: multisig_loop.simps)
  next
    case S: (Cons sig T)
    have "stacktop st (- isig) = (Inr sig :: (ScriptError, valtype) exec)"
      using Cons.prems(1) [of 0] S by simp
    moreover have "stacktop st (- ikey) = (Inr key :: (ScriptError, valtype) exec)"
      using Cons.prems(2) [of 0] by simp
    moreover have "check_encodings cx sig key = Inr ()" using Cons.prems(3) S by simp
    ultimately have u: "multisig_loop cx st (int (length S)) isig (int (length (key # K))) ikey =
       (if cx_CheckSig cx sig key then
          (if length K < length T then Inr False
           else multisig_loop cx st (int (length T)) (isig + 1) (int (length K)) (ikey + 1))
        else if length K < length S then Inr False
           else multisig_loop cx st (int (length S)) isig (int (length K)) (ikey + 1))"
      by (subst multisig_loop.simps) (simp add: S)
    have K: "stacktop st (- (ikey + 1 + int k)) = (Inr (K ! k) :: (ScriptError, valtype) exec)"
      if "k < length K" for k
      using Cons.prems(2) [of "Suc k"] that by (simp add: add.assoc)
    have T: "stacktop st (- (isig + 1 + int k)) = (Inr (T ! k) :: (ScriptError, valtype) exec)"
      if "k < length T" for k
      using Cons.prems(1) [of "Suc k"] that S by (simp add: add.assoc)
    have l: "length K < length U \<Longrightarrow> \<not> list_emb (cx_CheckSig cx) U K" for U
      using list_emb_length by fastforce
    show ?thesis
    proof (cases "cx_CheckSig cx sig key")
      case True
      have "multisig_loop cx st (int (length T)) (isig + 1) (int (length K)) (ikey + 1) =
          Inr (list_emb (cx_CheckSig cx) T K)" if "\<not> length K < length T"
        using that T K Cons.prems(3) S by (intro Cons.IH) auto
      then show ?thesis unfolding u using True l [of T] by (simp add: S list_emb_greedy)
    next
      case False
      have "multisig_loop cx st (int (length S)) isig (int (length K)) (ikey + 1) =
          Inr (list_emb (cx_CheckSig cx) S K)" if "\<not> length K < length S"
        using that K Cons.prems(1,3) by (intro Cons.IH) auto
      then show ?thesis unfolding u using False l [of S] by (simp add: S list_emb_greedy)
    qed
  qed
qed

lemma getint_small: "0 \<le> n \<Longrightarrow> n \<le> 20 \<Longrightarrow> CScriptNum_getint n = n"
  by (simp add: CScriptNum_getint_def)

lemma CHECKMULTISIG_effect:
  assumes stack: "es_stack st = base @ dummy # S @ vs # K @ [vk]"
    and vk: "CScriptNum_from_vch vk (fRequireMinimal cx) 4 = (Inr (int (length K)) :: (ScriptError, int) exec)"
    and vs: "CScriptNum_from_vch vs (fRequireMinimal cx) 4 = (Inr (int (length S)) :: (ScriptError, int) exec)"
    and l: "length S \<le> length K" "length K \<le> 20" "es_nOpCount st + int (length K) \<le> 201"
    and enc: "\<And>sig key. sig \<in> set S \<Longrightarrow> key \<in> set K \<Longrightarrow> check_encodings cx sig key = Inr ()"
    and d: "cx_has cx SCRIPT_VERIFY_NULLDUMMY \<longrightarrow> dummy = []"
  shows "op_CHECKMULTISIG cx OP_CHECKMULTISIG st =
     Inr (st\<lparr>es_stack := base @ [if list_emb (cx_CheckSig cx) S K then vchTrue else vchFalse],
            es_nOpCount := es_nOpCount st + int (length K)\<rparr>)"
proof -
  let ?st = "es_stack st" and ?k = "int (length K)" and ?s = "int (length S)"
  have t1: "stacktop ?st (- 1) = (Inr vk :: (ScriptError, valtype) exec)"
    using stacktop_append [of 1 "[vk]" "base @ dummy # S @ vs # K"] by (simp add: stack)
  have t2: "stacktop ?st (- (2 + ?k)) = (Inr vs :: (ScriptError, valtype) exec)"
    using stacktop_append [of "2 + ?k" "vs # K @ [vk]" "base @ dummy # S"]
    by (simp add: stack nat_add_distrib)
  have keys: "stacktop ?st (- (2 + int i)) = (Inr (rev K ! i) :: (ScriptError, valtype) exec)"
    if "i < length (rev K)" for i
  proof -
    have "stacktop ((base @ dummy # S @ [vs]) @ K @ [vk]) (- (2 + int i)) =
        (Inr ((K @ [vk]) ! (length (K @ [vk]) - nat (2 + int i))) :: (ScriptError, valtype) exec)"
      using that by (intro stacktop_append) auto
    moreover have "length (K @ [vk]) - nat (2 + int i) = length K - Suc i" "length K - Suc i < length K"
      using that by (auto simp: nat_add_distrib)
    ultimately show ?thesis using that by (simp add: stack nth_append rev_nth)
  qed
  have sigs: "stacktop ?st (- (3 + ?k + int i)) = (Inr (rev S ! i) :: (ScriptError, valtype) exec)"
    if "i < length (rev S)" for i
  proof -
    have "stacktop ((base @ [dummy]) @ S @ vs # K @ [vk]) (- (3 + ?k + int i)) =
        (Inr ((S @ vs # K @ [vk]) ! (length (S @ vs # K @ [vk]) - nat (3 + ?k + int i)))
         :: (ScriptError, valtype) exec)"
      using that by (intro stacktop_append) auto
    moreover have "length (S @ vs # K @ [vk]) - nat (3 + ?k + int i) = length S - Suc i"
      "length S - Suc i < length S"
      using that by (auto simp: nat_add_distrib)
    ultimately show ?thesis using that by (simp add: stack nth_append rev_nth)
  qed
  have loop: "multisig_loop cx ?st ?s (3 + ?k) ?k 2 = Inr (list_emb (cx_CheckSig cx) S K)"
    using multisig_loop_emb [of "rev S" ?st "3 + ?k" "rev K" 2 cx, OF sigs keys] enc l(1)
    by (simp add: list_emb_rev)
  have len: "length ?st = length base + length S + length K + 3" by (simp add: stack)
  have pop: "pop_many (nat (2 + ?k + ?s)) ?st = (Inr (base @ [dummy]) :: (ScriptError, valtype list) exec)"
    using pop_many_eq [of "nat (2 + ?k + ?s)" ?st] by (simp add: len nat_add_distrib) (simp add: stack)
  have n: "CScriptNum_getint ?k = ?k" "CScriptNum_getint ?s = ?s"
    using l by (simp_all add: getint_small)
  have i: "3 + ?k + ?s - 1 = 2 + ?k + ?s" "2 + ?k + 1 = 3 + ?k" by simp_all
  have g: "\<not> int (length ?st) < 1" "\<not> (?k < 0 \<or> 20 < ?k)" "\<not> 201 < es_nOpCount st + ?k"
    "\<not> int (length ?st) < 2 + ?k" "\<not> (?s < 0 \<or> ?k < ?s)" "\<not> int (length ?st) < 3 + ?k + ?s"
    using l by (simp_all add: len)
  have v: "stack_num cx ?st (- 1) = Inr ?k" "stack_num cx ?st (- (2 + ?k)) = Inr ?s"
    by (simp_all only: stack_num_def t1 t2 exec_bind_simps vk vs)
  show ?thesis
    unfolding op_CHECKMULTISIG_def Let_def v exec_bind_simps n if_not_P [OF g(1)] if_not_P [OF g(2)]
      if_not_P [OF g(3)] if_not_P [OF g(4)] if_not_P [OF g(5)] i if_not_P [OF g(6)] loop pop
    using d by auto
qed

section \<open>Pay to public key hash\<close>

lemma eval_loop_push:
  assumes "length d < 0x4c" "fRequireMinimal cx \<longrightarrow> 2 \<le> length d" "es_vfExec st = []"
    and "length (es_stack st) + length (es_altstack st) < 1000"
  shows "eval_loop cx (of_nat (length d) # d @ pc) st =
     eval_loop cx pc (st\<lparr>es_stack := es_stack st @ [d]\<rparr>)"
proof -
  have g: "GetOp2 (of_nat (length d) # d @ pc) = (True, length d, d, pc)"
    using assms(1) by (simp add: GetOp2_def GetOp2_operand_def unat_of_nat_byte)
  have "\<not> disabled_opcode (length d)" using assms(1) by (auto simp: disabled_opcode_def)
  moreover have "fRequireMinimal cx \<longrightarrow> CheckMinimalPush d (length d)"
    using assms(1,2) by (auto simp: CheckMinimalPush_def)
  ultimately have "eval_step cx (of_nat (length d) # d @ pc) st =
      Inr (pc, st\<lparr>es_stack := es_stack st @ [d]\<rparr>)"
    using assms by (cases "fRequireMinimal cx") (simp_all add: eval_step_def g eval_op_def Let_def)
  then show ?thesis by (subst eval_loop.simps) simp
qed

lemma eval_loop_Nil [simp]: "eval_loop cx [] st = Inr st"
  by (simp add: eval_loop.simps)

lemma EvalScript_pushes:
  assumes "cx_script cx = script_push_data (script_push_data [] sig) key"
    "2 \<le> length sig" "length sig < 0x4c" "2 \<le> length key" "length key < 0x4c"
  shows "EvalScript cx [] = Inr [sig, key]"
proof -
  have "cx_script cx = of_nat (length sig) # sig @ of_nat (length key) # key @ []"
    using assms by (simp add: script_push_data_def)
  then show ?thesis
    using assms(2-) by (simp add: EvalScript_def eval_loop_push del: append_Nil2)
qed

lemma Hash160_CHash160: "CHash160_Finalize (CHash160_Write CHash160_new k) = Hash160 k"
  by (simp add: Hash160_def)

lemmas eval_concrete = eval_loop_Cons eval_loop_push eval_op_def eval_switch_def disabled_opcode_def on_stack_def
  stacktop_def vec_at_def popstack_def

abbreviation (input) stack_state :: "valtype list \<Rightarrow> int \<Rightarrow> eval_state" where
  "stack_state s n \<equiv> \<lparr>es_stack = s, es_altstack = [], es_vfExec = [], es_nOpCount = n\<rparr>"

lemmas eval_one = eval_loop_Cons eval_op_def eval_switch_def disabled_opcode_def on_stack_def

lemma eval_loop_P2PKH_ops:
  assumes "n < 201"
  shows "eval_loop cx (0x76 # pc) (stack_state [] n) = Inl (Fail SCRIPT_ERR_INVALID_STACK_OPERATION)"
    and "eval_loop cx (0x76 # pc) (stack_state (s @ [x]) n) =
      (if 1000 < length s + 2 then Inl (Fail SCRIPT_ERR_STACK_SIZE) else eval_loop cx pc (stack_state ((s @ [x]) @ [x]) (n + 1)))"
    and "length s < 1000 \<Longrightarrow>
      eval_loop cx (0xa9 # pc) (stack_state (s @ [x]) n) = eval_loop cx pc (stack_state (s @ [Hash160 x]) (n + 1))"
    and "length s < 1000 \<Longrightarrow> eval_loop cx (0x88 # pc) (stack_state (s @ [x, y]) n) =
      (if x = y then eval_loop cx pc (stack_state s (n + 1)) else Inl (Fail SCRIPT_ERR_EQUALVERIFY))"
    and "eval_loop cx (0xac # pc) (stack_state [x] n) = Inl (Fail SCRIPT_ERR_INVALID_STACK_OPERATION)"
    and "length s < 1000 \<Longrightarrow> eval_loop cx (0xac # pc) (stack_state (s @ [x, y]) n) =
      exec_bind (check_encodings cx x y) (\<lambda>_.
        eval_loop cx pc (stack_state (s @ [if cx_CheckSig cx x y then vchTrue else vchFalse]) (n + 1)))"
proof -
  show "eval_loop cx (0xac # pc) (stack_state (s @ [x, y]) n) =
      exec_bind (check_encodings cx x y) (\<lambda>_.
        eval_loop cx pc (stack_state (s @ [if cx_CheckSig cx x y then vchTrue else vchFalse]) (n + 1)))" if "length s < 1000"
    using assms that by (cases "check_encodings cx x y") (simp_all add: eval_one op_CHECKSIG_def)
qed (use assms in \<open>simp_all add: eval_one op_DUP_def op_hash_def op_EQUAL_def op_CHECKSIG_def Hash160_CHash160\<close>)

lemma eval_loop_push_h:
  assumes "length h = 20"
  shows "eval_loop cx (0x14 # h @ pc) (stack_state s n) =
    (if length s < 1000 then eval_loop cx pc (stack_state (s @ [h]) n) else Inl (Fail SCRIPT_ERR_STACK_SIZE))"
proof -
  have "GetOp2 (0x14 # h @ pc) = (True, 20, h, pc)" using assms by (simp add: GetOp2_def GetOp2_operand_def)
  then show ?thesis
    using eval_loop_push [of h cx "stack_state s n" pc] assms
    by (auto simp: eval_loop.simps [of cx "0x14 # h @ pc"] eval_step_def eval_op_def disabled_opcode_def CheckMinimalPush_def)
qed

lemma eval_loop_P2PKH_key:
  assumes "length h = 20"
  shows "eval_loop cx (0x76 # 0xa9 # 0x14 # h @ [0x88, 0xac]) (stack_state (b @ [x]) 0) =
    (if length b \<le> 997
     then if Hash160 x = h then eval_loop cx [0xac] (stack_state (b @ [x]) 3) else Inl (Fail SCRIPT_ERR_EQUALVERIFY)
     else Inl (Fail SCRIPT_ERR_STACK_SIZE))"
proof -
  have hash: "eval_loop cx (0xa9 # pc) (stack_state (b @ [x, x]) 1) = eval_loop cx pc (stack_state (b @ [x, Hash160 x]) 2)"
    if "length b < 999" for pc
    using eval_loop_P2PKH_ops(3) [of 1 "b @ [x]" cx pc x] that by simp
  have eq: "eval_loop cx [0x88, 0xac] (stack_state (b @ [x, Hash160 x, h]) 2) =
    (if Hash160 x = h then eval_loop cx [0xac] (stack_state (b @ [x]) 3) else Inl (Fail SCRIPT_ERR_EQUALVERIFY))"
    if "length b < 999"
    using eval_loop_P2PKH_ops(4) [of 2 "b @ [x]" cx "[0xac]" "Hash160 x" h] that by simp
  show ?thesis
    by (simp add: eval_loop_P2PKH_ops(2) hash eq eval_loop_push_h [OF assms])
qed

lemma eval_loop_P2PKH:
  assumes "length h = 20"
  shows "eval_loop cx ([0x76, 0xa9, 0x14] @ h @ [0x88, 0xac]) (stack_state s 0) = Inr st \<longleftrightarrow>
    (\<exists>base sig key. s = base @ [sig, key] \<and> length base \<le> 996 \<and> Hash160 key = h \<and> check_encodings cx sig key = Inr () \<and>
      st = stack_state (base @ [if cx_CheckSig cx sig key then vchTrue else vchFalse]) 4)"
proof -
  have p: "[0x76, 0xa9, 0x14] @ h @ [0x88, 0xac] = 0x76 # 0xa9 # 0x14 # h @ [0x88, 0xac]" by simp
  consider "s = []" | key where "s = [key]" | base sig key where "s = base @ [sig, key]"
    by (metis append_Nil append_assoc append_Cons rev_exhaust)
  then show ?thesis
  proof cases
    case 1
    then show ?thesis unfolding p by (simp add: eval_loop_P2PKH_ops(1))
  next
    case (2 key)
    then show ?thesis
      unfolding p using eval_loop_P2PKH_key [OF assms, of cx "[]" key] by (simp add: eval_loop_P2PKH_ops(5))
  next
    case (3 base sig key)
    have "eval_loop cx (0x76 # 0xa9 # 0x14 # h @ [0x88, 0xac]) (stack_state s 0) =
      (if length base \<le> 996
       then if Hash160 key = h
            then exec_bind (check_encodings cx sig key) (\<lambda>_.
                 Inr (stack_state (base @ [if cx_CheckSig cx sig key then vchTrue else vchFalse]) 4))
            else Inl (Fail SCRIPT_ERR_EQUALVERIFY)
       else Inl (Fail SCRIPT_ERR_STACK_SIZE))"
      using eval_loop_P2PKH_key [OF assms, of cx "base @ [sig]" key] eval_loop_P2PKH_ops(6) [of 3 base cx "[]" sig key]
      by (simp add: 3)
    then show ?thesis unfolding p 3 by (cases "check_encodings cx sig key") auto
  qed
qed

lemma EvalScript_P2PKH:
  assumes "length h = 20"
  defines "pk \<equiv> [0x76, 0xa9, 0x14] @ h @ [0x88, 0xac]"
  shows "EvalScript (cx\<lparr>cx_script := pk\<rparr>) s = Inr s' \<longleftrightarrow>
    (\<exists>base sig key. s = base @ [sig, key] \<and> length base \<le> 996 \<and> Hash160 key = h \<and> check_encodings cx sig key = Inr () \<and>
      s' = base @ [if checker_CheckSig (cx_checker cx) sig key pk (cx_branch cx) then vchTrue else vchFalse])"
proof -
  define v where "v = (\<lambda>sig key. if checker_CheckSig (cx_checker cx) sig key pk (cx_branch cx) then vchTrue else vchFalse)"
  have ce: "check_encodings (cx\<lparr>cx_script := pk\<rparr>) sig key = check_encodings cx sig key" for sig key
    by (simp add: check_encodings_def)
  have cs: "(if cx_CheckSig (cx\<lparr>cx_script := pk\<rparr>) sig key then vchTrue else vchFalse) = v sig key" for sig key
    by (simp add: cx_CheckSig_def v_def)
  have "\<not> MAX_SCRIPT_SIZE < length pk" using assms(1) by (simp add: pk_def)
  then have "EvalScript (cx\<lparr>cx_script := pk\<rparr>) s = Inr s' \<longleftrightarrow>
      (\<exists>st. eval_loop (cx\<lparr>cx_script := pk\<rparr>) pk (stack_state s 0) = Inr st \<and> es_vfExec st = [] \<and> es_stack st = s')"
    by (auto simp: EvalScript_def split: sum.splits failure.splits if_splits)
  also have "\<dots> \<longleftrightarrow> (\<exists>base sig key. s = base @ [sig, key] \<and> length base \<le> 996 \<and> Hash160 key = h \<and>
      check_encodings cx sig key = Inr () \<and> s' = base @ [v sig key])"
    unfolding eval_loop_P2PKH [OF assms(1), of "cx\<lparr>cx_script := pk\<rparr>", folded pk_def] ce cs by auto
  finally show ?thesis unfolding v_def .
qed

lemma VerifyScript_P2PKH:
  assumes "length h = 20" "cx_has cx SCRIPT_VERIFY_CLEANSTACK \<longrightarrow> cx_has cx SCRIPT_VERIFY_P2SH"
  defines "pk \<equiv> [0x76, 0xa9, 0x14] @ h @ [0x88, 0xac]"
  shows "VerifyScript cx scriptSig pk = Inr () \<longleftrightarrow>
    (cx_has cx SCRIPT_VERIFY_SIGPUSHONLY \<longrightarrow> IsPushOnly scriptSig) \<and>
    (\<exists>base sig key. EvalScript (cx\<lparr>cx_script := scriptSig\<rparr>) [] = Inr (base @ [sig, key]) \<and> length base \<le> 996 \<and>
      Hash160 key = h \<and> check_encodings cx sig key = Inr () \<and> checker_CheckSig (cx_checker cx) sig key pk (cx_branch cx) \<and>
      (cx_has cx SCRIPT_VERIFY_CLEANSTACK \<longrightarrow> base = []))"
proof -
  have nsh: "\<not> IsPayToScriptHash pk" by (simp add: pk_def IsPayToScriptHash_def)
  have v: "\<not> eval_false (base @ [if c then vchTrue else vchFalse]) \<longleftrightarrow> c" for base c
    by (auto simp: eval_false_def)
  have "VerifyScript cx scriptSig pk = Inr () \<longleftrightarrow>
    (cx_has cx SCRIPT_VERIFY_SIGPUSHONLY \<longrightarrow> IsPushOnly scriptSig) \<and>
    (\<exists>s s'. EvalScript (cx\<lparr>cx_script := scriptSig\<rparr>) [] = Inr s \<and> EvalScript (cx\<lparr>cx_script := pk\<rparr>) s = Inr s' \<and>
      \<not> eval_false s' \<and> (cx_has cx SCRIPT_VERIFY_CLEANSTACK \<longrightarrow> length s' = 1))"
    unfolding VerifyScript_iff using nsh assms(2) by auto
  moreover have "(\<exists>s s'. e = Inr s \<and> (\<exists>b g k. s = b @ [g, k] \<and> P b \<and> Q k \<and> R g k \<and> s' = b @ [f g k]) \<and> S s') \<longleftrightarrow>
      (\<exists>b g k. e = Inr (b @ [g, k]) \<and> P b \<and> Q k \<and> R g k \<and> S (b @ [f g k]))"
    for e :: "(ScriptError, valtype list) exec" and P Q R S f
    by blast
  ultimately show ?thesis
    unfolding EvalScript_P2PKH [OF assms(1), folded pk_def] by (simp add: v)
qed

section \<open>Properties\<close>

text \<open>A context whose checker accepts every signature.\<close>

definition accept_ctx :: "script \<Rightarrow> u32 \<Rightarrow> eval_ctx" where
  "accept_ctx s flags =
     (base_ctx s flags)\<lparr>cx_checker := \<lparr>checker_CheckSig = \<lambda>_ _ _ _. True,
                                    checker_CheckLockTime = \<lambda>_. True\<rparr>\<rparr>"

text \<open>the stack manipulation opcodes have the effects that the comments beside them
  document, on every stack with enough elements and without touching the rest of the
  state.\<close>

theorem stack_effects:
  "eval_switch cx fExec OP_2DROP (st\<lparr>es_stack := s @ [x1, x2]\<rparr>) = Inr (st\<lparr>es_stack := s\<rparr>) \<and>
   eval_switch cx fExec OP_2DUP (st\<lparr>es_stack := s @ [x1, x2]\<rparr>) =
     Inr (st\<lparr>es_stack := s @ [x1, x2, x1, x2]\<rparr>) \<and>
   eval_switch cx fExec OP_3DUP (st\<lparr>es_stack := s @ [x1, x2, x3]\<rparr>) =
     Inr (st\<lparr>es_stack := s @ [x1, x2, x3, x1, x2, x3]\<rparr>) \<and>
   eval_switch cx fExec OP_2OVER (st\<lparr>es_stack := s @ [x1, x2, x3, x4]\<rparr>) =
     Inr (st\<lparr>es_stack := s @ [x1, x2, x3, x4, x1, x2]\<rparr>) \<and>
   eval_switch cx fExec OP_2ROT (st\<lparr>es_stack := s @ [x1, x2, x3, x4, x5, x6]\<rparr>) =
     Inr (st\<lparr>es_stack := s @ [x3, x4, x5, x6, x1, x2]\<rparr>) \<and>
   eval_switch cx fExec OP_2SWAP (st\<lparr>es_stack := s @ [x1, x2, x3, x4]\<rparr>) =
     Inr (st\<lparr>es_stack := s @ [x3, x4, x1, x2]\<rparr>) \<and>
   eval_switch cx fExec OP_DROP (st\<lparr>es_stack := s @ [x1]\<rparr>) = Inr (st\<lparr>es_stack := s\<rparr>) \<and>
   eval_switch cx fExec OP_DUP (st\<lparr>es_stack := s @ [x1]\<rparr>) = Inr (st\<lparr>es_stack := s @ [x1, x1]\<rparr>) \<and>
   eval_switch cx fExec OP_NIP (st\<lparr>es_stack := s @ [x1, x2]\<rparr>) = Inr (st\<lparr>es_stack := s @ [x2]\<rparr>) \<and>
   eval_switch cx fExec OP_OVER (st\<lparr>es_stack := s @ [x1, x2]\<rparr>) =
     Inr (st\<lparr>es_stack := s @ [x1, x2, x1]\<rparr>) \<and>
   eval_switch cx fExec OP_ROT (st\<lparr>es_stack := s @ [x1, x2, x3]\<rparr>) =
     Inr (st\<lparr>es_stack := s @ [x2, x3, x1]\<rparr>) \<and>
   eval_switch cx fExec OP_SWAP (st\<lparr>es_stack := s @ [x1, x2]\<rparr>) =
     Inr (st\<lparr>es_stack := s @ [x2, x1]\<rparr>) \<and>
   eval_switch cx fExec OP_TUCK (st\<lparr>es_stack := s @ [x1, x2]\<rparr>) =
     Inr (st\<lparr>es_stack := s @ [x2, x1, x2]\<rparr>)"
  by (intro conjI) (simp_all add: eval_switch_def on_stack_def op_effects)

text \<open>\<open>OP_PICK\<close> copies and \<open>OP_ROLL\<close> moves the element below the \<open>n\<close> topmost ones to the
  top, where \<open>n\<close> is the number on top of the stack.\<close>

theorem pick_roll_effect:
  assumes "CScriptNum_from_vch v (fRequireMinimal cx) nDefaultMaxNumSize =
     (Inr (int (length xs)) :: (ScriptError, int) exec)"
  shows "op_PICK_ROLL cx OP_PICK (s @ x # xs @ [v]) = Inr (s @ x # xs @ [x]) \<and>
         op_PICK_ROLL cx OP_ROLL (s @ x # xs @ [v]) = Inr (s @ xs @ [x])"
  using PICK_ROLL_effect [OF assms] by simp

theorem pick_roll_effect_witness:
  "op_PICK_ROLL (base_ctx [] 0) OP_PICK ([] @ [7] # [[8]] @ [[1]]) = Inr [[7], [8], [7]] \<and>
   op_PICK_ROLL (base_ctx [] 0) OP_ROLL ([] @ [7] # [[8]] @ [[1]]) = Inr [[8], [7]]"
proof -
  have "CScriptNum_from_vch [1] (fRequireMinimal (base_ctx [] 0)) nDefaultMaxNumSize =
     (Inr (int (length [[8 :: byte]])) :: (ScriptError, int) exec)" by code_simp
  from pick_roll_effect [OF this, of "[]" "[7]"] show ?thesis by simp
qed

text \<open>C2: \<open>OP_CHECKMULTISIG\<close> over well-encoded signatures and keys succeeds exactly if the
  signatures can be matched, in order, to a subsequence of the keys such that each
  signature verifies under its key; the loop of the code, which only ever advances, decides
  this. It removes its arguments and the extra dummy element and pushes the result.\<close>

theorem checkmultisig_matching:
  assumes "es_stack st = base @ dummy # sigs @ vs # keys @ [vk]"
    and "CScriptNum_from_vch vk (fRequireMinimal cx) nDefaultMaxNumSize =
           (Inr (int (length keys)) :: (ScriptError, int) exec)"
    and "CScriptNum_from_vch vs (fRequireMinimal cx) nDefaultMaxNumSize =
           (Inr (int (length sigs)) :: (ScriptError, int) exec)"
    and "length sigs \<le> length keys" "length keys \<le> 20"
    and "es_nOpCount st + int (length keys) \<le> 201"
    and "\<forall>sig \<in> set sigs. \<forall>key \<in> set keys. check_encodings cx sig key = Inr ()"
    and "cx_has cx SCRIPT_VERIFY_NULLDUMMY \<longrightarrow> dummy = []"
  shows "op_CHECKMULTISIG cx OP_CHECKMULTISIG st =
     Inr (st\<lparr>es_stack := base @ [if list_emb (cx_CheckSig cx) sigs keys then vchTrue else vchFalse],
            es_nOpCount := es_nOpCount st + int (length keys)\<rparr>)"
  using assms by (intro CHECKMULTISIG_effect) auto

theorem checkmultisig_matching_witness:
  "op_CHECKMULTISIG (accept_ctx [] 0) OP_CHECKMULTISIG
     \<lparr>es_stack = [[], [0x30, 6, 2, 1, 1, 2, 1, 1, 1], [1], [2, 3], [1]], es_altstack = [],
      es_vfExec = [], es_nOpCount = 1\<rparr> =
   Inr \<lparr>es_stack = [[1]], es_altstack = [], es_vfExec = [], es_nOpCount = 2\<rparr>"
proof -
  let ?sig = "[0x30, 6, 2, 1, 1, 2, 1, 1, 1]"
  let ?st = "\<lparr>es_stack = [[], ?sig, [1], [2, 3], [1]], es_altstack = [], es_vfExec = [],
     es_nOpCount = 1\<rparr>"
  have "CScriptNum_from_vch [1] (fRequireMinimal (accept_ctx [] 0)) nDefaultMaxNumSize =
      (Inr 1 :: (ScriptError, int) exec)" by code_simp
  moreover have "check_encodings (accept_ctx [] 0) ?sig [2, 3] = Inr ()" by code_simp
  moreover have "cx_CheckSig (accept_ctx [] 0) ?sig [2, 3]"
    by (simp add: cx_CheckSig_def accept_ctx_def base_ctx_def)
  ultimately show ?thesis
    using checkmultisig_matching [of ?st "[]" "[]" "[?sig]" "[1]" "[[2, 3]]" "[1]" "accept_ctx [] 0"]
    by (simp add: list_emb_greedy)
qed

text \<open>C6: The spending condition of a pay-to-public-key-hash output, for every \<open>scriptSig\<close>: it is accepted
  exactly if it runs without error (and only pushes data, where the flags ask for that) and leaves a
  signature and, on top, a key, such that the key hashes to the hash of the output, both are encoded as the
  flags require, and the checker accepts the signature for this key and the output's script. Below them at
  most 996 elements may remain, and none under the clean-stack flag.\<close>

theorem p2pkh_spending_condition:
  assumes "length h = 20"
    and "cx_has cx SCRIPT_VERIFY_CLEANSTACK \<longrightarrow> cx_has cx SCRIPT_VERIFY_P2SH"
  shows "VerifyScript cx scriptSig ([0x76, 0xa9, 0x14] @ h @ [0x88, 0xac]) = Inr () \<longleftrightarrow>
    (cx_has cx SCRIPT_VERIFY_SIGPUSHONLY \<longrightarrow> IsPushOnly scriptSig) \<and>
    (\<exists>base sig key. EvalScript (cx\<lparr>cx_script := scriptSig\<rparr>) [] = Inr (base @ [sig, key]) \<and> length base \<le> 996 \<and>
      Hash160 key = h \<and> check_encodings cx sig key = Inr () \<and>
      checker_CheckSig (cx_checker cx) sig key ([0x76, 0xa9, 0x14] @ h @ [0x88, 0xac]) (cx_branch cx) \<and>
      (cx_has cx SCRIPT_VERIFY_CLEANSTACK \<longrightarrow> base = []))"
  by (rule VerifyScript_P2PKH [OF assms])

theorem p2pkh_spending_condition_witness:
  "VerifyScript (accept_ctx [] 0)
     (script_push_data (script_push_data [] [0x30, 6, 2, 1, 1, 2, 1, 1, 1]) [3, 4])
     ([0x76, 0xa9, 0x14] @ Hash160 [3, 4] @ [0x88, 0xac]) = Inr () \<and>
   VerifyScript (accept_ctx [] 0) [0x6a] ([0x76, 0xa9, 0x14] @ Hash160 [3, 4] @ [0x88, 0xac]) \<noteq> Inr ()"
proof -
  let ?sig = "[0x30, 6, 2, 1, 1, 2, 1, 1, 1]" and ?cx = "accept_ctx [] 0"
  have e: "check_encodings ?cx ?sig [3, 4] = Inr ()" by code_simp
  have flags: "\<not> cx_has ?cx SCRIPT_VERIFY_CLEANSTACK" "\<not> cx_has ?cx SCRIPT_VERIFY_SIGPUSHONLY"
    by (simp_all add: cx_has_def accept_ctx_def base_ctx_def flag_set_def)
  have run: "EvalScript (?cx\<lparr>cx_script := script_push_data (script_push_data [] ?sig) [3, 4]\<rparr>) [] = Inr ([] @ [?sig, [3, 4]])"
    using EvalScript_pushes [of "?cx\<lparr>cx_script := script_push_data (script_push_data [] ?sig) [3, 4]\<rparr>" ?sig "[3, 4]"] by simp
  have ret: "EvalScript (?cx\<lparr>cx_script := [0x6a]\<rparr>) [] = Inl (Fail SCRIPT_ERR_OP_RETURN)" by code_simp
  have "checker_CheckSig (cx_checker ?cx) s k p b" for s k p b by (simp add: accept_ctx_def base_ctx_def)
  then show ?thesis
    using p2pkh_spending_condition [of "Hash160 [3, 4]" ?cx] flags e run ret by auto
qed

end
