(* ===== verification/Block.thy ===== *)
theory Block
  imports Transaction
begin

text \<open>
  Blocks: src/src/primitives/block.h and src/src/primitives/block.cpp. A header is the record
  \<open>CBlockHeader\<close>; a block adds its transactions and the cached Merkle tree. The tree is built level
  by level in one vector, as the loops of \<open>BuildMerkleTree\<close> do; \<open>merkle_row\<close> is the inner loop,
  \<open>merkle_rows\<close> the outer one. Headers and blocks have codecs, so their encodings are unique; the
  facts about Merkle trees are in the theory Merkle.
\<close>

section \<open>Headers and blocks\<close>

record CBlockHeader =
  bh_nVersion :: int
  hashPrevBlock :: bytes
  hashMerkleRoot :: bytes
  hashFinalSaplingRoot :: bytes
  bh_nTime :: u32
  bh_nBits :: u32
  bh_nNonce :: bytes
  bh_nSolution :: bytes

definition CBlockHeader_null :: CBlockHeader where
  "CBlockHeader_null =
     \<lparr>bh_nVersion = 4, hashPrevBlock = uint256_null, hashMerkleRoot = uint256_null,
      hashFinalSaplingRoot = uint256_null, bh_nTime = 0, bh_nBits = 0, bh_nNonce = uint256_null,
      bh_nSolution = []\<rparr>"

definition CBlockHeader_IsNull :: "CBlockHeader \<Rightarrow> bool" where
  "CBlockHeader_IsNull h \<longleftrightarrow> bh_nBits h = 0"

definition CBlockHeader_GetBlockTime :: "CBlockHeader \<Rightarrow> int" where
  "CBlockHeader_GetBlockTime h = uint (bh_nTime h)"

definition ser_CBlockHeader :: "CBlockHeader \<Rightarrow> bytes" where
  "ser_CBlockHeader h =
     ser_int32 (bh_nVersion h) @ ser_blob (hashPrevBlock h) @ ser_blob (hashMerkleRoot h) @
     ser_blob (hashFinalSaplingRoot h) @ WriteLE32 (bh_nTime h) @ WriteLE32 (bh_nBits h) @
     ser_blob (bh_nNonce h) @ ser_bytes (bh_nSolution h)"

definition unser_CBlockHeader :: "('e, CBlockHeader) reader" where
  "unser_CBlockHeader s =
     exec_bind (unser_int32 s) (\<lambda>(version, s).
     exec_bind (unser_blob 32 s) (\<lambda>(prev, s).
     exec_bind (unser_blob 32 s) (\<lambda>(root, s).
     exec_bind (unser_blob 32 s) (\<lambda>(sapling, s).
     exec_bind (ser_readdata32 s) (\<lambda>(time, s).
     exec_bind (ser_readdata32 s) (\<lambda>(bits, s).
     exec_bind (unser_blob 32 s) (\<lambda>(nonce, s).
     exec_bind (unser_bytes s) (\<lambda>(solution, s).
     Inr (\<lparr>bh_nVersion = version, hashPrevBlock = prev, hashMerkleRoot = root,
           hashFinalSaplingRoot = sapling, bh_nTime = time, bh_nBits = bits, bh_nNonce = nonce,
           bh_nSolution = solution\<rparr>, s)))))))))"

text \<open>The serialization that is the input of Equihash omits the nonce and the solution.\<close>

definition ser_CEquihashInput :: "CBlockHeader \<Rightarrow> bytes" where
  "ser_CEquihashInput h =
     ser_int32 (bh_nVersion h) @ ser_blob (hashPrevBlock h) @ ser_blob (hashMerkleRoot h) @
     ser_blob (hashFinalSaplingRoot h) @ WriteLE32 (bh_nTime h) @ WriteLE32 (bh_nBits h)"

definition CBlockHeader_GetHash :: "CBlockHeader \<Rightarrow> bytes" where
  "CBlockHeader_GetHash h = SerializeHash (ser_CBlockHeader h)"

record CBlock =
  blk_header :: CBlockHeader
  vtx :: "CTransaction list"
  blk_payee :: script
  vMerkleTree :: "bytes list"

definition CBlock_new :: "CBlockHeader \<Rightarrow> CBlock" where
  "CBlock_new h = \<lparr>blk_header = h, vtx = [], blk_payee = [], vMerkleTree = []\<rparr>"

definition ser_CBlock :: "CBlock \<Rightarrow> bytes" where
  "ser_CBlock b = ser_CBlockHeader (blk_header b) @ ser_vector ser_CTransaction (vtx b)"

definition unser_CBlock :: "('e, CBlock) reader" where
  "unser_CBlock s =
     exec_bind (unser_CBlockHeader s) (\<lambda>(h, s).
     exec_bind (unser_vector unser_CTransaction s) (\<lambda>(txs, s).
     Inr ((CBlock_new h)\<lparr>vtx := txs\<rparr>, s)))"

text \<open>A locator is written with the version of the client in front.\<close>

definition ser_CBlockLocator :: "int \<Rightarrow> bytes list \<Rightarrow> bytes" where
  "ser_CBlockLocator version vHave = ser_int32 version @ ser_vector ser_blob vHave"

definition unser_CBlockLocator :: "('e, int \<times> bytes list) reader" where
  "unser_CBlockLocator s =
     exec_bind (unser_int32 s) (\<lambda>(version, s).
     exec_bind (unser_vector (unser_blob 32) s) (\<lambda>(vHave, s). Inr ((version, vHave), s)))"

section \<open>Merkle trees\<close>

function merkle_row ::
    "('h \<Rightarrow> 'h \<Rightarrow> 'h) \<Rightarrow> nat \<Rightarrow> nat \<Rightarrow> nat \<Rightarrow> 'h list \<times> bool \<Rightarrow> 'h list \<times> bool" where
  "merkle_row H j nSize i (tree, mutated) =
     (if i < nSize then
        let i2 = min (i + 1) (nSize - 1);
            dup = i2 = i + 1 \<and> i2 + 1 = nSize \<and> tree ! (j + i) = tree ! (j + i2)
        in merkle_row H j nSize (i + 2) (tree @ [H (tree ! (j + i)) (tree ! (j + i2))], mutated \<or> dup)
      else (tree, mutated))"
  by pat_completeness auto
termination by (relation "measure (\<lambda>(H, j, nSize, i, s). nSize - i)") auto

function merkle_rows ::
    "('h \<Rightarrow> 'h \<Rightarrow> 'h) \<Rightarrow> nat \<Rightarrow> nat \<Rightarrow> 'h list \<times> bool \<Rightarrow> 'h list \<times> bool" where
  "merkle_rows H j nSize s =
     (if 1 < nSize then merkle_rows H (j + nSize) ((nSize + 1) div 2) (merkle_row H j nSize 0 s) else s)"
  by pat_completeness auto
termination by (relation "measure (\<lambda>(H, j, nSize, s). nSize)") auto

declare merkle_row.simps [simp del] merkle_rows.simps [simp del]

text \<open>The result is the root and the mutation flag; the block keeps the tree.\<close>

definition BuildMerkleTree :: "CBlock \<Rightarrow> CBlock \<times> bytes \<times> bool" where
  "BuildMerkleTree b =
     (let (tree, mutated) = merkle_rows Hash2 0 (length (vtx b)) (map CTransaction_GetHash (vtx b), False)
      in (b\<lparr>vMerkleTree := tree\<rparr>, if tree = [] then uint256_null else last tree, mutated))"

function merkle_branch :: "'h list \<Rightarrow> nat \<Rightarrow> nat \<Rightarrow> nat \<Rightarrow> 'h list" where
  "merkle_branch tree j nSize nIndex =
     (if 1 < nSize
      then tree ! (j + min (nIndex XOR 1) (nSize - 1)) #
           merkle_branch tree (j + nSize) ((nSize + 1) div 2) (drop_bit 1 nIndex)
      else [])"
  by pat_completeness auto
termination by (relation "measure (\<lambda>(tree, j, nSize, nIndex). nSize)") auto

declare merkle_branch.simps [simp del]

definition GetMerkleBranch :: "CBlock \<Rightarrow> nat \<Rightarrow> bytes list" where
  "GetMerkleBranch b nIndex =
     (let b = (if vMerkleTree b = [] then fst (BuildMerkleTree b) else b)
      in merkle_branch (vMerkleTree b) 0 (length (vtx b)) nIndex)"

fun check_branch :: "('h \<Rightarrow> 'h \<Rightarrow> 'h) \<Rightarrow> 'h \<Rightarrow> 'h list \<Rightarrow> int \<Rightarrow> 'h" where
  "check_branch H hash [] nIndex = hash"
| "check_branch H hash (x # branch) nIndex =
     check_branch H (if nIndex AND 1 \<noteq> 0 then H x hash else H hash x) branch (drop_bit 1 nIndex)"

definition CheckMerkleBranch :: "bytes \<Rightarrow> bytes list \<Rightarrow> int \<Rightarrow> bytes" where
  "CheckMerkleBranch hash vMerkleBranch nIndex =
     (if nIndex = - 1 then uint256_null else check_branch Hash2 hash vMerkleBranch nIndex)"

section \<open>Encodings are unique\<close>

definition ok_CBlockHeader :: "CBlockHeader \<Rightarrow> bool" where
  "ok_CBlockHeader d \<longleftrightarrow> ok_int32 (bh_nVersion d) \<and> length (hashPrevBlock d) = 32 \<and> length (hashMerkleRoot d) = 32 \<and>
     length (hashFinalSaplingRoot d) = 32 \<and> length (bh_nNonce d) = 32 \<and> ok_bytes (bh_nSolution d)"

interpretation header: codec ser_CBlockHeader "unser_CBlockHeader" "ok_CBlockHeader"
proof
  fix d :: CBlockHeader and r :: bytes
  assume "ok_CBlockHeader d"
  then show "unser_CBlockHeader (ser_CBlockHeader d @ r) = Inr (d, r)"
    by (simp add: unser_CBlockHeader_def ser_CBlockHeader_def ok_CBlockHeader_def codec_roundtrip)
next
  fix s :: bytes and d :: CBlockHeader and r :: bytes
  assume "unser_CBlockHeader s = Inr (d, r)"
  then show "ok_CBlockHeader d \<and> s = ser_CBlockHeader d @ r"
    by (auto simp: unser_CBlockHeader_def ser_CBlockHeader_def ok_CBlockHeader_def codec_iff elim!: exec_bind_InrE)
qed

interpretation txs: codec "ser_vector ser_CTransaction" "unser_vector unser_CTransaction" "ok_vector ok_CTransaction"
  by (rule vector_of_codec) (rule tx.codec_axioms)

text \<open>A block as it is read: nothing cached.\<close>

definition ok_CBlock :: "CBlock \<Rightarrow> bool" where
  "ok_CBlock d \<longleftrightarrow> ok_CBlockHeader (blk_header d) \<and> ok_vector ok_CTransaction (vtx d) \<and>
     blk_payee d = [] \<and> vMerkleTree d = []"

interpretation block: codec ser_CBlock "unser_CBlock" "ok_CBlock"
proof
  fix d :: CBlock and r :: bytes
  assume "ok_CBlock d"
  then show "unser_CBlock (ser_CBlock d @ r) = Inr (d, r)"
    by (simp add: unser_CBlock_def ser_CBlock_def ok_CBlock_def header.roundtrip txs.roundtrip CBlock_new_def)
next
  fix s :: bytes and d :: CBlock and r :: bytes
  assume "unser_CBlock s = Inr (d, r)"
  then show "ok_CBlock d \<and> s = ser_CBlock d @ r"
    by (auto simp: unser_CBlock_def ser_CBlock_def ok_CBlock_def header.unser_iff txs.unser_iff CBlock_new_def elim!: exec_bind_InrE)
qed

interpretation hashes: codec "ser_vector ser_blob" "unser_vector (unser_blob 32)" "ok_vector (\<lambda>x. length x = 32)"
  by (rule vector_of_codec) (rule blob.codec_axioms)

lemma locator_codec:
  "unser_CBlockLocator s = Inr ((version, vHave), r) \<longleftrightarrow>
     ok_int32 version \<and> ok_vector (\<lambda>x. length x = 32) vHave \<and> s = ser_CBlockLocator version vHave @ r"
  unfolding unser_CBlockLocator_def ser_CBlockLocator_def
  by (auto simp: exec_bind_Inr_iff int32.unser_iff hashes.unser_iff int32.roundtrip hashes.roundtrip)

end
