(* ===== verification/Merkle.thy ===== *)
theory Merkle
  imports Block
begin

text \<open>
  What the Merkle tree code of src/src/primitives/block.cpp computes. The reference is the list of
  levels: the leaves, then the hashes of neighbouring pairs, the last one paired with itself when
  their number is odd. The loops of \<open>BuildMerkleTree\<close> lay out exactly these levels and set the
  mutation flag when a level ends with two equal hashes; a branch of \<open>GetMerkleBranch\<close> leads from
  its leaf to the root; a root binds the leaves, up to a collision of the hash function among the
  values that were actually hashed.
\<close>

section \<open>Levels\<close>

fun pair_up :: "('h \<Rightarrow> 'h \<Rightarrow> 'b) \<Rightarrow> 'h list \<Rightarrow> 'b list" where
  "pair_up H [] = []"
| "pair_up H [x] = [H x x]"
| "pair_up H (x # y # zs) = H x y # pair_up H zs"

lemma length_pair_up [simp]: "length (pair_up H xs) = (length xs + 1) div 2"
  by (induction H xs rule: pair_up.induct) auto

function merkle_levels :: "('h \<Rightarrow> 'h \<Rightarrow> 'h) \<Rightarrow> 'h list \<Rightarrow> 'h list list" where
  "merkle_levels H xs = (if length xs \<le> 1 then [xs] else xs # merkle_levels H (pair_up H xs))"
  by pat_completeness auto
termination by (relation "measure (\<lambda>(H, xs). length xs)") auto

declare merkle_levels.simps [simp del]

definition merkle_root :: "('h \<Rightarrow> 'h \<Rightarrow> 'h) \<Rightarrow> 'h list \<Rightarrow> 'h" where
  "merkle_root H xs = hd (last (merkle_levels H xs))"

definition ends_twice :: "'h list \<Rightarrow> bool" where
  "ends_twice xs \<longleftrightarrow> even (length xs) \<and> 2 \<le> length xs \<and> xs ! (length xs - 2) = xs ! (length xs - 1)"

lemma merkle_levels_small [simp]: "length xs \<le> 1 \<Longrightarrow> merkle_levels H xs = [xs]"
  by (simp add: merkle_levels.simps)

lemma merkle_levels_big: "1 < length xs \<Longrightarrow> merkle_levels H xs = xs # merkle_levels H (pair_up H xs)"
  by (simp add: merkle_levels.simps)

lemma merkle_levels_ne [simp]: "merkle_levels H xs \<noteq> []"
  by (simp add: merkle_levels.simps)

lemma merkle_root_big: "1 < length xs \<Longrightarrow> merkle_root H xs = merkle_root H (pair_up H xs)"
  by (simp add: merkle_root_def merkle_levels_big)

lemma merkle_levels_induct [case_names Small Big]:
  assumes "\<And>xs. length xs \<le> 1 \<Longrightarrow> P xs" "\<And>xs. 1 < length xs \<Longrightarrow> P (pair_up H xs) \<Longrightarrow> P xs"
  shows "P (xs :: 'h list)"
proof (induction "length xs" arbitrary: xs rule: less_induct)
  case less
  then show ?case using assms by (cases "length xs \<le> 1") auto
qed

lemma pair_up_Nil_iff [simp]: "pair_up H xs = [] \<longleftrightarrow> xs = []" "[] = pair_up H xs \<longleftrightarrow> xs = []"
  by (cases "(H, xs)" rule: pair_up.cases; auto)+

section \<open>The loops compute the levels\<close>

lemma pair_up_nth:
  "i < length xs \<Longrightarrow> pair_up H xs ! (i div 2) =
     (if odd i then H (xs ! (i - 1)) (xs ! i) else H (xs ! i) (xs ! min (i + 1) (length xs - 1)))"
proof (induction H xs arbitrary: i rule: pair_up.induct)
  case (3 H x y zs)
  consider "i = 0" | "i = 1" | k where "i = k + 2" by (cases i; cases "i - 1") auto
  then show ?case
  proof cases
    case 3
    then have k: "k < length zs" "i div 2 = Suc (k div 2)" using "3.prems" by auto
    show ?thesis
    proof (cases "odd k")
      case True
      then have "0 < k" by (cases k) auto
      then show ?thesis using "3.IH" [OF k(1)] k 3 True by (simp add: nth_Cons')
    next
      case False
      have "(x # y # zs) ! min (i + 1) (length (x # y # zs) - 1) = zs ! min (k + 1) (length zs - 1)"
        using k 3 by (cases "length zs") (auto simp: min_def)
      then show ?thesis using "3.IH" [OF k(1)] k 3 False by simp
    qed
  qed auto
qed auto

lemma pair_up_take:
  assumes "even i" "i < length xs"
  shows "pair_up H (take (i + 2) xs) = pair_up H (take i xs) @ [H (xs ! i) (xs ! min (i + 1) (length xs - 1))]"
proof (rule nth_equalityI)
  have "(min (i + 2) (length xs) + 1) div 2 = i div 2 + 1" using assms by (auto elim!: evenE)
  then show "length (pair_up H (take (i + 2) xs)) =
      length (pair_up H (take i xs) @ [H (xs ! i) (xs ! min (i + 1) (length xs - 1))])"
    using assms by (auto elim!: evenE)
next
  fix k assume "k < length (pair_up H (take (i + 2) xs))"
  then have k: "k \<le> i div 2" using assms by (auto elim!: evenE)
  show "pair_up H (take (i + 2) xs) ! k =
      (pair_up H (take i xs) @ [H (xs ! i) (xs ! min (i + 1) (length xs - 1))]) ! k"
  proof (cases "k = i div 2")
    case True
    have "pair_up H (take (i + 2) xs) ! (i div 2) = H (xs ! i) (xs ! min (i + 1) (length xs - 1))"
      using pair_up_nth [of i "take (i + 2) xs" H] assms by (auto simp: min_def)
    then show ?thesis using True assms by (auto simp: nth_append elim!: evenE)
  next
    case False
    then have less: "2 * k + 1 < i" using k assms by (auto elim!: evenE)
    then have a: "pair_up H (take (i + 2) xs) ! k = H (xs ! (2 * k)) (xs ! (2 * k + 1))"
      using pair_up_nth [of "2 * k" "take (i + 2) xs" H] assms by (auto simp: min_def)
    have b: "pair_up H (take i xs) ! k = H (xs ! (2 * k)) (xs ! (2 * k + 1))"
      using pair_up_nth [of "2 * k" "take i xs" H] assms less by (auto simp: min_def)
    have "k < length (pair_up H (take i xs))" using less assms by simp
    then show ?thesis using a b by (simp add: nth_append)
  qed
qed

lemma pair_up_repeat: "odd (length xs) \<Longrightarrow> pair_up H (xs @ [last xs]) = pair_up H xs"
proof (induction H xs rule: pair_up.induct)
  case (3 H x y zs)
  then have "zs \<noteq> []" by auto
  with 3 show ?case by simp
qed auto

lemma merkle_row_eq:
  assumes "even i" "j = length pre" "n = length xs"
  shows "merkle_row H j n i (pre @ xs @ pair_up H (take i xs), m) =
    (pre @ xs @ pair_up H xs, m \<or> (i < n \<and> ends_twice xs))"
  using assms
proof (induction "n - i" arbitrary: i m rule: less_induct)
  case less
  let ?t = "pre @ xs @ pair_up H (take i xs)"
  show ?case
  proof (cases "i < n")
    case False
    then show ?thesis using less.prems by (simp add: merkle_row.simps)
  next
    case True
    define i2 where "i2 = min (i + 1) (n - 1)"
    define dup where "dup = (i2 = i + 1 \<and> i2 + 1 = n \<and> ?t ! (j + i) = ?t ! (j + i2))"
    have i2: "i2 < n" using True by (simp add: i2_def)
    have at: "?t ! (j + k) = xs ! k" if "k < n" for k using that less.prems by (simp add: nth_append)
    have take2: "pair_up H (take (i + 2) xs) = pair_up H (take i xs) @ [H (xs ! i) (xs ! i2)]"
      using True less.prems(1,3) by (simp only: pair_up_take i2_def)
    have step: "merkle_row H j n i (?t, m) =
        merkle_row H j n (i + 2) (pre @ xs @ pair_up H (take (i + 2) xs), m \<or> dup)"
      by (subst merkle_row.simps) (simp only: Let_def i2_def [symmetric] dup_def at [OF True] at [OF i2]
          True if_True take2 append_assoc)
    have "dup \<or> (i + 2 < n \<and> ends_twice xs) \<longleftrightarrow> ends_twice xs"
    proof (cases "i + 2 < n")
      case True
      then show ?thesis by (auto simp: dup_def i2_def)
    next
      case False
      show ?thesis
      proof (cases "n = i + 2")
        case True
        then have "dup \<longleftrightarrow> xs ! i = xs ! (i + 1)" using at [of i] at [of "i + 1"] by (simp add: dup_def i2_def)
        then show ?thesis using True less.prems by (auto simp: ends_twice_def)
      next
        case False
        then have "n = i + 1" using \<open>i < n\<close> \<open>\<not> i + 2 < n\<close> by simp
        then show ?thesis using less.prems by (auto simp: dup_def i2_def ends_twice_def)
      qed
    qed
    then show ?thesis
      using True less.hyps [of "i + 2" "m \<or> dup"] less.prems unfolding step by auto
  qed
qed

lemma merkle_rows_eq:
  assumes "j = length pre" "n = length xs"
  shows "merkle_rows H j n (pre @ xs, m) =
    (pre @ concat (merkle_levels H xs), m \<or> (\<exists>l \<in> set (merkle_levels H xs). ends_twice l))"
  using assms
proof (induction xs arbitrary: pre j n m rule: merkle_levels_induct [where H = H])
  case (Small xs)
  then show ?case by (simp add: merkle_rows.simps ends_twice_def)
next
  case (Big xs)
  have "merkle_row H j n 0 (pre @ xs, m) = ((pre @ xs) @ pair_up H xs, m \<or> ends_twice xs)"
    using merkle_row_eq [of 0 j pre n xs H m] Big by (auto simp: ends_twice_def)
  then have "merkle_rows H j n (pre @ xs, m) =
      merkle_rows H (j + n) ((n + 1) div 2) ((pre @ xs) @ pair_up H xs, m \<or> ends_twice xs)"
    using Big by (subst merkle_rows.simps) simp
  also have "\<dots> = ((pre @ xs) @ concat (merkle_levels H (pair_up H xs)),
      (m \<or> ends_twice xs) \<or> (\<exists>l \<in> set (merkle_levels H (pair_up H xs)). ends_twice l))"
    using Big by (intro Big.IH) auto
  finally show ?case using Big.hyps by (auto simp: merkle_levels_big)
qed

lemma last_concat_levels: "xs \<noteq> [] \<Longrightarrow> last (concat (merkle_levels H xs)) = merkle_root H xs \<and> concat (merkle_levels H xs) \<noteq> []"
proof (induction xs rule: merkle_levels_induct [where H = H])
  case (Small xs)
  then show ?case by (cases xs) (auto simp: merkle_root_def)
next
  case (Big xs)
  then have IH: "last (concat (merkle_levels H (pair_up H xs))) = merkle_root H (pair_up H xs)"
    "concat (merkle_levels H (pair_up H xs)) \<noteq> []" by auto
  have "concat (merkle_levels H xs) = xs @ concat (merkle_levels H (pair_up H xs))"
    using Big.hyps by (simp add: merkle_levels_big)
  then show ?case using IH Big.hyps by (simp only: last_append merkle_root_big) simp
qed

section \<open>Branches\<close>

lemma xor_1: "i XOR 1 = (if odd i then i - 1 else i + 1)" for i :: nat
  using xor_one_eq [of i] by (auto simp: of_bool_def)

lemma check_branch_levels:
  assumes "i < length xs" "j = length pre"
  shows "check_branch H (xs ! i) (merkle_branch (pre @ concat (merkle_levels H xs) @ post) j (length xs) i) (int i) =
    merkle_root H xs"
  using assms
proof (induction xs arbitrary: i pre j rule: merkle_levels_induct [where H = H])
  case (Small xs)
  then show ?case by (cases xs) (auto simp: merkle_branch.simps merkle_root_def)
next
  case (Big xs)
  let ?n = "length xs"
  let ?tree = "pre @ concat (merkle_levels H xs) @ post"
  let ?s = "min (i XOR 1) (?n - 1)"
  have s: "?s < ?n" using Big.prems by auto
  have at: "?tree ! (j + ?s) = xs ! ?s" using s Big by (simp add: merkle_levels_big nth_append)
  have tree: "?tree = (pre @ xs) @ concat (merkle_levels H (pair_up H xs)) @ post"
    using Big.hyps by (simp add: merkle_levels_big)
  have up: "(if int i AND 1 \<noteq> 0 then H (xs ! ?s) (xs ! i) else H (xs ! i) (xs ! ?s)) = pair_up H xs ! (i div 2)"
    using pair_up_nth [OF Big.prems(1), of H] Big.prems
    by (auto simp: xor_1 [unfolded One_nat_def] and_one_eq mod_2_eq_odd min_def split: if_splits)
  have half: "drop_bit 1 (int i) = int (i div 2)" "drop_bit 1 i = i div 2"
    by (simp_all add: drop_bit_eq_div zdiv_int)
  have b: "merkle_branch ?tree j ?n i = xs ! ?s # merkle_branch ?tree (j + ?n) ((?n + 1) div 2) (i div 2)"
    using Big.hyps at half(2) by (subst merkle_branch.simps) simp
  have "check_branch H (xs ! i) (merkle_branch ?tree j ?n i) (int i) =
      check_branch H (pair_up H xs ! (i div 2)) (merkle_branch ?tree (j + ?n) ((?n + 1) div 2) (i div 2)) (int (i div 2))"
    unfolding b check_branch.simps half(1) up ..
  also have "\<dots> = merkle_root H (pair_up H xs)"
    unfolding tree using Big.IH [of "i div 2" "j + ?n" "pre @ xs"] Big.prems by auto
  finally show ?case using Big.hyps by (simp add: merkle_root_big)
qed

section \<open>What a root binds\<close>

text \<open>The pairs a tree hashes, and a collision: two different hashed pairs with one hash.\<close>

definition hashed_pairs :: "('h \<Rightarrow> 'h \<Rightarrow> 'h) \<Rightarrow> 'h list \<Rightarrow> ('h \<times> 'h) set" where
  "hashed_pairs H xs = (\<Union>l \<in> set (butlast (merkle_levels H xs)). set (pair_up Pair l))"

definition collision :: "('h \<Rightarrow> 'h \<Rightarrow> 'h) \<Rightarrow> ('h \<times> 'h) set \<Rightarrow> bool" where
  "collision H P \<longleftrightarrow> \<not> inj_on (\<lambda>(a, b). H a b) P"

lemma hashed_pairs_big:
  "1 < length xs \<Longrightarrow> hashed_pairs H xs = set (pair_up Pair xs) \<union> hashed_pairs H (pair_up H xs)"
  by (simp add: hashed_pairs_def merkle_levels_big)

lemma pair_up_map: "pair_up H xs = map (\<lambda>(a, b). H a b) (pair_up Pair xs)"
  by (induction H xs rule: pair_up.induct) auto

lemma ends_twice_Cons2: "ends_twice zs \<Longrightarrow> ends_twice (x # y # zs)"
proof -
  assume e: "ends_twice zs"
  then obtain k where "length zs = 2 + k" unfolding ends_twice_def using le_Suc_ex by blast
  with e show ?thesis by (simp add: ends_twice_def)
qed

lemma pair_up_Pair_eq:
  "pair_up Pair xs = pair_up Pair ys \<Longrightarrow> xs = ys \<or> ends_twice xs \<or> ends_twice ys"
proof (induction xs arbitrary: ys rule: induct_list012)
  case 1
  then show ?case by simp
next
  case (2 x)
  then show ?case by (cases ys; cases "tl ys") (auto simp: ends_twice_def)
next
  case (3 x y zs)
  consider "ys = []" | a where "ys = [a]" | a b cs where "ys = a # b # cs"
    by (cases ys; cases "tl ys") auto
  then show ?case
  proof cases
    case 1
    then show ?thesis using "3.prems" by simp
  next
    case 2
    then show ?thesis using "3.prems" by (simp add: ends_twice_def)
  next
    case (3 a b cs)
    then have "x = a" "y = b" "pair_up Pair zs = pair_up Pair cs" using "3.prems" by simp_all
    then show ?thesis using "3.IH"(1) [of cs] 3 by (auto intro: ends_twice_Cons2)
  qed
qed

lemma pair_up_inj:
  assumes "pair_up H xs = pair_up H ys" "\<not> collision H P"
    and "set (pair_up Pair xs) \<union> set (pair_up Pair ys) \<subseteq> P"
  shows "pair_up Pair xs = pair_up Pair ys"
proof -
  have "inj_on (\<lambda>(a, b). H a b) (set (pair_up Pair xs) \<union> set (pair_up Pair ys))"
    using assms(2) inj_on_subset [OF _ assms(3)] by (simp add: collision_def)
  then show ?thesis using assms(1) inj_on_map_eq_map unfolding pair_up_map [of H] by blast
qed

lemma merkle_root_binds:
  assumes "merkle_root H xs = merkle_root H ys" "length (merkle_levels H xs) = length (merkle_levels H ys)"
    and "xs \<noteq> []" "ys \<noteq> []"
    and "\<not> (\<exists>l \<in> set (merkle_levels H xs). ends_twice l)" "\<not> (\<exists>l \<in> set (merkle_levels H ys). ends_twice l)"
    and "\<not> collision H P" "hashed_pairs H xs \<union> hashed_pairs H ys \<subseteq> P"
  shows "xs = ys"
  using assms
proof (induction xs arbitrary: ys rule: merkle_levels_induct [where H = H])
  case (Small xs)
  have "length ys \<le> 1"
    using Small.prems(2) Small.hyps by (cases "length ys \<le> 1") (simp_all add: merkle_levels_big)
  then show ?case using Small.prems(1,3,4) Small.hyps by (cases xs; cases ys) (simp_all add: merkle_root_def)
next
  case (Big xs)
  have y: "1 < length ys"
    using Big.prems(2) Big.hyps by (cases "length ys \<le> 1") (simp_all add: merkle_levels_big)
  note big = Big.hyps(1) y
  have "pair_up H xs = pair_up H ys"
  proof (rule Big.IH)
    show "merkle_root H (pair_up H xs) = merkle_root H (pair_up H ys)"
      using Big.prems(1) big by (simp add: merkle_root_big)
    show "length (merkle_levels H (pair_up H xs)) = length (merkle_levels H (pair_up H ys))"
      using Big.prems(2) big by (simp add: merkle_levels_big)
    show "hashed_pairs H (pair_up H xs) \<union> hashed_pairs H (pair_up H ys) \<subseteq> P"
      using Big.prems(8) big by (simp add: hashed_pairs_big)
  qed (use Big.prems(3-7) big in \<open>simp_all add: merkle_levels_big\<close>)
  then have "pair_up Pair xs = pair_up Pair ys"
    using Big.prems(7,8) big by (intro pair_up_inj [of H _ _ P]) (simp_all add: hashed_pairs_big)
  then show ?case using pair_up_Pair_eq [of xs ys] Big.prems(5,6) big by (simp add: merkle_levels_big)
qed

section \<open>Branches cannot be forged\<close>

fun branch_pairs :: "('h \<Rightarrow> 'h \<Rightarrow> 'h) \<Rightarrow> 'h \<Rightarrow> 'h list \<Rightarrow> int \<Rightarrow> ('h \<times> 'h) set" where
  "branch_pairs H h [] i = {}"
| "branch_pairs H h (b # br) i =
     (let p = if i AND 1 \<noteq> 0 then (b, h) else (h, b)
      in insert p (branch_pairs H (H (fst p) (snd p)) br (drop_bit 1 i)))"

lemma check_branch_sound:
  assumes "check_branch H h br (int i) = merkle_root H xs" "length br + 1 = length (merkle_levels H xs)"
    and "i < length xs" "\<not> collision H P" "hashed_pairs H xs \<union> branch_pairs H h br (int i) \<subseteq> P"
  shows "h = xs ! i"
  using assms
proof (induction xs arbitrary: i h br rule: merkle_levels_induct [where H = H])
  case (Small xs)
  then show ?case by (cases xs) (auto simp: merkle_root_def)
next
  case (Big xs)
  obtain b bs where br: "br = b # bs" using Big.prems(2) Big.hyps by (cases br) (simp_all add: merkle_levels_big)
  define p where "p = (if int i AND 1 \<noteq> 0 then (b, h) else (h, b))"
  have half: "drop_bit 1 (int i) = int (i div 2)" by (simp add: drop_bit_eq_div zdiv_int)
  have chk: "check_branch H h br (int i) = check_branch H (H (fst p) (snd p)) bs (int (i div 2))"
    unfolding br check_branch.simps half by (simp add: p_def)
  have bp: "branch_pairs H h br (int i) = insert p (branch_pairs H (H (fst p) (snd p)) bs (int (i div 2)))"
    unfolding br branch_pairs.simps half Let_def p_def ..
  have "H (fst p) (snd p) = pair_up H xs ! (i div 2)"
  proof (rule Big.IH)
    show "check_branch H (H (fst p) (snd p)) bs (int (i div 2)) = merkle_root H (pair_up H xs)"
      using Big.prems(1) Big.hyps chk by (simp add: merkle_root_big)
    show "hashed_pairs H (pair_up H xs) \<union> branch_pairs H (H (fst p) (snd p)) bs (int (i div 2)) \<subseteq> P"
      using Big.prems(5) Big.hyps bp by (simp add: hashed_pairs_big)
  qed (use Big.prems(2-4) Big.hyps br in \<open>simp_all add: merkle_levels_big, linarith?\<close>)
  moreover have i2: "i div 2 < length (pair_up Pair xs)" using Big.prems by simp
  ultimately have "H (fst p) (snd p) = (\<lambda>(a, b). H a b) (pair_up Pair xs ! (i div 2))"
    unfolding pair_up_map [of H] by simp
  moreover have "pair_up Pair xs ! (i div 2) \<in> P" "p \<in> P"
    using subsetD [OF Big.prems(5)] nth_mem [OF i2] Big.hyps bp by (simp_all add: hashed_pairs_big)
  ultimately have "p = pair_up Pair xs ! (i div 2)"
    using Big.prems(4) unfolding collision_def inj_on_def by (metis case_prod_beta)
  then show ?case using pair_up_nth [OF Big.prems(3), of Pair]
    by (auto simp: p_def and_one_eq mod_2_eq_odd split: if_splits)
qed

text \<open>The level at height \<open>k\<close> is the bottom of a tree of its own, with the same root.\<close>

lemma level_tree:
  assumes "k < length (merkle_levels H xs)"
  shows "length (merkle_levels H (merkle_levels H xs ! k)) = length (merkle_levels H xs) - k \<and>
    merkle_root H (merkle_levels H xs ! k) = merkle_root H xs \<and> hashed_pairs H (merkle_levels H xs ! k) \<subseteq> hashed_pairs H xs"
  using assms
proof (induction xs arbitrary: k rule: merkle_levels_induct [where H = H])
  case (Small xs)
  then show ?case by simp
next
  case (Big xs)
  show ?case
  proof (cases k)
    case 0
    then show ?thesis using Big.hyps by (simp add: merkle_levels_big)
  next
    case (Suc j)
    then have "j < length (merkle_levels H (pair_up H xs))" using Big.prems Big.hyps by (simp add: merkle_levels_big)
    from Big.IH [OF this] show ?thesis
      using Suc Big.hyps by (auto simp: merkle_levels_big merkle_root_big hashed_pairs_big)
  qed
qed

lemma check_branch_node:
  assumes "check_branch H h br (int i) = merkle_root H xs" "length br + k + 1 = length (merkle_levels H xs)"
    and "i < length (merkle_levels H xs ! k)" "\<not> collision H (hashed_pairs H xs \<union> branch_pairs H h br (int i))"
  shows "h = merkle_levels H xs ! k ! i"
proof (rule check_branch_sound [OF _ _ assms(3,4)])
  have "k < length (merkle_levels H xs)" using assms(2) by linarith
  note l = level_tree [OF this]
  show "check_branch H h br (int i) = merkle_root H (merkle_levels H xs ! k)" using l assms(1) by simp
  show "length br + 1 = length (merkle_levels H (merkle_levels H xs ! k))" using l assms(2) by simp
  show "hashed_pairs H (merkle_levels H xs ! k) \<union> branch_pairs H h br (int i) \<subseteq> hashed_pairs H xs \<union> branch_pairs H h br (int i)"
    using l by blast
qed

section \<open>Blocks\<close>

abbreviation tx_hashes :: "CBlock \<Rightarrow> bytes list" where
  "tx_hashes b \<equiv> map CTransaction_GetHash (vtx b)"

lemma BuildMerkleTree_eq:
  assumes "vtx b \<noteq> []"
  shows "BuildMerkleTree b =
    (b\<lparr>vMerkleTree := concat (merkle_levels Hash2 (tx_hashes b))\<rparr>, merkle_root Hash2 (tx_hashes b),
     \<exists>l \<in> set (merkle_levels Hash2 (tx_hashes b)). ends_twice l)"
proof -
  have "last (concat (merkle_levels Hash2 (tx_hashes b))) = merkle_root Hash2 (tx_hashes b)"
    "concat (merkle_levels Hash2 (tx_hashes b)) \<noteq> []"
    using last_concat_levels [of "tx_hashes b" Hash2] assms by auto
  then show ?thesis
    using merkle_rows_eq [of 0 "[]" "length (vtx b)" "tx_hashes b" Hash2 False]
    unfolding BuildMerkleTree_def by (simp del: concat_eq_Nil_conv)
qed

text \<open>C24: The Merkle branch of a transaction leads from its hash to the root of its block. For every block
  and every index of one of its transactions, whether or not the tree was built before, checking the
  branch that \<open>GetMerkleBranch\<close> returns for that index against the transaction's hash gives the very
  root \<open>BuildMerkleTree\<close> computes.
\<close>

theorem merkle_branch_complete:
  assumes "nIndex < length (vtx b)" "vMerkleTree b = [] \<or> vMerkleTree b = vMerkleTree (fst (BuildMerkleTree b))"
  shows "CheckMerkleBranch (CTransaction_GetHash (vtx b ! nIndex)) (GetMerkleBranch b nIndex) (int nIndex) =
    fst (snd (BuildMerkleTree b))"
proof -
  have ne: "vtx b \<noteq> []" using assms by auto
  have "GetMerkleBranch b nIndex =
      merkle_branch (concat (merkle_levels Hash2 (tx_hashes b))) 0 (length (tx_hashes b)) nIndex"
    using assms(2) BuildMerkleTree_eq [OF ne] by (auto simp: GetMerkleBranch_def)
  then show ?thesis
    using check_branch_levels [of nIndex "tx_hashes b" 0 "[]" Hash2 "[]"] assms BuildMerkleTree_eq [OF ne]
    by (simp add: CheckMerkleBranch_def)
qed

text \<open>C25: A Merkle branch cannot be forged. \<open>CheckMerkleBranch\<close> does not look at the length of the branch. If a
  hash and a branch that is \<open>k\<close> hashes shorter than the block's tree is high check to the root of a
  block, at the index of a node of level \<open>k\<close> (level 0 is the row of the transactions), then the hash is
  that node, or else two different pairs among those hashed for the tree and for the branch have the same
  double SHA-256. So a branch of full length proves the hash of the transaction at the index.
\<close>

theorem merkle_branch_sound:
  assumes "vtx b \<noteq> []" "CheckMerkleBranch hash branch (int nIndex) = fst (snd (BuildMerkleTree b))"
    and "length branch + k + 1 = length (merkle_levels Hash2 (tx_hashes b))"
    and "nIndex < length (merkle_levels Hash2 (tx_hashes b) ! k)"
  shows "(hash = merkle_levels Hash2 (tx_hashes b) ! k ! nIndex \<and>
      (k = 0 \<longrightarrow> nIndex < length (vtx b) \<and> hash = CTransaction_GetHash (vtx b ! nIndex))) \<or>
    collision Hash2 (hashed_pairs Hash2 (tx_hashes b) \<union> branch_pairs Hash2 hash branch (int nIndex))"
proof -
  have "hash = merkle_levels Hash2 (tx_hashes b) ! k ! nIndex \<or>
    collision Hash2 (hashed_pairs Hash2 (tx_hashes b) \<union> branch_pairs Hash2 hash branch (int nIndex))"
    using check_branch_node [OF _ assms(3,4), of hash] assms(1,2) BuildMerkleTree_eq [of b]
    by (auto simp: CheckMerkleBranch_def)
  moreover have "merkle_levels Hash2 (tx_hashes b) ! 0 = tx_hashes b"
    by (cases "length (tx_hashes b) \<le> 1") (simp_all add: merkle_levels.simps)
  ultimately show ?thesis using assms(4) by auto
qed

text \<open>C14: The Merkle root of a block that is not flagged as mutated binds its list of transactions. Two
  non-empty blocks with trees of the same height, the same root and no mutation flag have the same
  transaction hashes in the same order, or else two different pairs among those hashed for the two
  trees have the same double SHA-256.
\<close>

theorem merkle_root_unique:
  assumes "vtx b \<noteq> []" "vtx c \<noteq> []"
    and "snd (BuildMerkleTree b) = (root, False)" "snd (BuildMerkleTree c) = (root, False)"
    and "length (merkle_levels Hash2 (tx_hashes b)) = length (merkle_levels Hash2 (tx_hashes c))"
  shows "tx_hashes b = tx_hashes c \<or>
    collision Hash2 (hashed_pairs Hash2 (tx_hashes b) \<union> hashed_pairs Hash2 (tx_hashes c))"
  using merkle_root_binds [of Hash2 "tx_hashes b" "tx_hashes c", OF _ _ _ _ _ _ _ subset_refl] assms
  by (auto simp: BuildMerkleTree_eq)

text \<open>Repeating the last transactions of a block keeps its root but is flagged. A block with an odd
  number of at least three transactions and the block with its last transaction repeated have the same
  Merkle root, and \<open>BuildMerkleTree\<close> reports the second as mutated.
\<close>

theorem merkle_repeat_flagged:
  assumes "odd (length (vtx b))" "1 < length (vtx b)" "vtx c = vtx b @ [last (vtx b)]"
  shows "fst (snd (BuildMerkleTree c)) = fst (snd (BuildMerkleTree b)) \<and> snd (snd (BuildMerkleTree c))"
proof -
  let ?xs = "tx_hashes b"
  have ne: "vtx b \<noteq> []" "vtx c \<noteq> []" using assms by auto
  then have c: "tx_hashes c = ?xs @ [last ?xs]" using assms(3) by (simp add: last_map)
  have "pair_up Hash2 (?xs @ [last ?xs]) = pair_up Hash2 ?xs" using assms(1) by (intro pair_up_repeat) simp
  then have "merkle_root Hash2 (tx_hashes c) = merkle_root Hash2 ?xs" 
    using c ne assms merkle_root_big [of "tx_hashes c" Hash2] merkle_root_big [of ?xs Hash2] by simp
  moreover have "ends_twice (tx_hashes c)"
    using assms ne unfolding c by (auto simp: ends_twice_def nth_append last_conv_nth)
  ultimately show ?thesis
    using BuildMerkleTree_eq ne assms by (simp add: merkle_levels_big)
qed

section \<open>Witnesses\<close>

text \<open>Blocks of one, two and three transactions.\<close>

definition sample_tx :: "nat \<Rightarrow> CTransaction" where
  "sample_tx n = CTransaction_new\<lparr>nLockTime := of_nat n\<rparr>"

definition sample_block :: "nat \<Rightarrow> CBlock" where
  "sample_block n = (CBlock_new CBlockHeader_null)\<lparr>vtx := map sample_tx [0..<n]\<rparr>"

theorem merkle_branch_complete_witness:
  "2 < length (vtx (sample_block 3)) \<and> vMerkleTree (sample_block 3) = [] \<and>
   CheckMerkleBranch (CTransaction_GetHash (vtx (sample_block 3) ! 2)) (GetMerkleBranch (sample_block 3) 2) 2 =
     fst (snd (BuildMerkleTree (sample_block 3)))"
  using merkle_branch_complete [of 2 "sample_block 3"] by (simp add: sample_block_def CBlock_new_def)

theorem merkle_branch_sound_witness:
  "CheckMerkleBranch (CTransaction_GetHash (sample_tx 1)) [CTransaction_GetHash (sample_tx 0)] 1 =
     fst (snd (BuildMerkleTree (sample_block 2))) \<and>
   length (merkle_levels Hash2 (tx_hashes (sample_block 2))) = 2 \<and>
   (CTransaction_GetHash (sample_tx 1) = CTransaction_GetHash (vtx (sample_block 2) ! 1) \<or>
    collision Hash2 (hashed_pairs Hash2 (tx_hashes (sample_block 2)) \<union>
      branch_pairs Hash2 (CTransaction_GetHash (sample_tx 1)) [CTransaction_GetHash (sample_tx 0)] 1))"
proof -
  have v: "vtx (sample_block 2) = [sample_tx 0, sample_tx 1]"
    by (simp add: sample_block_def upt_conv_Cons numeral_2_eq_2)
  then have root: "CheckMerkleBranch (CTransaction_GetHash (sample_tx 1)) [CTransaction_GetHash (sample_tx 0)] (int 1) =
      fst (snd (BuildMerkleTree (sample_block 2)))"
    by (simp add: BuildMerkleTree_eq merkle_root_def merkle_levels_big CheckMerkleBranch_def)
  have levels: "length (merkle_levels Hash2 (tx_hashes (sample_block 2))) = 2"
    "merkle_levels Hash2 (tx_hashes (sample_block 2)) ! 0 = tx_hashes (sample_block 2)"
    using v by (simp_all add: merkle_levels_big)
  show ?thesis
    using merkle_branch_sound [OF _ root, of 0] root levels v by auto
qed

theorem merkle_root_unique_witness:
  "snd (BuildMerkleTree (sample_block 1)) = (CTransaction_GetHash (sample_tx 0), False) \<and>
   (tx_hashes (sample_block 1) = tx_hashes ((CBlock_new CBlockHeader_null)\<lparr>vtx := [sample_tx 0], blk_payee := [1]\<rparr>) \<or>
    collision Hash2 (hashed_pairs Hash2 (tx_hashes (sample_block 1)) \<union>
      hashed_pairs Hash2 (tx_hashes ((CBlock_new CBlockHeader_null)\<lparr>vtx := [sample_tx 0], blk_payee := [1]\<rparr>))))"
proof -
  have v: "vtx (sample_block 1) = [sample_tx 0]" by (simp add: sample_block_def)
  have r: "snd (BuildMerkleTree b) = (CTransaction_GetHash (sample_tx 0), False)" if "vtx b = [sample_tx 0]" for b
    using that by (simp add: BuildMerkleTree_eq merkle_root_def ends_twice_def)
  show ?thesis
    using merkle_root_unique [OF _ _ r [OF v] r] r [OF v] v by simp
qed

theorem merkle_repeat_flagged_witness:
  "length (vtx (sample_block 3)) = 3 \<and>
   fst (snd (BuildMerkleTree ((CBlock_new CBlockHeader_null)\<lparr>vtx := vtx (sample_block 3) @ [last (vtx (sample_block 3))]\<rparr>))) =
     fst (snd (BuildMerkleTree (sample_block 3))) \<and>
   snd (snd (BuildMerkleTree ((CBlock_new CBlockHeader_null)\<lparr>vtx := vtx (sample_block 3) @ [last (vtx (sample_block 3))]\<rparr>)))"
proof -
  have "length (vtx (sample_block 3)) = 3" by (simp add: sample_block_def)
  then show ?thesis
    using merkle_repeat_flagged [of "sample_block 3"
        "(CBlock_new CBlockHeader_null)\<lparr>vtx := vtx (sample_block 3) @ [last (vtx (sample_block 3))]\<rparr>"] by simp
qed

end
