(* ===== verification/Rewards.thy ===== *)
theory Rewards
  imports Validation
begin

text \<open>
  The block subsidy and its distribution: \<open>GetBlockSubsidy\<close>, \<open>GetMasternodePayment\<close>,
  \<open>GetDevelopersPayment\<close> and \<open>GetPremineAmountAtHeight\<close> of src/src/main.cpp, the reward rules of
  \<open>ContextualCheckBlock\<close> in the same file, and the two functions that fill the coinbase of a new
  block: \<open>CMasternodePayments::FillBlockPayee\<close> of src/src/masternode-payments.cpp and
  \<open>CBudgetManager::FillBlockPayee\<close> of src/src/masternode-budget.cpp. \<open>isMain\<close> is the test that the
  network of the command line is the main network; \<open>cp\<close> is \<open>Params()\<close>; the payee comes from the
  masternode votes and is a parameter. The comparisons and conversions with the factor 7.5 use
  double precision in the source; the products stay below \<open>2^45\<close>, where they agree with the exact
  arithmetic of the model.
\<close>

section \<open>Subsidy and shares\<close>

definition PREMINE_GEMLINK :: int where
  "PREMINE_GEMLINK = 10000000 * COIN"

definition GetPremineAmountAtHeight :: "ConsensusParams \<Rightarrow> int \<Rightarrow> int" where
  "GetPremineAmountAtHeight cur nHeight =
     (if nHeight = ActivationHeight cur UPGRADE_MORAG then PREMINE_GEMLINK else 0)"

text \<open>\<open>cur\<close> is \<open>Params().GetConsensus()\<close>, \<open>params\<close> the argument of the function.\<close>

definition GetBlockSubsidy :: "bool \<Rightarrow> ConsensusParams \<Rightarrow> int \<Rightarrow> ConsensusParams \<Rightarrow> ('e, int) exec" where
  "GetBlockSubsidy isMain cur nHeight params =
     exec_bind (if isMain then Inr False
                else exec_bind (NetworkUpgradeActive nHeight params UPGRADE_MORAG) (\<lambda>active. Inr (\<not> active))) (\<lambda>early.
     if early then Inr (20 * COIN)
     else if nHeight < cdiv (nSubsidySlowStartInterval params) 2
     then Inr (cdiv (20 * COIN) (nSubsidySlowStartInterval params) * nHeight)
     else if nHeight < nSubsidySlowStartInterval params
     then Inr (cdiv (20 * COIN) (nSubsidySlowStartInterval params) * (nHeight + 1))
     else
       exec_bind (exec_assert (SubsidySlowStartShift params < nHeight)) (\<lambda>_.
       exec_bind (if isMain then Inr False else NetworkUpgradeActive nHeight params UPGRADE_MORAG) (\<lambda>testMorag.
       exec_bind (NetworkUpgradeActive nHeight params UPGRADE_MORAG) (\<lambda>morag.
       let interval = (if testMorag then 3500 else nSubsidyHalvingInterval params);
           nSubsidy = (if morag
             then 30 * COIN + (if nHeight = ActivationHeight cur UPGRADE_MORAG
                               then GetPremineAmountAtHeight cur nHeight else 0)
             else 20 * COIN);
           halvings = (if morag then cdiv (max 0 (nHeight - ActivationHeight params UPGRADE_MORAG)) interval
                       else cdiv (nHeight - SubsidySlowStartShift params) interval)
       in if 64 \<le> halvings then Inr 0 else Inr (drop_bit (nat halvings) nSubsidy)))))"

definition GetMasternodePayment :: "ConsensusParams \<Rightarrow> int \<Rightarrow> int \<Rightarrow> int" where
  "GetMasternodePayment cur nHeight blockValue =
     (let start = nMasternodePaymentsStartBlock cur;
          period = nMasternodePaymentsIncreasePeriod cur
      in if ActivationHeight cur UPGRADE_KNOWHERE \<le> nHeight
         then if nHeight = ActivationHeight cur UPGRADE_MORAG
              then cdiv ((blockValue - GetPremineAmountAtHeight cur nHeight) * 50) 100
              else cdiv (blockValue * 50) 100
         else if ActivationHeight cur UPGRADE_DIFA \<le> nHeight then cdiv (925 * COIN) 100
         else if ActivationHeight cur UPGRADE_OVERWINTER < nHeight then 9 * COIN
         else if start + period * 3 < nHeight then 10 * COIN
         else if start + period * 2 < nHeight then 9 * COIN
         else if start + period * 1 < nHeight then 8 * COIN
         else if start < nHeight then 7 * COIN
         else cdiv (blockValue * 35) 100)"

definition GetDevelopersPayment :: "ConsensusParams \<Rightarrow> int \<Rightarrow> int \<Rightarrow> int" where
  "GetDevelopersPayment cur nHeight blockValue =
     (if nHeight = ActivationHeight cur UPGRADE_MORAG
      then cdiv ((blockValue - GetPremineAmountAtHeight cur nHeight) * 20) 100
      else cdiv (blockValue * 20) 100)"

section \<open>The reward rules of a block\<close>

text \<open>The loops over the outputs of the coinbase, which stop at the first match.\<close>

fun any_output :: "(CTxOut \<Rightarrow> ('e, bool) exec) \<Rightarrow> CTxOut list \<Rightarrow> ('e, bool) exec" where
  "any_output P [] = Inr False"
| "any_output P (x # xs) = exec_bind (P x) (\<lambda>found. if found then Inr True else any_output P xs)"

definition output_pays ::
    "('e, script) exec \<Rightarrow> (CTxOut \<Rightarrow> ('e, bool) exec) \<Rightarrow> CTxOut \<Rightarrow> ('e, bool) exec" where
  "output_pays script value_ok x =
     exec_bind script (\<lambda>s. if scriptPubKey x = s then value_ok x else Inr False)"

definition founders_due :: "ConsensusParams \<Rightarrow> int \<Rightarrow> bool" where
  "founders_due p h \<longleftrightarrow> 0 < h \<and> h \<le> GetLastFoundersRewardBlockHeight p"

definition CheckFoundersReward ::
    "bool \<Rightarrow> (string \<Rightarrow> CTxDestination) \<Rightarrow> CChainParams \<Rightarrow> int \<Rightarrow> CTxOut list \<Rightarrow> unit checked" where
  "CheckFoundersReward isMain decode cp nHeight outs =
     (let p = consensus cp in
      exec_bind (if founders_due p nHeight
                 then exec_bind (NetworkUpgradeActive nHeight p UPGRADE_MORAG) (\<lambda>morag. Inr (\<not> morag))
                 else Inr False) (\<lambda>due.
      if due then
        exec_bind (any_output (output_pays (GetFoundersRewardScriptAtHeight decode cp nHeight) (\<lambda>x.
          exec_bind (GetBlockSubsidy isMain p nHeight p) (\<lambda>subsidy. Inr (
            if nHeight < ActivationHeight p UPGRADE_OVERWINTER then nValue x = cdiv subsidy 20
            else if nHeight < ActivationHeight p UPGRADE_KNOWHERE then nValue x * 1000 = subsidy * 75
            else nValue x = cdiv (subsidy * 15) 100)))) outs) (\<lambda>found.
        reject_if (\<not> found) (DoS 100 REJECT_INVALID ''cb-no-founders-reward'' False))
      else Inr ()))"

definition CheckTreasuryReward ::
    "bool \<Rightarrow> (string \<Rightarrow> CTxDestination) \<Rightarrow> CChainParams \<Rightarrow> int \<Rightarrow> CTxOut list \<Rightarrow> unit checked" where
  "CheckTreasuryReward isMain decode cp nHeight outs =
     (let p = consensus cp in
      if ActivationHeight p UPGRADE_KNOWHERE < nHeight \<and> nHeight \<le> GetLastTreasuryRewardBlockHeight p then
        exec_bind (any_output (output_pays (GetTreasuryRewardScriptAtHeight decode cp nHeight) (\<lambda>x.
          exec_bind (NetworkUpgradeActive nHeight p UPGRADE_ATLANTIS) (\<lambda>atlantis.
          if \<not> atlantis then
            exec_bind (GetBlockSubsidy isMain p nHeight p) (\<lambda>subsidy. Inr (nValue x = cdiv (subsidy * 5) 100))
          else
            exec_bind (NetworkUpgradeActive nHeight p UPGRADE_MORAG) (\<lambda>morag.
            if \<not> morag then
              exec_bind (GetBlockSubsidy isMain p nHeight p) (\<lambda>subsidy. Inr (nValue x = cdiv (subsidy * 10) 100))
            else Inr False)))) outs) (\<lambda>found.
        reject_if (\<not> found) (Invalid REJECT_INVALID ''cb-no-treasury-reward''))
      else Inr ())"

definition CheckDevelopersReward ::
    "bool \<Rightarrow> (string \<Rightarrow> CTxDestination) \<Rightarrow> CChainParams \<Rightarrow> int \<Rightarrow> CTxOut list \<Rightarrow> unit checked" where
  "CheckDevelopersReward isMain decode cp nHeight outs =
     (let p = consensus cp in
      exec_bind (NetworkUpgradeActive nHeight p UPGRADE_MORAG) (\<lambda>morag.
      if morag \<and> nHeight \<le> GetLastDevelopersRewardBlockHeight p then
        exec_bind (any_output (output_pays (GetDevelopersRewardScriptAtHeight decode cp nHeight) (\<lambda>x.
          exec_bind (GetBlockSubsidy isMain p nHeight p) (\<lambda>subsidy.
          Inr (nValue x = GetDevelopersPayment p nHeight subsidy)))) outs) (\<lambda>found.
        reject_if (\<not> found) (Invalid REJECT_INVALID ''cb-no-developers-reward''))
      else Inr ()))"

definition CheckPremineReward ::
    "(string \<Rightarrow> CTxDestination) \<Rightarrow> CChainParams \<Rightarrow> int \<Rightarrow> CTxOut list \<Rightarrow> unit checked" where
  "CheckPremineReward decode cp nHeight outs =
     (let p = consensus cp in
      if nHeight = ActivationHeight p UPGRADE_MORAG then
        exec_bind (any_output (output_pays (GetDevelopersRewardScriptAtHeight decode cp nHeight) (\<lambda>x.
          Inr (nValue x = GetPremineAmountAtHeight p nHeight))) outs) (\<lambda>found.
        reject_if (\<not> found) (Invalid REJECT_INVALID ''cb-no-treasury-reward''))
      else Inr ())"

definition CheckBlockRewards ::
    "bool \<Rightarrow> (string \<Rightarrow> CTxDestination) \<Rightarrow> CChainParams \<Rightarrow> int \<Rightarrow> CTxOut list \<Rightarrow> unit checked" where
  "CheckBlockRewards isMain decode cp nHeight outs =
     exec_bind (CheckFoundersReward isMain decode cp nHeight outs) (\<lambda>_.
     exec_bind (CheckTreasuryReward isMain decode cp nHeight outs) (\<lambda>_.
     exec_bind (CheckDevelopersReward isMain decode cp nHeight outs) (\<lambda>_.
     CheckPremineReward decode cp nHeight outs)))"

section \<open>Filling the coinbase\<close>

definition new_output :: "int \<Rightarrow> script \<Rightarrow> CTxOut" where
  "new_output v s = \<lparr>nValue = v, scriptPubKey = s\<rparr>"

text \<open>\<open>txNew.vout[0].nValue -= amount\<close>\<close>

definition take_from_first :: "int \<Rightarrow> CTxOut list \<Rightarrow> ('e, CTxOut list) exec" where
  "take_from_first amount outs =
     exec_bind (vec_get outs 0) (\<lambda>x. Inr (outs[0 := x\<lparr>nValue := nValue x - amount\<rparr>]))"

definition pay_reward :: "int \<Rightarrow> ('e, script) exec \<Rightarrow> CTxOut list \<Rightarrow> ('e, CTxOut list) exec" where
  "pay_reward amount script outs =
     exec_bind (take_from_first amount outs) (\<lambda>outs.
     exec_bind script (\<lambda>s. Inr (outs @ [new_output amount s])))"

definition fill_founders ::
    "(string \<Rightarrow> CTxDestination) \<Rightarrow> CChainParams \<Rightarrow> int \<Rightarrow> int \<Rightarrow> CTxOut list \<Rightarrow> ('e, CTxOut list) exec" where
  "fill_founders decode cp nHeight blockValue outs =
     (let p = consensus cp in
      exec_bind (if founders_due p nHeight
                 then exec_bind (NetworkUpgradeActive nHeight p UPGRADE_MORAG) (\<lambda>morag. Inr (\<not> morag))
                 else Inr False) (\<lambda>due.
      if due then
        pay_reward
          (if nHeight < ActivationHeight p UPGRADE_OVERWINTER then cdiv blockValue 20
           else if nHeight < ActivationHeight p UPGRADE_KNOWHERE then cdiv (blockValue * 75) 1000
           else if nHeight < ActivationHeight p UPGRADE_MORAG then cdiv (blockValue * 15) 100
           else 0)
          (GetFoundersRewardScriptAtHeight decode cp nHeight) outs
      else Inr outs))"

definition fill_treasury ::
    "(string \<Rightarrow> CTxDestination) \<Rightarrow> CChainParams \<Rightarrow> int \<Rightarrow> int \<Rightarrow> CTxOut list \<Rightarrow> ('e, CTxOut list) exec" where
  "fill_treasury decode cp nHeight blockValue outs =
     (let p = consensus cp in
      if 0 < nHeight \<and> nHeight \<le> GetLastTreasuryRewardBlockHeight p then
        exec_bind (NetworkUpgradeActive nHeight p UPGRADE_ATLANTIS) (\<lambda>atlantis.
        exec_bind (NetworkUpgradeActive nHeight p UPGRADE_MORAG) (\<lambda>morag.
        let amount = (if ActivationHeight p UPGRADE_KNOWHERE \<le> nHeight \<and> \<not> atlantis then cdiv (blockValue * 5) 100
                      else if \<not> morag then cdiv (blockValue * 10) 100 else 0)
        in if ActivationHeight p UPGRADE_KNOWHERE \<le> nHeight
           then pay_reward amount (GetTreasuryRewardScriptAtHeight decode cp nHeight) outs
           else Inr outs))
      else Inr outs)"

definition fill_developers ::
    "(string \<Rightarrow> CTxDestination) \<Rightarrow> CChainParams \<Rightarrow> int \<Rightarrow> int \<Rightarrow> CTxOut list \<Rightarrow> ('e, CTxOut list) exec" where
  "fill_developers decode cp nHeight blockValue outs =
     (let p = consensus cp in
      exec_bind (NetworkUpgradeActive nHeight p UPGRADE_MORAG) (\<lambda>morag.
      if morag \<and> nHeight \<le> GetLastDevelopersRewardBlockHeight p
      then pay_reward (GetDevelopersPayment p nHeight blockValue) (GetDevelopersRewardScriptAtHeight decode cp nHeight) outs
      else Inr outs))"

definition fill_premine ::
    "(string \<Rightarrow> CTxDestination) \<Rightarrow> CChainParams \<Rightarrow> int \<Rightarrow> CTxOut list \<Rightarrow> ('e, CTxOut list) exec" where
  "fill_premine decode cp nHeight outs =
     (let p = consensus cp in
      if nHeight = ActivationHeight p UPGRADE_MORAG
      then pay_reward (GetPremineAmountAtHeight p nHeight) (GetDevelopersRewardScriptAtHeight decode cp nHeight) outs
      else Inr outs)"

definition MasternodePayments_FillBlockPayee ::
    "bool \<Rightarrow> (string \<Rightarrow> CTxDestination) \<Rightarrow> CChainParams \<Rightarrow> int option \<Rightarrow> script option \<Rightarrow> int \<Rightarrow> CTransaction \<Rightarrow>
     ('e, CTransaction) exec" where
  "MasternodePayments_FillBlockPayee isMain decode cp tip payee nFees txNew =
     (case tip of None \<Rightarrow> Inr txNew
      | Some prev \<Rightarrow>
          let nHeight = prev + 1; p = consensus cp in
          exec_bind (GetBlockSubsidy isMain p nHeight p) (\<lambda>blockValue.
          exec_bind (vec_get (vout txNew) 0) (\<lambda>x.
          let outs = (vout txNew)[0 := x\<lparr>nValue := blockValue + nFees\<rparr>] in
          exec_bind (fill_founders decode cp nHeight blockValue outs) (\<lambda>outs.
          exec_bind (fill_treasury decode cp nHeight blockValue outs) (\<lambda>outs.
          exec_bind (fill_developers decode cp nHeight blockValue outs) (\<lambda>outs.
          exec_bind (fill_premine decode cp nHeight outs) (\<lambda>outs.
          exec_bind (case payee of None \<Rightarrow> Inr outs
                     | Some s \<Rightarrow> pay_reward (GetMasternodePayment p nHeight blockValue) (Inr s) outs) (\<lambda>outs.
          Inr (txNew\<lparr>vout := outs\<rparr>)))))))))"

text \<open>
  The budget manager fills the coinbase of a superblock. The winning budget gives the payee and the
  amount; the founders and treasury rewards are computed from what is left in the first output.
\<close>

definition Budget_FillBlockPayee ::
    "bool \<Rightarrow> (string \<Rightarrow> CTxDestination) \<Rightarrow> CChainParams \<Rightarrow> int \<Rightarrow> (int \<times> script) option \<Rightarrow> CTransaction \<Rightarrow>
     ('e, CTransaction) exec" where
  "Budget_FillBlockPayee isMain decode cp height winner txNew =
     (let nHeight = height + 1; p = consensus cp in
      exec_bind (GetBlockSubsidy isMain p nHeight p) (\<lambda>blockValue.
      exec_bind (vec_get (vout txNew) 0) (\<lambda>x.
      let outs = (vout txNew)[0 := x\<lparr>nValue := blockValue\<rparr>] in
      exec_bind (if founders_due p nHeight
                 then exec_bind (NetworkUpgradeActive height p UPGRADE_MORAG) (\<lambda>morag. Inr (\<not> morag))
                 else Inr False) (\<lambda>due.
      exec_bind (if due then
          exec_bind (vec_get outs 0) (\<lambda>x.
          pay_reward
            (if nHeight < ActivationHeight p UPGRADE_OVERWINTER then cdiv (nValue x) 20
             else if nHeight < ActivationHeight p UPGRADE_KNOWHERE then cdiv (nValue x * 75) 1000
             else cdiv (nValue x * 15) 100)
            (GetFoundersRewardScriptAtHeight decode cp nHeight) outs)
        else Inr outs) (\<lambda>outs.
      exec_bind (if 0 < nHeight \<and> nHeight \<le> GetLastTreasuryRewardBlockHeight p then
          exec_bind (NetworkUpgradeActive nHeight p UPGRADE_ATLANTIS) (\<lambda>atlantis.
          exec_bind (vec_get outs 0) (\<lambda>x.
          let amount = (if ActivationHeight p UPGRADE_KNOWHERE \<le> nHeight \<and> \<not> atlantis
                        then cdiv (nValue x * 5) 100 else cdiv (nValue x * 10) 100)
          in if ActivationHeight p UPGRADE_KNOWHERE \<le> nHeight
             then pay_reward amount (GetTreasuryRewardScriptAtHeight decode cp nHeight) outs
             else take_from_first amount outs))
        else Inr outs) (\<lambda>outs.
      exec_bind (fill_developers decode cp nHeight blockValue outs) (\<lambda>outs.
      Inr (txNew\<lparr>vout := (case winner of None \<Rightarrow> outs | Some (nAmount, payee) \<Rightarrow> outs @ [new_output nAmount payee])\<rparr>))))))))"

section \<open>The subsidy of the main network\<close>

definition main_subsidy :: "int \<Rightarrow> int" where
  "main_subsidy h =
     (if h < 4000 then 250000 * h
      else if h < 8000 then 250000 * (h + 1)
      else if h < 2106400 then 20 * COIN
      else if h < 2167200 then 10 * COIN
      else let k = (h - 2167200) div 2102400
           in if 64 \<le> k then 0
              else (30 * COIN + (if h = 2167200 then PREMINE_GEMLINK else 0)) div 2 ^ nat k)"

lemma main_fields [simp]:
  "nSubsidySlowStartInterval main_consensus = 8000" "nSubsidyHalvingInterval main_consensus = 2102400"
  "SubsidySlowStartShift main_consensus = 4000" "GetLastFoundersRewardBlockHeight main_consensus = 2106399"
  "GetLastTreasuryRewardBlockHeight main_consensus = 2167199"
  "nMasternodePaymentsStartBlock main_consensus = 193200"
  "nMasternodePaymentsIncreasePeriod main_consensus = 43200"
  unfolding GetLastFoundersRewardBlockHeight_def SubsidySlowStartShift_def GetLastTreasuryRewardBlockHeight_def
  by (simp_all add: main_consensus_def upgrade_at_def)

lemma GetBlockSubsidy_main:
  assumes "0 \<le> h"
  shows "(GetBlockSubsidy True main_consensus h main_consensus :: ('e, int) exec) = Inr (main_subsidy h)"
proof -
  consider "h < 4000" | "4000 \<le> h" "h < 8000" | "8000 \<le> h" "h < 2106400" | "2106400 \<le> h" "h < 2167200" | "2167200 \<le> h"
    by linarith
  then show ?thesis
  proof cases
    case 1
    then show ?thesis by (simp add: GetBlockSubsidy_def main_subsidy_def)
  next
    case 2
    then show ?thesis by (simp add: GetBlockSubsidy_def main_subsidy_def)
  next
    case 3
    then have "(h - 4000) div 2102400 = 0" by simp
    then show ?thesis using 3 by (simp add: GetBlockSubsidy_def main_subsidy_def upgrade_active_def)
  next
    case 4
    then have "(h - 4000) div 2102400 = 1" by (intro int_div_pos_eq [of _ _ _ "h - 2106400"]) auto
    then show ?thesis
      using 4 by (simp add: GetBlockSubsidy_def main_subsidy_def upgrade_active_def drop_bit_eq_div)
  next
    case 5
    then show ?thesis
      by (simp add: GetBlockSubsidy_def main_subsidy_def upgrade_active_def drop_bit_eq_div Let_def
          GetPremineAmountAtHeight_def)
  qed
qed

section \<open>Emission\<close>

definition emission :: "nat \<Rightarrow> int" where
  "emission n = (\<Sum>h < n. case GetBlockSubsidy True main_consensus (int h) main_consensus :: (unit, int) exec of
     Inr v \<Rightarrow> v | Inl _ \<Rightarrow> 0)"

lemma emission_eq: "emission n = (\<Sum>h < n. main_subsidy (int h))"
  by (simp add: emission_def GetBlockSubsidy_main)

lemma double_sum_int: "2 * (\<Sum>h < n. int h) = int n * (int n - 1)"
  by (induction n) (auto simp: algebra_simps)

lemma sum_split: "a \<le> b \<Longrightarrow> (\<Sum>h < b. f h) = (\<Sum>h < a. f h) + (\<Sum>h \<in> {a..<b}. f h)" for f :: "nat \<Rightarrow> int"
  by (metis lessThan_atLeast0 sum.atLeastLessThan_concat zero_le)

lemma sum_const: "(\<And>h. a \<le> h \<Longrightarrow> h < b \<Longrightarrow> f h = c) \<Longrightarrow> (\<Sum>h \<in> {a..<b}. f h) = int (b - a) * c" for f :: "nat \<Rightarrow> int"
  by simp

lemma emission_slow_start: "emission 8000 = 80000 * COIN"
proof -
  have a: "(\<Sum>h < 4000. main_subsidy (int h)) = 250000 * (\<Sum>h < 4000. int h)"
    unfolding sum_distrib_left by (rule sum.cong) (auto simp: main_subsidy_def)
  have b: "(\<Sum>h \<in> {4000..<8000}. main_subsidy (int h)) = 250000 * (\<Sum>h \<in> {4000..<8000}. int h) + 250000 * 4000"
  proof -
    have "(\<Sum>h \<in> {4000..<8000}. main_subsidy (int h)) = (\<Sum>h \<in> {4000..<8000}. 250000 * int h + 250000)"
      by (rule sum.cong) (auto simp: main_subsidy_def)
    then show ?thesis by (simp add: sum.distrib sum_distrib_left)
  qed
  have c: "(\<Sum>h < 8000. int h) = (\<Sum>h < 4000. int h) + (\<Sum>h \<in> {4000..<8000}. int h)" by (rule sum_split) simp
  show ?thesis
    using sum_split [of 4000 8000 "\<lambda>h. main_subsidy (int h)"] a b c double_sum_int [of 4000] double_sum_int [of 8000]
    by (simp add: emission_eq)
qed

lemma emission_before_morag: "emission 2167200 = 42656000 * COIN"
proof -
  have a: "(\<Sum>h \<in> {8000..<2106400}. main_subsidy (int h)) = int (2106400 - 8000) * (20 * COIN)"
    by (rule sum_const) (simp add: main_subsidy_def)
  have b: "(\<Sum>h \<in> {2106400..<2167200}. main_subsidy (int h)) = int (2167200 - 2106400) * (10 * COIN)"
    by (rule sum_const) (simp add: main_subsidy_def)
  show ?thesis
    using emission_slow_start a b sum_split [of 8000 2106400 "\<lambda>h. main_subsidy (int h)"]
      sum_split [of 2106400 2167200 "\<lambda>h. main_subsidy (int h)"]
    unfolding emission_eq by simp
qed

text \<open>After Morag the subsidy halves every 2102400 blocks.\<close>

definition halving_sum :: "nat \<Rightarrow> int" where
  "halving_sum q = (\<Sum>k < q. 30 * COIN div 2 ^ k)"

lemma div_pow2_Suc: "c div 2 ^ Suc q = c div 2 ^ q div 2" for c :: int
  by (simp only: power_Suc2 zdiv_zmult2_eq)

lemma halving_sum_le: "halving_sum q \<le> 60 * COIN - 2 * (30 * COIN div 2 ^ q)"
proof (induction q)
  case (Suc q)
  show ?case
    unfolding div_pow2_Suc using Suc by (simp add: halving_sum_def)
qed (simp add: halving_sum_def)

lemma main_subsidy_morag:
  assumes "2167200 \<le> h"
  shows "main_subsidy (int h) \<le>
      30 * COIN div 2 ^ ((h - 2167200) div 2102400) + (if h = 2167200 then PREMINE_GEMLINK else 0)"
    "(h - 2167200) div 2102400 < 64 \<Longrightarrow> main_subsidy (int h) =
      30 * COIN div 2 ^ ((h - 2167200) div 2102400) + (if h = 2167200 then PREMINE_GEMLINK else 0)"
proof -
  have k: "(int h - 2167200) div 2102400 = int ((h - 2167200) div 2102400)"
    using assms by (simp add: zdiv_int)
  show "main_subsidy (int h) \<le>
      30 * COIN div 2 ^ ((h - 2167200) div 2102400) + (if h = 2167200 then PREMINE_GEMLINK else 0)"
    using assms by (auto simp: main_subsidy_def k Let_def PREMINE_GEMLINK_def pos_imp_zdiv_nonneg_iff)
  assume "(h - 2167200) div 2102400 < 64"
  then show "main_subsidy (int h) =
      30 * COIN div 2 ^ ((h - 2167200) div 2102400) + (if h = 2167200 then PREMINE_GEMLINK else 0)"
    using assms by (auto simp: main_subsidy_def k Let_def PREMINE_GEMLINK_def)
qed

lemma sum_div_group: "(\<Sum>i < q * m. f (i div m)) = int m * (\<Sum>k < q. f k)" for f :: "nat \<Rightarrow> int"
proof -
  have "(\<Sum>i < q * m. f (i div m)) = (\<Sum>k < q. \<Sum>i \<in> {k * m..<k * m + m}. f (i div m))"
    by (rule sum.nat_group [symmetric])
  also have "\<dots> = (\<Sum>k < q. int m * f k)"
  proof (rule sum.cong)
    fix k assume "k \<in> {..<q}"
    have "f (i div m) = f k" if "i \<in> {k * m..<k * m + m}" for i
      using that by (intro arg_cong [of _ _ f] div_nat_eqI) (auto simp: algebra_simps)
    then show "(\<Sum>i \<in> {k * m..<k * m + m}. f (i div m)) = int m * f k" by simp
  qed simp
  finally show ?thesis by (simp add: sum_distrib_left)
qed

lemma sum_shift: "(\<Sum>h \<in> {a..<a + n}. f h) = (\<Sum>i < n. f (a + i))" for f :: "nat \<Rightarrow> int"
  by (induction n) (auto simp: sum.atLeastLessThan_Suc)

lemma sum_premine: "(\<Sum>i < n. if i = 0 then c else 0) = (if n = 0 then 0 else c)" for c :: int and n :: nat
  by (induction n) auto

lemma emission_after_morag:
  "emission (2167200 + q * 2102400) \<le> 42656000 * COIN + PREMINE_GEMLINK + 2102400 * halving_sum q"
  "0 < q \<Longrightarrow> q \<le> 64 \<Longrightarrow> emission (2167200 + q * 2102400) =
     42656000 * COIN + PREMINE_GEMLINK + 2102400 * halving_sum q"
proof -
  let ?n = "q * 2102400"
  let ?f = "\<lambda>i. 30 * COIN div 2 ^ (i div 2102400) + (if i = 0 then PREMINE_GEMLINK else 0)"
  have split: "emission (2167200 + ?n) = 42656000 * COIN + (\<Sum>i < ?n. main_subsidy (int (2167200 + i)))"
    using emission_before_morag sum_split [of 2167200 "2167200 + ?n" "\<lambda>h. main_subsidy (int h)"]
    unfolding emission_eq sum_shift by simp
  have tail: "(\<Sum>i < ?n. ?f i) = 2102400 * halving_sum q + (if q = 0 then 0 else PREMINE_GEMLINK)"
    using sum_div_group [of "\<lambda>k. 30 * COIN div 2 ^ k" 2102400 q] sum_premine [of PREMINE_GEMLINK ?n]
    by (simp add: sum.distrib halving_sum_def)
  have "(\<Sum>i < ?n. main_subsidy (int (2167200 + i))) \<le> (\<Sum>i < ?n. ?f i)"
  proof (rule sum_mono)
    fix i
    show "main_subsidy (int (2167200 + i)) \<le> ?f i" using main_subsidy_morag(1) [of "2167200 + i"] by simp
  qed
  then show "emission (2167200 + ?n) \<le> 42656000 * COIN + PREMINE_GEMLINK + 2102400 * halving_sum q"
    using split tail by (simp add: PREMINE_GEMLINK_def split: if_splits)
  assume q: "0 < q" "q \<le> 64"
  have "(\<Sum>i < ?n. main_subsidy (int (2167200 + i))) = (\<Sum>i < ?n. ?f i)"
  proof (rule sum.cong)
    fix i assume "i \<in> {..<?n}"
    then have "i div 2102400 < q" by (simp add: div_less_iff_less_mult)
    then show "main_subsidy (int (2167200 + i)) = ?f i" using main_subsidy_morag(2) [of "2167200 + i"] q by simp
  qed simp
  then show "emission (2167200 + ?n) = 42656000 * COIN + PREMINE_GEMLINK + 2102400 * halving_sum q"
    using split tail q by simp
qed

lemma main_subsidy_nonneg: "0 \<le> main_subsidy (int h)"
  by (simp add: main_subsidy_def Let_def PREMINE_GEMLINK_def pos_imp_zdiv_nonneg_iff)

lemma emission_mono: "m \<le> n \<Longrightarrow> emission m \<le> emission n"
  unfolding emission_eq by (rule sum_mono2) (auto simp: main_subsidy_nonneg)

text \<open>C30: The money supply of the main network. Whatever the height, the subsidies up to it sum up to at most
  178.8 million coins; with the third halving period after Morag the sum is 163.032 million coins, which is
  above \<open>MAX_MONEY\<close>, the bound that a single amount may have, and far above the 84.096 million that the
  comment at \<open>MAX_MONEY\<close> gives as the supply.\<close>

theorem money_supply:
  "emission n \<le> 178800000 * COIN \<and> emission 8474400 = 163032000 * COIN \<and> MAX_MONEY < emission 8474400"
proof -
  have "emission n \<le> emission (2167200 + n * 2102400)" by (rule emission_mono) simp
  also have "\<dots> \<le> 42656000 * COIN + PREMINE_GEMLINK + 2102400 * halving_sum n" by (rule emission_after_morag)
  also have "\<dots> \<le> 42656000 * COIN + PREMINE_GEMLINK + 2102400 * (60 * COIN)"
  proof -
    have "(0 :: int) \<le> 30 * COIN div 2 ^ n" by (simp add: pos_imp_zdiv_nonneg_iff)
    then show ?thesis using halving_sum_le [of n] by linarith
  qed
  finally have le: "emission n \<le> 178800000 * COIN" by (simp add: PREMINE_GEMLINK_def)
  have "halving_sum 3 = 5250000000" by (simp add: halving_sum_def numeral_3_eq_3)
  then have "emission 8474400 = 163032000 * COIN"
    using emission_after_morag(2) [of 3] by (simp add: PREMINE_GEMLINK_def)
  then show ?thesis using le by (simp add: MAX_MONEY_def)
qed

section \<open>The miner's coinbase satisfies the rules\<close>

lemma any_output_found:
  "\<forall>y \<in> set xs. \<exists>b. P y = Inr b \<Longrightarrow> x \<in> set xs \<Longrightarrow> P x = Inr True \<Longrightarrow> any_output P xs = Inr True"
  by (induction xs) auto

lemma any_output_none: "\<forall>y \<in> set xs. P y = Inr False \<Longrightarrow> any_output P xs = Inr False"
  by (induction xs) auto

lemma output_pays_simps:
  "output_pays (Inr s) V x = (if scriptPubKey x = s then V x else Inr False)"
  by (simp add: output_pays_def)

lemma pay_reward_Cons:
  "pay_reward a (Inr s) (x # xs) = Inr (x\<lparr>nValue := nValue x - a\<rparr> # xs @ [new_output a s])"
  by (simp add: pay_reward_def take_from_first_def vec_get_def)

lemma new_output_fields [simp]: "nValue (new_output v s) = v" "scriptPubKey (new_output v s) = s"
  by (simp_all add: new_output_def)

lemma any_output_pays:
  assumes "\<And>y. \<exists>b. V y = (Inr b :: ('e, bool) exec)" "V (new_output v s) = Inr True" "new_output v s \<in> set xs"
  shows "any_output (output_pays (Inr s) V) xs = Inr True"
proof (rule any_output_found [OF _ assms(3)])
  show "\<forall>y \<in> set xs. \<exists>b. output_pays (Inr s) V y = Inr b" using assms(1) by (auto simp: output_pays_simps)
  show "output_pays (Inr s) V (new_output v s) = Inr True" using assms(2) by (simp add: output_pays_simps)
qed

definition stage_ok :: "(CTxOut list \<Rightarrow> (reject, CTxOut list) exec) \<Rightarrow> (CTxOut list \<Rightarrow> unit checked) \<Rightarrow> int \<Rightarrow> bool" where
  "stage_ok fill check share \<longleftrightarrow>
     (\<exists>new. (\<forall>x xs. fill (x # xs) = Inr (x\<lparr>nValue := nValue x - share\<rparr> # xs @ new)) \<and>
        sum_list (map nValue new) = share \<and> (\<forall>outs. set new \<subseteq> set outs \<longrightarrow> check outs = Inr ()))"

lemma stage_ok_pay:
  assumes "\<And>xs. fill xs = pay_reward a (Inr s) xs"
    "\<And>outs. new_output a s \<in> set outs \<Longrightarrow> check outs = Inr ()"
  shows "stage_ok fill check a"
  unfolding stage_ok_def using assms
  by (intro exI [of _ "[new_output a s]"]) (auto simp: pay_reward_Cons)

lemma stage_ok_skip:
  assumes "\<And>xs. fill xs = Inr xs" "\<And>outs. check outs = Inr ()"
  shows "stage_ok fill check 0"
  unfolding stage_ok_def using assms by (intro exI [of _ "[]"]) auto

definition founders_share :: "int \<Rightarrow> int" where
  "founders_share h =
     (if h < 520000 then main_subsidy h div 20 else if h < 916000 then 150000000
      else if h < 2106400 then 300000000 else 0)"

definition treasury_share :: "int \<Rightarrow> int" where
  "treasury_share h =
     (if h < 916000 then 0 else if h < 1760000 then 100000000
      else if h < 2106400 then 200000000 else if h < 2167200 then 100000000 else 0)"

definition developers_share :: "int \<Rightarrow> int" where
  "developers_share h =
     (if h < 2167200 \<or> 99999999 < h then 0
      else (main_subsidy h - (if h = 2167200 then PREMINE_GEMLINK else 0)) * 20 div 100)"

lemma main_subsidy_plain: "8000 \<le> h \<Longrightarrow> h < 2106400 \<Longrightarrow> main_subsidy h = 2000000000"
  "2106400 \<le> h \<Longrightarrow> h < 2167200 \<Longrightarrow> main_subsidy h = 1000000000"
  by (simp_all add: main_subsidy_def)

lemma main_subsidy_pos: "0 \<le> h \<Longrightarrow> 0 \<le> main_subsidy h"
  using main_subsidy_nonneg [of "nat h"] by simp

lemma founders_stage:
  assumes "reward_addresses_ok decode cp" "consensus cp = main_consensus" "0 < h"
  shows "stage_ok (fill_founders decode cp h (main_subsidy h)) (CheckFoundersReward True decode cp h) (founders_share h)"
proof (cases "h < 2106400")
  case True
  obtain s where s: "(GetFoundersRewardScriptAtHeight decode cp h :: (reject, script) exec) = Inr s"
    using reward_scripts_ok(1) [OF assms True] by blast
  have due: "founders_due main_consensus h" using True assms(3) by (simp add: founders_due_def)
  have sub: "0 \<le> main_subsidy h" "\<not> h < 8000 \<Longrightarrow> main_subsidy h = 2000000000"
    using True assms(3) main_subsidy_plain(1) [of h] main_subsidy_pos [of h] by auto
  show ?thesis
  proof (rule stage_ok_pay)
    show "(fill_founders decode cp h (main_subsidy h) xs :: (reject, CTxOut list) exec) = pay_reward (founders_share h) (Inr s) xs" for xs
      using True assms(2,3) due s sub
      by (simp add: fill_founders_def founders_share_def upgrade_active_def)
    show "CheckFoundersReward True decode cp h outs = Inr ()" if "new_output (founders_share h) s \<in> set outs" for outs
      unfolding CheckFoundersReward_def Let_def assms(2) s
      using True assms(3) due sub
      by (subst any_output_pays [OF _ _ that])
        (auto simp: GetBlockSubsidy_main upgrade_active_def founders_share_def)
  qed
next
  case False
  then have nd: "\<not> founders_due main_consensus h" by (simp add: founders_due_def)
  have "founders_share h = 0" using False by (simp add: founders_share_def)
  then show ?thesis
    using nd assms(2) stage_ok_skip [of "fill_founders decode cp h (main_subsidy h)" "CheckFoundersReward True decode cp h"]
    by (simp add: fill_founders_def CheckFoundersReward_def)
qed

lemma treasury_stage:
  assumes "reward_addresses_ok decode cp" "consensus cp = main_consensus" "0 < h"
  shows "stage_ok (fill_treasury decode cp h (main_subsidy h)) (CheckTreasuryReward True decode cp h) (treasury_share h)"
proof (cases "916000 \<le> h \<and> h < 2167200")
  case True
  obtain s where s: "(GetTreasuryRewardScriptAtHeight decode cp h :: (reject, script) exec) = Inr s"
    using reward_scripts_ok(2) [OF assms] by blast
  have sub: "h < 2106400 \<Longrightarrow> main_subsidy h = 2000000000" "\<not> h < 2106400 \<Longrightarrow> main_subsidy h = 1000000000"
    using True main_subsidy_plain [of h] by auto
  show ?thesis
  proof (rule stage_ok_pay)
    show "(fill_treasury decode cp h (main_subsidy h) xs :: (reject, CTxOut list) exec) = pay_reward (treasury_share h) (Inr s) xs" for xs
      using True assms(2,3) s sub
      by (auto simp: fill_treasury_def treasury_share_def upgrade_active_def Let_def)
    show "CheckTreasuryReward True decode cp h outs = Inr ()" if "new_output (treasury_share h) s \<in> set outs" for outs
      unfolding CheckTreasuryReward_def Let_def assms(2) s
      using True assms(3) sub
      by (subst any_output_pays [OF _ _ that])
        (auto simp: GetBlockSubsidy_main upgrade_active_def treasury_share_def)
  qed
next
  case False
  then have "treasury_share h = 0" by (auto simp: treasury_share_def)
  then show ?thesis
    using False assms(2,3) stage_ok_skip [of "fill_treasury decode cp h (main_subsidy h)" "CheckTreasuryReward True decode cp h"]
    by (auto simp: fill_treasury_def CheckTreasuryReward_def Let_def)
qed

lemma developers_stage:
  assumes "reward_addresses_ok decode cp" "consensus cp = main_consensus" "0 < h"
  shows "stage_ok (fill_developers decode cp h (main_subsidy h)) (CheckDevelopersReward True decode cp h) (developers_share h)"
proof (cases "2167200 \<le> h \<and> h \<le> 99999999")
  case True
  obtain s where s: "(GetDevelopersRewardScriptAtHeight decode cp h :: (reject, script) exec) = Inr s"
    using reward_scripts_ok(3) [OF assms] by blast
  have dev: "GetDevelopersPayment main_consensus h (main_subsidy h) = developers_share h"
  proof -
    have "0 \<le> main_subsidy h - (if h = 2167200 then PREMINE_GEMLINK else 0)"
    proof (cases "h = 2167200")
      case False
      then show ?thesis using True main_subsidy_pos [of h] by simp
    qed (simp add: main_subsidy_def)
    then show ?thesis
      using True by (auto simp: GetDevelopersPayment_def developers_share_def GetPremineAmountAtHeight_def)
  qed
  show ?thesis
  proof (rule stage_ok_pay)
    show "(fill_developers decode cp h (main_subsidy h) xs :: (reject, CTxOut list) exec) = pay_reward (developers_share h) (Inr s) xs" for xs
      using True assms(2,3) s dev
      by (simp add: fill_developers_def upgrade_active_def GetLastDevelopersRewardBlockHeight_def)
    show "CheckDevelopersReward True decode cp h outs = Inr ()" if "new_output (developers_share h) s \<in> set outs" for outs
      unfolding CheckDevelopersReward_def Let_def assms(2) s
      using True assms(3) dev
      by (subst any_output_pays [OF _ _ that])
        (auto simp: GetBlockSubsidy_main upgrade_active_def GetLastDevelopersRewardBlockHeight_def)
  qed
next
  case False
  then have "developers_share h = 0" by (auto simp: developers_share_def)
  then show ?thesis
    using False assms(2,3) stage_ok_skip [of "fill_developers decode cp h (main_subsidy h)" "CheckDevelopersReward True decode cp h"]
    by (auto simp: fill_developers_def CheckDevelopersReward_def upgrade_active_def GetLastDevelopersRewardBlockHeight_def)
qed

lemma premine_stage:
  assumes "reward_addresses_ok decode cp" "consensus cp = main_consensus" "0 < h"
  shows "stage_ok (fill_premine decode cp h) (CheckPremineReward decode cp h) (GetPremineAmountAtHeight main_consensus h)"
proof (cases "h = 2167200")
  case True
  obtain s where s: "(GetDevelopersRewardScriptAtHeight decode cp h :: (reject, script) exec) = Inr s"
    using reward_scripts_ok(3) [OF assms] by blast
  show ?thesis
  proof (rule stage_ok_pay)
    show "(fill_premine decode cp h xs :: (reject, CTxOut list) exec) = pay_reward (GetPremineAmountAtHeight main_consensus h) (Inr s) xs" for xs
      using True assms(2) s by (simp add: fill_premine_def)
    show "CheckPremineReward decode cp h outs = Inr ()"
      if "new_output (GetPremineAmountAtHeight main_consensus h) s \<in> set outs" for outs
      unfolding CheckPremineReward_def Let_def assms(2) s
      using True by (subst any_output_pays [OF _ _ that]) auto
  qed
next
  case False
  then have "GetPremineAmountAtHeight main_consensus h = 0" by (simp add: GetPremineAmountAtHeight_def)
  then show ?thesis
    using False assms(2) stage_ok_skip [of "fill_premine decode cp h" "CheckPremineReward decode cp h"]
    by (simp add: fill_premine_def CheckPremineReward_def)
qed

lemma shares_fit:
  assumes "0 < h"
  shows "founders_share h + treasury_share h + developers_share h + GetPremineAmountAtHeight main_consensus h +
    GetMasternodePayment main_consensus h (main_subsidy h) \<le> main_subsidy h"
    "founders_share h + treasury_share h + developers_share h + GetPremineAmountAtHeight main_consensus h \<le> main_subsidy h"
proof -
  note defs = founders_share_def treasury_share_def developers_share_def GetPremineAmountAtHeight_def
    GetMasternodePayment_def PREMINE_GEMLINK_def
  have frac: "x div 20 + x * 35 div 100 \<le> x" "x * 20 div 100 + x * 50 div 100 \<le> x" "x div 20 \<le> x"
    "x * 20 div 100 \<le> x" "x * 50 div 100 \<le> x" if "0 \<le> x" for x :: int
    using that by linarith+
  have sub: "0 \<le> main_subsidy h" using assms main_subsidy_pos [of h] by simp
  consider "h < 8000" | "8000 \<le> h" "h < 2106400" | "2106400 \<le> h" "h < 2167200" | "h = 2167200" | "2167200 < h"
    by linarith
  then have "founders_share h + treasury_share h + developers_share h + GetPremineAmountAtHeight main_consensus h +
      GetMasternodePayment main_consensus h (main_subsidy h) \<le> main_subsidy h \<and>
    founders_share h + treasury_share h + developers_share h + GetPremineAmountAtHeight main_consensus h \<le> main_subsidy h"
  proof cases
    case 1
    then show ?thesis using frac [OF sub] sub by (simp add: defs)
  next
    case 2
    then show ?thesis using main_subsidy_plain(1) [of h] by (simp add: defs)
  next
    case 3
    then show ?thesis using main_subsidy_plain(2) [of h] by (simp add: defs)
  next
    case 4
    have "main_subsidy 2167200 = 3000000000 + 1000000000000000" by (simp add: main_subsidy_def PREMINE_GEMLINK_def)
    then show ?thesis using 4 by (simp add: defs)
  next
    case 5
    then show ?thesis using frac [OF sub] sub by (simp add: defs)
  qed
  then show "founders_share h + treasury_share h + developers_share h + GetPremineAmountAtHeight main_consensus h +
      GetMasternodePayment main_consensus h (main_subsidy h) \<le> main_subsidy h"
    "founders_share h + treasury_share h + developers_share h + GetPremineAmountAtHeight main_consensus h \<le> main_subsidy h"
    by blast+
qed

text \<open>C29: The coinbase that the masternode payment code builds for a new block of the main network satisfies
  the reward rules of \<open>ContextualCheckBlock\<close>: from a transaction with one output, at every height, with or
  without a masternode to pay, \<open>FillBlockPayee\<close> returns outputs that pass the founders, treasury,
  developers and premine checks, that sum up to the subsidy plus the fees, and that leave the miner at
  least the fees.\<close>

theorem coinbase_rewards_accepted:
  assumes "reward_addresses_ok decode cp" and "consensus cp = main_consensus" and "0 \<le> prev" and "vout tx = [x]"
  shows "\<exists>outs v. (GetBlockSubsidy True main_consensus (prev + 1) main_consensus :: (reject, int) exec) = Inr v \<and>
    (MasternodePayments_FillBlockPayee True decode cp (Some prev) payee nFees tx :: (reject, CTransaction) exec) =
      Inr (tx\<lparr>vout := outs\<rparr>) \<and>
    CheckBlockRewards True decode cp (prev + 1) outs = Inr () \<and>
    sum_list (map nValue outs) = v + nFees \<and> nFees \<le> nValue (hd outs)"
proof -
  define h where "h = prev + 1"
  have h: "0 < h" using assms(3) by (simp add: h_def)
  note A = assms(1,2) h
  obtain f where f: "\<And>y ys. (fill_founders decode cp h (main_subsidy h) (y # ys) :: (reject, _) exec) =
      Inr (y\<lparr>nValue := nValue y - founders_share h\<rparr> # ys @ f)" "sum_list (map nValue f) = founders_share h"
    "\<And>outs. set f \<subseteq> set outs \<Longrightarrow> CheckFoundersReward True decode cp h outs = Inr ()"
    using founders_stage [OF A] unfolding stage_ok_def by blast
  obtain t where t: "\<And>y ys. (fill_treasury decode cp h (main_subsidy h) (y # ys) :: (reject, _) exec) =
      Inr (y\<lparr>nValue := nValue y - treasury_share h\<rparr> # ys @ t)" "sum_list (map nValue t) = treasury_share h"
    "\<And>outs. set t \<subseteq> set outs \<Longrightarrow> CheckTreasuryReward True decode cp h outs = Inr ()"
    using treasury_stage [OF A] unfolding stage_ok_def by blast
  obtain d where d: "\<And>y ys. (fill_developers decode cp h (main_subsidy h) (y # ys) :: (reject, _) exec) =
      Inr (y\<lparr>nValue := nValue y - developers_share h\<rparr> # ys @ d)" "sum_list (map nValue d) = developers_share h"
    "\<And>outs. set d \<subseteq> set outs \<Longrightarrow> CheckDevelopersReward True decode cp h outs = Inr ()"
    using developers_stage [OF A] unfolding stage_ok_def by blast
  define P where "P = GetPremineAmountAtHeight main_consensus h"
  obtain p where p: "\<And>y ys. (fill_premine decode cp h (y # ys) :: (reject, _) exec) =
      Inr (y\<lparr>nValue := nValue y - P\<rparr> # ys @ p)" "sum_list (map nValue p) = P"
    "\<And>outs. set p \<subseteq> set outs \<Longrightarrow> CheckPremineReward decode cp h outs = Inr ()"
    using premine_stage [OF A] unfolding stage_ok_def P_def by blast
  define M where "M = (case payee of None \<Rightarrow> 0 | Some _ \<Rightarrow> GetMasternodePayment main_consensus h (main_subsidy h))"
  define m where "m = (case payee of None \<Rightarrow> [] | Some s \<Rightarrow> [new_output M s])"
  define outs where "outs = x\<lparr>nValue := main_subsidy h + nFees - founders_share h - treasury_share h -
    developers_share h - P - M\<rparr> # f @ t @ d @ p @ m"
  have v: "(GetBlockSubsidy True main_consensus h main_consensus :: (reject, int) exec) = Inr (main_subsidy h)"
    using h by (simp add: GetBlockSubsidy_main)
  have fill: "(MasternodePayments_FillBlockPayee True decode cp (Some prev) payee nFees tx :: (reject, CTransaction) exec) =
      Inr (tx\<lparr>vout := outs\<rparr>)"
    unfolding MasternodePayments_FillBlockPayee_def
    by (cases payee) (simp_all add: h_def [symmetric] Let_def assms(2,4) v f(1) t(1) d(1) p(1) outs_def m_def M_def
        pay_reward_Cons)
  have checks: "CheckBlockRewards True decode cp h outs = Inr ()"
    unfolding CheckBlockRewards_def using f(3) [of outs] t(3) [of outs] d(3) [of outs] p(3) [of outs]
    by (simp add: outs_def subset_iff)
  have "sum_list (map nValue m) = M" by (cases payee) (simp_all add: m_def M_def)
  then have sum: "sum_list (map nValue outs) = main_subsidy h + nFees"
    using f(2) t(2) d(2) p(2) by (simp add: outs_def)
  have "founders_share h + treasury_share h + developers_share h + P + M \<le> main_subsidy h"
    using shares_fit [OF h] by (cases payee) (simp_all add: P_def M_def)
  then have "nFees \<le> nValue (hd outs)" by (simp add: outs_def)
  then show ?thesis using v fill checks sum unfolding h_def by blast
qed

text \<open>A network with one address, for the witnesses.\<close>

definition example_params :: CChainParams where
  "example_params =
     \<lparr>consensus = main_consensus, vFoundersRewardAddress = [''a''], vFoundersRewardAddress2 = [''a''],
      vTreasuryRewardAddress = [''b''], vDevelopersRewardAddress = [''c''], vBlacklistTx = Map.empty,
      vWhitelistTx = Map.empty, masternodeCollateral = 10000, masternodeCollateralNew = 20000, mnLockBlocks = 20160\<rparr>"

definition example_decode :: "string \<Rightarrow> CTxDestination" where
  "example_decode a = CScriptID (replicate 20 (if a = ''a'' then 1 else if a = ''b'' then 2 else 3))"

lemma example_addresses: "reward_addresses_ok example_decode example_params" "consensus example_params = main_consensus"
  by (simp_all add: reward_addresses_ok_def example_params_def example_decode_def)

theorem coinbase_rewards_accepted_witness:
  "\<exists>outs v. (GetBlockSubsidy True main_consensus 1000001 main_consensus :: (reject, int) exec) = Inr v \<and>
    (MasternodePayments_FillBlockPayee True example_decode example_params (Some 1000000) (Some [1]) 7
      (CTransaction_new\<lparr>vout := [CTxOut_null]\<rparr>) :: (reject, CTransaction) exec) =
      Inr (CTransaction_new\<lparr>vout := outs\<rparr>) \<and>
    CheckBlockRewards True example_decode example_params 1000001 outs = Inr () \<and>
    sum_list (map nValue outs) = v + 7"
proof -
  have p: "(0 :: int) \<le> 1000000" by simp
  have o: "vout (CTransaction_new\<lparr>vout := [CTxOut_null]\<rparr>) = [CTxOut_null]" by simp
  have e: "CTransaction_new\<lparr>vout := a, vout := b\<rparr> = CTransaction_new\<lparr>vout := b\<rparr>" for a b by simp
  have n: "(1000000 :: int) + 1 = 1000001" by simp
  show ?thesis
    using coinbase_rewards_accepted [OF example_addresses p o, of "Some [1]" 7] unfolding n e by blast
qed

text \<open>C31: The coinbase that the budget code builds for a superblock violates the same rules. Between Knowhere and
  the last founders reward block, \<open>CBudgetManager::FillBlockPayee\<close> computes the treasury reward from what is
  left after the founders reward instead of from the subsidy, so every such block is rejected for a
  missing treasury reward, unless the budget pays the treasury script itself.\<close>

theorem budget_coinbase_rejected:
  assumes "reward_addresses_ok decode cp" and "consensus cp = main_consensus" and "vout tx = [x]"
    and "916000 < height + 1" and "height + 1 < 2106400"
    and "\<And>n s. winner = Some (n, s) \<Longrightarrow> (GetTreasuryRewardScriptAtHeight decode cp (height + 1) :: (reject, script) exec) \<noteq> Inr s"
  shows "\<exists>tx'. (Budget_FillBlockPayee True decode cp height winner tx :: (reject, CTransaction) exec) = Inr tx' \<and>
    CheckBlockRewards True decode cp (height + 1) (vout tx') =
      Inl (Fail (Invalid REJECT_INVALID ''cb-no-treasury-reward''))"
proof -
  define h where "h = height + 1"
  have h: "0 < h" "916000 < h" "h < 2106400" "0 \<le> height" "height < 2167200"
    using assms(4,5) by (simp_all add: h_def)
  have sub: "main_subsidy h = 2000000000" using main_subsidy_plain(1) [of h] h by simp
  have v: "(GetBlockSubsidy True main_consensus h main_consensus :: (reject, int) exec) = Inr 2000000000"
    using h GetBlockSubsidy_main [of h, where 'e = reject] sub by simp
  obtain fs where fs: "(GetFoundersRewardScriptAtHeight decode cp h :: (reject, script) exec) = Inr fs"
    using reward_scripts_ok(1) [OF assms(1,2) h(1,3)] by blast
  obtain ts where ts: "(GetTreasuryRewardScriptAtHeight decode cp h :: (reject, script) exec) = Inr ts"
    using reward_scripts_ok(2) [OF assms(1,2) h(1)] by blast
  define T :: int where "T = (if h < 1760000 then 85000000 else 170000000)"
  define w where "w = (case winner of None \<Rightarrow> [] | Some (n, s) \<Rightarrow> [new_output n s])"
  define outs where "outs = x\<lparr>nValue := 1700000000 - T\<rparr> # new_output 300000000 fs # new_output T ts # w"
  have due: "founders_due main_consensus h" using h by (simp add: founders_due_def)
  have fill: "(Budget_FillBlockPayee True decode cp height winner tx :: (reject, CTransaction) exec) = Inr (tx\<lparr>vout := outs\<rparr>)"
    unfolding Budget_FillBlockPayee_def Let_def h_def [symmetric] assms(2,3) v fs ts
    using h due by (cases winner) (auto simp: upgrade_active_def pay_reward_Cons outs_def T_def w_def fill_developers_def Let_def assms(2))
  have ok: "CheckFoundersReward True decode cp h outs = Inr ()"
    unfolding CheckFoundersReward_def Let_def assms(2) fs
    using h due by (subst any_output_pays [of _ 300000000]) (auto simp: v upgrade_active_def outs_def)
  have "s \<noteq> ts" if "winner = Some (n, s)" for n s using assms(6) [OF that] ts by (simp add: h_def)
  then have w: "\<forall>y \<in> set w. scriptPubKey y \<noteq> ts" by (auto simp: w_def split: option.splits)
  have "CheckTreasuryReward True decode cp h outs = Inl (Fail (Invalid REJECT_INVALID ''cb-no-treasury-reward''))"
    unfolding CheckTreasuryReward_def Let_def assms(2) ts
    using h w by (subst any_output_none) (auto simp: v upgrade_active_def outs_def output_pays_simps T_def)
  then have "CheckBlockRewards True decode cp h outs = Inl (Fail (Invalid REJECT_INVALID ''cb-no-treasury-reward''))"
    using ok by (simp add: CheckBlockRewards_def)
  then show ?thesis using fill unfolding h_def by (intro exI [of _ "tx\<lparr>vout := outs\<rparr>"]) simp
qed

theorem budget_coinbase_rejected_witness:
  "\<exists>tx'. (Budget_FillBlockPayee True example_decode example_params 1000000 None
      (CTransaction_new\<lparr>vout := [CTxOut_null]\<rparr>) :: (reject, CTransaction) exec) = Inr tx' \<and>
    CheckBlockRewards True example_decode example_params 1000001 (vout tx') =
      Inl (Fail (Invalid REJECT_INVALID ''cb-no-treasury-reward''))"
  using budget_coinbase_rejected [OF example_addresses, of "CTransaction_new\<lparr>vout := [CTxOut_null]\<rparr>" CTxOut_null 1000000 None]
  by simp

end
