(* ===== verification/Sig_Facts.thy ===== *)
theory Sig_Facts
  imports Interp_Limits
begin

text \<open>
  The encoding checks of src/src/script/interpreter.cpp in closed form: a signature passes
  \<open>IsValidSignatureEncoding\<close> exactly if it is a strict DER signature followed by a hash
  type byte, and \<open>CastToBool\<close> is the number of the stack element being nonzero.
\<close>


section \<open>Strict DER signatures\<close>

text \<open>A positive integer in its shortest big-endian form.\<close>

definition der_positive :: "bytes \<Rightarrow> bool" where
  "der_positive v \<longleftrightarrow> v \<noteq> [] \<and> unat (hd v) < 128 \<and> (1 < length v \<and> hd v = 0 \<longrightarrow> 128 \<le> unat (v ! 1))"

definition der_signature :: "bytes \<Rightarrow> bytes \<Rightarrow> byte \<Rightarrow> bytes" where
  "der_signature R S hashtype =
     [0x30, of_nat (length R + length S + 4), 0x02, of_nat (length R)] @ R @
     [0x02, of_nat (length S)] @ S @ [hashtype]"

lemma der_integer_eq:
  assumes "tag < length sig" "at + len < length sig"
  shows "der_integer sig tag at len =
     Inr (sig ! tag = 0x02 \<and> der_positive (take len (drop at sig)))"
proof (cases "sig ! tag = 0x02 \<and> len \<noteq> 0")
  case True
  then have h: "take len (drop at sig) \<noteq> []" "hd (take len (drop at sig)) = sig ! at"
    using assms by (auto simp: hd_drop_conv_nth)
  have "take len (drop at sig) ! 1 = sig ! Suc at" "length (take len (drop at sig)) = len"
    if "1 < len" using assms that by auto
  with True assms h show ?thesis
    by (auto simp: der_integer_def vec_get_def der_positive_def byte_sign_bit)
next
  case False
  then show ?thesis
    using assms by (auto simp: der_integer_def vec_get_def der_positive_def)
qed

lemma IsValidSignatureEncoding_Inr:
  "IsValidSignatureEncoding sig = (Inr True :: ('e, bool) exec) \<longleftrightarrow>
     9 \<le> length sig \<and> length sig \<le> 73 \<and> sig ! 0 = 0x30 \<and> unat (sig ! 1) = length sig - 3 \<and>
     (let lenR = unat (sig ! 3); lenS = unat (sig ! (5 + lenR)) in
      5 + lenR < length sig \<and> lenR + lenS + 7 = length sig \<and>
      sig ! 2 = 0x02 \<and> der_positive (take lenR (drop 4 sig)) \<and>
      sig ! (lenR + 4) = 0x02 \<and> der_positive (take lenS (drop (lenR + 6) sig)))"
proof (cases "9 \<le> length sig")
  case l: True
  let ?R = "unat (sig ! 3)"
  let ?S = "unat (sig ! (5 + ?R))"
  show ?thesis
  proof (cases "5 + ?R < length sig \<and> ?R + ?S + 7 = length sig")
    case True
    have "der_integer sig 2 4 ?R =
        (Inr (sig ! 2 = 0x02 \<and> der_positive (take ?R (drop 4 sig))) :: ('e, bool) exec)"
      using True l by (intro der_integer_eq) auto
    moreover have "der_integer sig (?R + 4) (?R + 6) ?S =
        (Inr (sig ! (?R + 4) = 0x02 \<and> der_positive (take ?S (drop (?R + 6) sig))) :: ('e, bool) exec)"
      using True l by (intro der_integer_eq) auto
    ultimately show ?thesis
      using True l by (auto simp: IsValidSignatureEncoding_def vec_get_def Let_def)
  next
    case False
    then show ?thesis
      using l by (auto simp: IsValidSignatureEncoding_def vec_get_def Let_def)
  qed
qed (simp add: IsValidSignatureEncoding_def)

lemma der_grammar:
  "IsValidSignatureEncoding sig = Inr True \<longleftrightarrow>
     (\<exists>R S hashtype. sig = der_signature R S hashtype \<and> length sig \<le> 73 \<and>
        der_positive R \<and> der_positive S)"
proof
  assume v: "IsValidSignatureEncoding sig = Inr True"
  define lR lS where "lR = unat (sig ! 3)" and "lS = unat (sig ! (5 + lR))"
  have f: "9 \<le> length sig" "length sig \<le> 73" "sig ! 0 = 0x30" "unat (sig ! 1) = length sig - 3"
    "5 + lR < length sig" "lR + lS + 7 = length sig" "sig ! 2 = 0x02"
    "der_positive (take lR (drop 4 sig))" "sig ! (lR + 4) = 0x02"
    "der_positive (take lS (drop (lR + 6) sig))"
    using v unfolding IsValidSignatureEncoding_Inr Let_def lR_def [symmetric] lS_def [symmetric] by auto
  let ?R = "take lR (drop 4 sig)" and ?S = "take lS (drop (lR + 6) sig)"
  have len: "length ?R = lR" "length ?S = lS" using f by auto
  have "sig = take 4 sig @ ?R @ take 2 (drop (lR + 4) sig) @ ?S @ drop (lR + lS + 6) sig"
  proof -
    have "drop 4 sig = ?R @ drop (lR + 4) sig" by (metis append_take_drop_id drop_drop)
    moreover have "drop (lR + 4) sig = take 2 (drop (lR + 4) sig) @ drop (lR + 6) sig"
      using append_take_drop_id [of 2 "drop (lR + 4) sig"] by (simp add: add.commute)
    moreover have "drop (lR + 6) sig = ?S @ drop (lR + lS + 6) sig"
      using append_take_drop_id [of lS "drop (lR + 6) sig"] by (simp add: ac_simps)
    ultimately show ?thesis by (metis append_take_drop_id)
  qed
  moreover have "take 4 sig = [0x30, of_nat (lR + lS + 4), 0x02, of_nat lR]"
  proof (rule nth_equalityI)
    show "length (take 4 sig) = length [0x30 :: byte, of_nat (lR + lS + 4), 0x02, of_nat lR]"
      using f(1) by simp
    have "of_nat (lR + lS + 4) = sig ! 1"
    proof -
      have "lR + lS + 4 = unat (sig ! 1)" using f(4,6) by simp
      then show ?thesis by simp
    qed
    moreover have "of_nat lR = sig ! 3" by (simp add: lR_def)
    ultimately show "take 4 sig ! i = [0x30, of_nat (lR + lS + 4), 0x02, of_nat lR] ! i"
      if "i < length (take 4 sig)" for i
      using that f(3,7) by (auto simp: less_Suc_eq numeral_eq_Suc)
  qed
  moreover have "take 2 (drop (lR + 4) sig) = [0x02, of_nat lS]"
  proof (rule nth_equalityI)
    show "length (take 2 (drop (lR + 4) sig)) = length [0x02 :: byte, of_nat lS]"
      using f(5) by simp
    show "take 2 (drop (lR + 4) sig) ! i = [0x02, of_nat lS] ! i"
      if "i < length (take 2 (drop (lR + 4) sig))" for i
      using that f(5,9) by (auto simp: less_2_cases_iff lS_def add.commute)
  qed
  moreover have "drop (lR + lS + 6) sig = [last sig]"
  proof -
    have "drop (lR + lS + 6) sig = [sig ! (lR + lS + 6)]"
      using f(6) Cons_nth_drop_Suc [of "lR + lS + 6" sig] by simp
    moreover have "last sig = sig ! (lR + lS + 6)"
    proof -
      have "length sig - 1 = lR + lS + 6" using f(6) by simp
      then show ?thesis using f(1) last_conv_nth [of sig] by fastforce
    qed
    ultimately show ?thesis by simp
  qed
  ultimately have "sig = der_signature ?R ?S (last sig)"
    unfolding der_signature_def len by metis
  then show "\<exists>R S hashtype. sig = der_signature R S hashtype \<and> length sig \<le> 73 \<and>
        der_positive R \<and> der_positive S"
    using f(2,8,10) by blast
next
  assume "\<exists>R S hashtype. sig = der_signature R S hashtype \<and> length sig \<le> 73 \<and>
        der_positive R \<and> der_positive S"
  then obtain R S hashtype where s: "sig = der_signature R S hashtype" and l: "length sig \<le> 73"
    and p: "der_positive R" "der_positive S" by blast
  have ne: "0 < length R" "0 < length S" using p by (auto simp: der_positive_def)
  have len: "length sig = length R + length S + 7" by (simp add: s der_signature_def)
  have b: "unat (of_nat (length R) :: byte) = length R" "unat (of_nat (length S) :: byte) = length S"
    "unat (of_nat (length R + length S + 4) :: byte) = length R + length S + 4"
    using l len by (simp_all add: unat_of_nat_byte del: of_nat_add of_nat_numeral)
  have n3: "sig ! 3 = of_nat (length R)" "sig ! 0 = 0x30" "sig ! 2 = 0x02"
    "sig ! 1 = of_nat (length R + length S + 4)"
    by (simp_all add: s der_signature_def)
  have nS: "sig ! (5 + length R) = of_nat (length S)" "sig ! (length R + 4) = 0x02"
    by (simp_all add: s der_signature_def nth_append)
  have "take (length R) (drop 4 sig) = R"
    by (simp add: s der_signature_def)
  moreover have "take (length S) (drop (length R + 6) sig) = S"
  proof -
    let ?X = "[0x30, of_nat (length R + length S + 4), 0x02, of_nat (length R)] @ R @ [0x02, of_nat (length S)]"
    have "sig = ?X @ S @ [hashtype]" by (simp add: s der_signature_def)
    moreover have "length R + 6 = length ?X" by simp
    ultimately have "drop (length R + 6) sig = S @ [hashtype]" by (metis append_eq_conv_conj)
    then show ?thesis by simp
  qed
  moreover have n9: "9 \<le> length sig" using len ne by linarith
  ultimately show "IsValidSignatureEncoding sig = Inr True"
    unfolding IsValidSignatureEncoding_Inr Let_def n3 b nS
    using l len p n9 by simp
qed

section \<open>Booleans\<close>

lemma scriptnum_val_zero: "scriptnum_val v = 0 \<longleftrightarrow> le_nat (butlast v @ [last v AND 0x7f]) = 0"
  by (simp add: scriptnum_val_def Let_def)

lemma CastToBool_iff: "CastToBool v \<longleftrightarrow> v \<noteq> [] \<and> scriptnum_val v \<noteq> 0"
proof (induction v)
  case (Cons b v)
  have "unat b mod 128 = 0 \<longleftrightarrow> b = 0 \<or> b = 0x80"
    by (auto simp: unat_byte_mod128 word_unat_eq_iff)
  then show ?case
    using Cons by (cases "v = []") (auto simp: scriptnum_val_zero unat_byte_low7 byte_zero_iff)
qed simp

section \<open>Property\<close>

text \<open>C4: a byte string passes \<open>IsValidSignatureEncoding\<close> exactly if it is a strict DER
  signature of two positive, minimally encoded integers followed by one hash type byte, of
  at most 73 bytes in all; the check never reads outside the string.\<close>

theorem der_encoding_iff:
  "IsValidSignatureEncoding sig \<noteq> Inl Abort \<and>
   (IsValidSignatureEncoding sig = Inr True \<longleftrightarrow>
     (\<exists>R S hashtype. sig = der_signature R S hashtype \<and> length sig \<le> 73 \<and>
        der_positive R \<and> der_positive S))"
  using IsValidSignatureEncoding_wp [of sig] der_grammar [of sig] by (simp add: exec_all_iff)

end
