(* ===== verification/Arith_Uint256.thy ===== *)
theory Arith_Uint256
  imports Prelude
begin

text \<open>
  256-bit unsigned integers: \<open>base_uint<256>\<close> and \<open>arith_uint256\<close> of
  src/src/arith_uint256.h and src/src/arith_uint256.cpp. A number is the array \<open>pn\<close> of
  its \<open>WIDTH = 8\<close> 32-bit limbs, least significant first; the loops over the limbs are
  recursions over this list or folds over its indices. The lemmas show that every
  operation computes the arithmetic function of the numbers modulo \<open>2^256\<close>.
\<close>

type_synonym arith_uint256 = "u32 list"

abbreviation (input) WIDTH :: nat where
  "WIDTH \<equiv> 8"

section \<open>Construction and bitwise operations\<close>

definition au_zero :: arith_uint256 where
  "au_zero = replicate WIDTH 0"

definition au_of_u64 :: "u64 \<Rightarrow> arith_uint256" where
  "au_of_u64 b = [ucast b, ucast (drop_bit 32 b)] @ replicate (WIDTH - 2) 0"

definition au_is_zero :: "arith_uint256 \<Rightarrow> bool" where
  "au_is_zero pn \<longleftrightarrow> (\<forall>x \<in> set pn. x = 0)"

definition au_not :: "arith_uint256 \<Rightarrow> arith_uint256" where
  "au_not pn = map (\<lambda>x. NOT x) pn"

definition au_xor :: "arith_uint256 \<Rightarrow> arith_uint256 \<Rightarrow> arith_uint256" where
  "au_xor a b = map2 (XOR) a b"

definition au_and :: "arith_uint256 \<Rightarrow> arith_uint256 \<Rightarrow> arith_uint256" where
  "au_and a b = map2 (AND) a b"

definition au_or :: "arith_uint256 \<Rightarrow> arith_uint256 \<Rightarrow> arith_uint256" where
  "au_or a b = map2 (OR) a b"

section \<open>Addition and subtraction\<close>

text \<open>The prefix operators stop at the first limb that does not wrap, or at the last limb.\<close>

fun au_inc :: "arith_uint256 \<Rightarrow> arith_uint256" where
  "au_inc [] = []"
| "au_inc [x] = [x + 1]"
| "au_inc (x # y # xs) = (if x + 1 = 0 then (x + 1) # au_inc (y # xs) else (x + 1) # y # xs)"

fun au_dec :: "arith_uint256 \<Rightarrow> arith_uint256" where
  "au_dec [] = []"
| "au_dec [x] = [x - 1]"
| "au_dec (x # y # xs) = (if x - 1 = - 1 then (x - 1) # au_dec (y # xs) else (x - 1) # y # xs)"

definition au_neg :: "arith_uint256 \<Rightarrow> arith_uint256" where
  "au_neg pn = au_inc (au_not pn)"

fun au_add_loop :: "u64 \<Rightarrow> arith_uint256 \<Rightarrow> arith_uint256 \<Rightarrow> arith_uint256" where
  "au_add_loop carry (x # xs) (y # ys) =
     (let n = carry + ucast x + ucast y
      in ucast (n AND 0xffffffff) # au_add_loop (drop_bit 32 n) xs ys)"
| "au_add_loop carry _ _ = []"

definition au_add :: "arith_uint256 \<Rightarrow> arith_uint256 \<Rightarrow> arith_uint256" where
  "au_add a b = au_add_loop 0 a b"

definition au_sub :: "arith_uint256 \<Rightarrow> arith_uint256 \<Rightarrow> arith_uint256" where
  "au_sub a b = au_add a (au_neg b)"

section \<open>Multiplication\<close>

fun au_mul32_loop :: "u64 \<Rightarrow> u32 \<Rightarrow> arith_uint256 \<Rightarrow> arith_uint256" where
  "au_mul32_loop carry b32 [] = []"
| "au_mul32_loop carry b32 (x # xs) =
     (let n = carry + ucast b32 * ucast x
      in ucast (n AND 0xffffffff) # au_mul32_loop (drop_bit 32 n) b32 xs)"

definition au_mul32 :: "arith_uint256 \<Rightarrow> u32 \<Rightarrow> arith_uint256" where
  "au_mul32 pn b32 = au_mul32_loop 0 b32 pn"

text \<open>The inner loop over \<open>i\<close> updates \<open>pn[i + j]\<close> until the end of the array.\<close>

fun au_mul_row :: "u64 \<Rightarrow> u32 \<Rightarrow> arith_uint256 \<Rightarrow> arith_uint256 \<Rightarrow> arith_uint256" where
  "au_mul_row carry aj (p # ps) (b # bs) =
     (let n = carry + ucast p + ucast aj * ucast b
      in ucast (n AND 0xffffffff) # au_mul_row (drop_bit 32 n) aj ps bs)"
| "au_mul_row carry aj _ _ = []"

definition au_mul :: "arith_uint256 \<Rightarrow> arith_uint256 \<Rightarrow> arith_uint256" where
  "au_mul a b =
     foldl (\<lambda>pn j. take j pn @ au_mul_row 0 (a ! j) (drop j pn) b) au_zero [0..<WIDTH]"

section \<open>Shifts\<close>

text \<open>One turn of the loop of \<open><<=\<close>: limb \<open>i\<close> is spread over two limbs of the result.\<close>

definition au_shl_step ::
    "arith_uint256 \<Rightarrow> nat \<Rightarrow> nat \<Rightarrow> arith_uint256 \<Rightarrow> nat \<Rightarrow> arith_uint256" where
  "au_shl_step a k s pn i =
     (let pn = (if i + k + 1 < WIDTH \<and> s \<noteq> 0
                then pn[i + k + 1 := pn ! (i + k + 1) OR drop_bit (32 - s) (a ! i)] else pn)
      in if i + k < WIDTH then pn[i + k := pn ! (i + k) OR push_bit s (a ! i)] else pn)"

definition au_shl :: "arith_uint256 \<Rightarrow> nat \<Rightarrow> arith_uint256" where
  "au_shl a shift = foldl (au_shl_step a (shift div 32) (shift mod 32)) au_zero [0..<WIDTH]"

definition au_shr_step ::
    "arith_uint256 \<Rightarrow> nat \<Rightarrow> nat \<Rightarrow> arith_uint256 \<Rightarrow> nat \<Rightarrow> arith_uint256" where
  "au_shr_step a k s pn i =
     (let pn = (if k + 1 \<le> i \<and> s \<noteq> 0
                then pn[i - k - 1 := pn ! (i - k - 1) OR push_bit (32 - s) (a ! i)] else pn)
      in if k \<le> i then pn[i - k := pn ! (i - k) OR drop_bit s (a ! i)] else pn)"

definition au_shr :: "arith_uint256 \<Rightarrow> nat \<Rightarrow> arith_uint256" where
  "au_shr a shift = foldl (au_shr_step a (shift div 32) (shift mod 32)) au_zero [0..<WIDTH]"

section \<open>Comparison and size\<close>

primrec au_cmp_from :: "arith_uint256 \<Rightarrow> arith_uint256 \<Rightarrow> nat \<Rightarrow> int" where
  "au_cmp_from a b 0 = 0"
| "au_cmp_from a b (Suc i) =
     (if a ! i < b ! i then - 1 else if b ! i < a ! i then 1 else au_cmp_from a b i)"

definition au_CompareTo :: "arith_uint256 \<Rightarrow> arith_uint256 \<Rightarrow> int" where
  "au_CompareTo a b = au_cmp_from a b WIDTH"

definition au_EqualTo :: "arith_uint256 \<Rightarrow> u64 \<Rightarrow> bool" where
  "au_EqualTo pn b \<longleftrightarrow>
     (\<forall>x \<in> set (drop 2 pn). x = 0) \<and> pn ! 1 = ucast (drop_bit 32 b) \<and>
     pn ! 0 = ucast (b AND 0xffffffff)"

primrec au_limb_bits :: "u32 \<Rightarrow> nat \<Rightarrow> nat" where
  "au_limb_bits x 0 = 1"
| "au_limb_bits x (Suc n) =
     (if x AND push_bit (Suc n) 1 \<noteq> 0 then Suc n + 1 else au_limb_bits x n)"

primrec au_bits_from :: "arith_uint256 \<Rightarrow> nat \<Rightarrow> nat" where
  "au_bits_from pn 0 = 0"
| "au_bits_from pn (Suc pos) =
     (if pn ! pos \<noteq> 0 then 32 * pos + au_limb_bits (pn ! pos) 31 else au_bits_from pn pos)"

definition au_bits :: "arith_uint256 \<Rightarrow> nat" where
  "au_bits pn = au_bits_from pn WIDTH"

definition au_GetLow64 :: "arith_uint256 \<Rightarrow> u64" where
  "au_GetLow64 pn = ucast (pn ! 0) OR push_bit 32 (ucast (pn ! 1))"

section \<open>Division\<close>

text \<open>The loop of the division runs from \<open>shift = n - 1\<close> down to zero.\<close>

primrec au_div_loop ::
    "nat \<Rightarrow> arith_uint256 \<Rightarrow> arith_uint256 \<Rightarrow> arith_uint256 \<Rightarrow> arith_uint256" where
  "au_div_loop 0 num dv q = q"
| "au_div_loop (Suc shift) num dv q =
     (if 0 \<le> au_CompareTo num dv
      then au_div_loop shift (au_sub num dv) (au_shr dv 1)
             (q[shift div 32 := q ! (shift div 32) OR push_bit (shift mod 32) 1])
      else au_div_loop shift num (au_shr dv 1) q)"

definition au_div :: "arith_uint256 \<Rightarrow> arith_uint256 \<Rightarrow> ('e, arith_uint256) exec" where
  "au_div a b =
     (let num_bits = au_bits a; div_bits = au_bits b in
      if div_bits = 0 then Inl Throw
      else if num_bits < div_bits then Inr au_zero
      else let shift = num_bits - div_bits
           in Inr (au_div_loop (Suc shift) a (au_shl b shift) au_zero))"

section \<open>The compact format\<close>

text \<open>\<open>SetCompact\<close> returns the number and the flags \<open>fNegative\<close> and \<open>fOverflow\<close>.\<close>

definition SetCompact :: "u32 \<Rightarrow> arith_uint256 \<times> bool \<times> bool" where
  "SetCompact nCompact =
     (let nSize = unat (drop_bit 24 nCompact);
          nWord = nCompact AND 0x007fffff;
          nWord = (if nSize \<le> 3 then drop_bit (8 * (3 - nSize)) nWord else nWord);
          v = (if nSize \<le> 3 then au_of_u64 (ucast nWord)
               else au_shl (au_of_u64 (ucast nWord)) (8 * (nSize - 3)))
      in (v, nWord \<noteq> 0 \<and> nCompact AND 0x00800000 \<noteq> 0,
          nWord \<noteq> 0 \<and> (34 < nSize \<or> (0xff < nWord \<and> 33 < nSize) \<or> (0xffff < nWord \<and> 32 < nSize))))"

definition GetCompact :: "arith_uint256 \<Rightarrow> bool \<Rightarrow> ('e, u32) exec" where
  "GetCompact pn fNegative =
     (let nSize = (au_bits pn + 7) div 8;
          nCompact = (if nSize \<le> 3 then ucast (push_bit (8 * (3 - nSize)) (au_GetLow64 pn))
                      else ucast (au_GetLow64 (au_shr pn (8 * (nSize - 3)))) :: u32);
          (nCompact, nSize) = (if nCompact AND 0x00800000 \<noteq> 0 then (drop_bit 8 nCompact, nSize + 1)
                               else (nCompact, nSize))
      in exec_bind (exec_assert (nCompact AND NOT 0x007fffff = 0)) (\<lambda>_.
         exec_bind (exec_assert (nSize < 256)) (\<lambda>_.
         let nCompact = nCompact OR push_bit 24 (of_nat nSize)
         in Inr (nCompact OR (if fNegative \<and> nCompact AND 0x007fffff \<noteq> 0 then 0x00800000 else 0)))))"

section \<open>Conversion to and from uint256\<close>

definition ArithToUint256 :: "arith_uint256 \<Rightarrow> bytes" where
  "ArithToUint256 pn = concat (map WriteLE32 pn)"

definition UintToArith256 :: "bytes \<Rightarrow> arith_uint256" where
  "UintToArith256 a = map (\<lambda>x. ReadLE32 (drop (4 * x) a)) [0..<WIDTH]"

section \<open>The number an array of limbs stands for\<close>

fun au_val :: "arith_uint256 \<Rightarrow> nat" where
  "au_val [] = 0"
| "au_val (x # xs) = unat x + 2 ^ 32 * au_val xs"

lemma u32_less: "unat (x :: u32) < 4294967296"
  using unsigned_less [of x, where ?'a = nat] by simp

lemma au_val_less: "au_val xs < 2 ^ (32 * length xs)"
proof (induction xs)
  case (Cons x xs)
  have "unat x + 2 ^ 32 * au_val xs < 2 ^ 32 + 2 ^ 32 * au_val xs" using u32_less [of x] by simp
  also have "\<dots> \<le> 2 ^ 32 * 2 ^ (32 * length xs)" using Cons by simp
  also have "\<dots> = 2 ^ (32 * length (x # xs))" by (simp add: power_add)
  finally show ?case by simp
qed simp

lemma au_val_append: "au_val (xs @ ys) = au_val xs + 2 ^ (32 * length xs) * au_val ys"
  by (induction xs) (auto simp: algebra_simps power_add)

lemma au_val_zeros [simp]: "au_val (replicate n 0) = 0" "au_val au_zero = 0"
proof -
  show z: "au_val (replicate n 0) = 0" for n by (induction n) auto
  show "au_val au_zero = 0" using z by (simp add: au_zero_def)
qed

lemma au_val_inj: "length xs = length ys \<Longrightarrow> au_val xs = au_val ys \<Longrightarrow> xs = ys"
proof (induction xs ys rule: list_induct2)
  case (Cons x xs y ys)
  have "unat x = unat y"
  proof -
    have "(unat x + 2 ^ 32 * au_val xs) mod 2 ^ 32 = (unat y + 2 ^ 32 * au_val ys) mod 2 ^ 32"
      using Cons by simp
    then show ?thesis using u32_less [of x] u32_less [of y] by simp
  qed
  moreover from this have "au_val xs = au_val ys" using Cons.prems by simp
  ultimately show ?case using Cons.IH by (simp add: word_unat_eq_iff)
qed simp

lemma au_val_zero_iff: "au_val xs = 0 \<longleftrightarrow> (\<forall>x \<in> set xs. x = 0)"
  by (induction xs) (auto simp: unat_eq_0)

lemma low32: "unat (ucast ((n :: u64) AND 0xffffffff) :: u32) = unat n mod 2 ^ 32"
proof -
  have "n AND 0xffffffff = take_bit 32 n"
    by (simp add: take_bit_eq_mask mask_eq_exp_minus_1)
  then have "unat (ucast (n AND 0xffffffff) :: u32) = unat (ucast n :: u32)"
    by (simp add: word_unat_eq_iff unsigned_ucast_eq unsigned_take_bit_eq)
  also have "\<dots> = unat n mod 2 ^ 32" by (simp add: unsigned_ucast_eq take_bit_eq_mod)
  finally show ?thesis .
qed

lemma high32: "unat (drop_bit 32 (n :: u64)) = unat n div 2 ^ 32"
  by (simp add: drop_bit_eq_div unat_div_distrib)

lemma carry_step:
  fixes n :: u64
  shows "unat (ucast (n AND 0xffffffff) :: u32) + 2 ^ 32 * unat (drop_bit 32 n) = unat n"
  unfolding low32 high32 by simp

lemma limb_combine:
  "0 < b \<Longrightarrow> (a :: nat) mod b + b * ((a div b + t) mod m) = (a + b * t) mod (b * m)"
  by (simp add: mod_mult2_eq add.commute)

lemma unat_ucast64 [simp]: "unat (ucast (x :: u32) :: u64) = unat x"
proof -
  have "unat x < 2 ^ 64" using u32_less [of x] by simp
  then show ?thesis by (simp add: unsigned_ucast_eq take_bit_nat_eq_self)
qed

lemma pow32: "(2 :: nat) ^ (32 * Suc n) = 2 ^ 32 * 2 ^ (32 * n)"
  by (simp add: power_add)

section \<open>Addition, subtraction and multiplication\<close>

lemma au_add_loop_val:
  "length xs = length ys \<Longrightarrow> unat c \<le> 1 \<Longrightarrow>
   length (au_add_loop c xs ys) = length xs \<and>
   au_val (au_add_loop c xs ys) = (unat c + au_val xs + au_val ys) mod 2 ^ (32 * length xs)"
proof (induction xs ys arbitrary: c rule: list_induct2)
  case (Cons x xs y ys)
  define n :: u64 where "n = c + ucast x + ucast y"
  have n: "unat n = unat c + unat x + unat y"
    using Cons.prems u32_less [of x] u32_less [of y]
    by (simp add: n_def unat_word_ariths)
  have c: "unat (drop_bit 32 n) \<le> 1"
    unfolding high32 using n Cons.prems u32_less [of x] u32_less [of y] by simp
  have l: "au_add_loop c (x # xs) (y # ys) = ucast (n AND 0xffffffff) # au_add_loop (drop_bit 32 n) xs ys"
    by (simp add: n_def Let_def)
  have "au_val (au_add_loop c (x # xs) (y # ys)) =
      unat n mod 2 ^ 32 + 2 ^ 32 * ((unat n div 2 ^ 32 + (au_val xs + au_val ys)) mod 2 ^ (32 * length xs))"
    unfolding l using Cons.IH [OF c] by (simp add: low32 high32 add.assoc)
  also have "\<dots> = (unat n + 2 ^ 32 * (au_val xs + au_val ys)) mod (2 ^ 32 * 2 ^ (32 * length xs))"
    by (rule limb_combine) simp
  also have "unat n + 2 ^ 32 * (au_val xs + au_val ys) = unat c + au_val (x # xs) + au_val (y # ys)"
    by (simp add: n algebra_simps)
  finally show ?case unfolding l using Cons.IH [OF c] by (simp add: power_add)
qed simp

lemma unat_inc32:
  "unat ((x :: u32) + 1) = (if x + 1 = 0 then 0 else unat x + 1)"
  "(x :: u32) + 1 = 0 \<Longrightarrow> unat x = 2 ^ 32 - 1"
proof -
  have m: "unat (x + 1) = (unat x + 1) mod 2 ^ 32" by (simp add: unat_word_ariths)
  have z: "x + 1 = 0 \<longleftrightarrow> unat (x + 1) = 0" by (simp add: unat_eq_0)
  have "unat x + 1 \<le> 2 ^ 32" using u32_less [of x] by simp
  then consider "unat x + 1 = 2 ^ 32" | "unat x + 1 < 2 ^ 32" by (auto simp only: le_less)
  then have "unat (x + 1) = (if x + 1 = 0 then 0 else unat x + 1) \<and>
      (x + 1 = 0 \<longrightarrow> unat x = 2 ^ 32 - 1)"
  proof cases
    case 1
    then show ?thesis unfolding z m by simp
  next
    case 2
    then show ?thesis unfolding z m by simp
  qed
  then show "unat (x + 1) = (if x + 1 = 0 then 0 else unat x + 1)"
    "x + 1 = 0 \<Longrightarrow> unat x = 2 ^ 32 - 1" by blast+
qed

lemma au_inc_val:
  "xs \<noteq> [] \<Longrightarrow> length (au_inc xs) = length xs \<and>
   au_val (au_inc xs) = (au_val xs + 1) mod 2 ^ (32 * length xs)"
proof (induction xs rule: au_inc.induct)
  case (2 x)
  then show ?case by (simp add: unat_word_ariths)
next
  case (3 x y xs)
  let ?V = "au_val (y # xs)" and ?M = "(2 :: nat) ^ (32 * length (y # xs))"
  show ?case
  proof (cases "x + 1 = 0")
    case True
    have "au_val (au_inc (x # y # xs)) = 2 ^ 32 * ((?V + 1) mod ?M)"
      using True 3 by simp
    also have "\<dots> = (2 ^ 32 * (?V + 1)) mod (2 ^ 32 * ?M)" by (simp only: mult_mod_right)
    also have "2 ^ 32 * (?V + 1) = au_val (x # y # xs) + 1"
      using unat_inc32(2) [OF True] by simp
    finally show ?thesis using True 3 by (simp add: power_add)
  next
    case False
    have "au_val (au_inc (x # y # xs)) = au_val (x # y # xs) + 1"
      using False by (simp add: unat_inc32)
    moreover have "au_val (au_inc (x # y # xs)) < 2 ^ (32 * length (x # y # xs))"
      using False au_val_less [of "(x + 1) # y # xs"] by simp
    ultimately show ?thesis using False by simp
  qed
qed simp

lemma au_not_val: "length (au_not xs) = length xs \<and> au_val (au_not xs) + au_val xs + 1 = 2 ^ (32 * length xs)"
proof (induction xs)
  case (Cons x xs)
  have "NOT x = - 1 - x" by (simp add: not_eq_complement)
  then have "unat (NOT x) = unat (- 1 :: u32) - unat x" by (simp only: unat_sub word_n1_ge)
  then have "unat (NOT x) = 2 ^ 32 - 1 - unat x" by (simp add: unsigned_minus_1_eq_mask mask_eq_exp_minus_1)
  then have "unat (NOT x) + unat x = 2 ^ 32 - 1" using u32_less [of x] by simp
  then show ?case using Cons by (simp add: au_not_def power_add algebra_simps)
qed (simp add: au_not_def)

lemma au_mul32_loop_val:
  "unat c < 2 ^ 32 \<Longrightarrow> length (au_mul32_loop c b xs) = length xs \<and>
   au_val (au_mul32_loop c b xs) = (unat c + unat b * au_val xs) mod 2 ^ (32 * length xs)"
proof (induction xs arbitrary: c)
  case (Cons x xs)
  define n :: u64 where "n = c + ucast b * ucast x"
  have bx: "unat b * unat x \<le> (2 ^ 32 - 1) * (2 ^ 32 - 1)"
    using u32_less [of b] u32_less [of x] by (intro mult_le_mono) simp_all
  have n: "unat n = unat c + unat b * unat x"
    using Cons.prems bx by (simp add: n_def unat_word_ariths)
  have c: "unat (drop_bit 32 n) < 2 ^ 32"
    unfolding high32 using n Cons.prems bx by simp
  have l: "au_mul32_loop c b (x # xs) = ucast (n AND 0xffffffff) # au_mul32_loop (drop_bit 32 n) b xs"
    by (simp add: n_def Let_def)
  have "au_val (au_mul32_loop c b (x # xs)) =
      unat n mod 2 ^ 32 + 2 ^ 32 * ((unat n div 2 ^ 32 + unat b * au_val xs) mod 2 ^ (32 * length xs))"
    unfolding l using Cons.IH [OF c] by (simp add: low32 high32)
  also have "\<dots> = (unat n + 2 ^ 32 * (unat b * au_val xs)) mod (2 ^ 32 * 2 ^ (32 * length xs))"
    by (rule limb_combine) simp
  also have "unat n + 2 ^ 32 * (unat b * au_val xs) = unat c + unat b * au_val (x # xs)"
    by (simp add: n algebra_simps)
  finally show ?case unfolding l using Cons.IH [OF c] by (simp add: power_add)
qed simp

lemma au_mul_row_val:
  "unat c < 2 ^ 32 \<Longrightarrow> length ps \<le> length bs \<Longrightarrow> length (au_mul_row c aj ps bs) = length ps \<and>
   au_val (au_mul_row c aj ps bs) =
     (unat c + au_val ps + unat aj * au_val (take (length ps) bs)) mod 2 ^ (32 * length ps)"
proof (induction ps arbitrary: c bs)
  case (Cons p ps)
  obtain b bs' where bs: "bs = b # bs'" using Cons.prems by (cases bs) auto
  define n :: u64 where "n = c + ucast p + ucast aj * ucast b"
  have ab: "unat aj * unat b \<le> (2 ^ 32 - 1) * (2 ^ 32 - 1)"
    using u32_less [of b] u32_less [of aj] by (intro mult_le_mono) simp_all
  have n: "unat n = unat c + unat p + unat aj * unat b"
    using Cons.prems(1) ab u32_less [of p] by (simp add: n_def unat_word_ariths)
  have c: "unat (drop_bit 32 n) < 2 ^ 32"
    unfolding high32 using n Cons.prems(1) ab u32_less [of p] by simp
  have l: "au_mul_row c aj (p # ps) bs = ucast (n AND 0xffffffff) # au_mul_row (drop_bit 32 n) aj ps bs'"
    by (simp add: n_def Let_def bs)
  let ?t = "au_val ps + unat aj * au_val (take (length ps) bs')"
  have IH: "length (au_mul_row (drop_bit 32 n) aj ps bs') = length ps"
    "au_val (au_mul_row (drop_bit 32 n) aj ps bs') = (unat n div 2 ^ 32 + ?t) mod 2 ^ (32 * length ps)"
    using Cons.IH [OF c, of bs'] Cons.prems(2) bs by (simp_all add: high32 add.assoc)
  have "au_val (au_mul_row c aj (p # ps) bs) =
      unat n mod 2 ^ 32 + 2 ^ 32 * ((unat n div 2 ^ 32 + ?t) mod 2 ^ (32 * length ps))"
    unfolding l using IH by (simp add: low32)
  also have "\<dots> = (unat n + 2 ^ 32 * ?t) mod (2 ^ 32 * 2 ^ (32 * length ps))"
    by (rule limb_combine) simp
  also have "unat n + 2 ^ 32 * ?t = unat c + au_val (p # ps) + unat aj * au_val (take (length (p # ps)) bs)"
    by (simp add: n bs algebra_simps)
  finally show ?case unfolding l using IH by (simp add: power_add)
qed simp

lemma low_combine: "(r :: nat) < B \<Longrightarrow> r + B * (t mod m) = (r + B * t) mod (B * m)"
  using limb_combine [of B r t m] by simp

lemma au_mul_fold:
  assumes "length a = WIDTH" "length b = WIDTH" "j \<le> WIDTH"
  defines "pn \<equiv> foldl (\<lambda>pn j. take j pn @ au_mul_row 0 (a ! j) (drop j pn) b) au_zero [0..<j]"
  shows "length pn = WIDTH \<and> au_val pn = (au_val (take j a) * au_val b) mod 2 ^ 256"
  using assms(3) unfolding pn_def
proof (induction j)
  case 0
  then show ?case by (simp add: au_zero_def)
next
  case (Suc j)
  define q where "q = foldl (\<lambda>pn j. take j pn @ au_mul_row 0 (a ! j) (drop j pn) b) au_zero [0..<j]"
  have j: "j < 8" and q: "length q = 8" "au_val q = (au_val (take j a) * au_val b) mod 2 ^ 256"
    using Suc unfolding q_def by auto
  let ?B = "(2 :: nat) ^ (32 * j)" and ?m = "(2 :: nat) ^ (32 * (8 - j))"
  let ?lo = "au_val (take (8 - j) b)" and ?hi = "au_val (drop (8 - j) b)"
  let ?aj = "unat (a ! j)"
  have row: "length (au_mul_row 0 (a ! j) (drop j q) b) = 8 - j"
    "au_val (au_mul_row 0 (a ! j) (drop j q) b) = (au_val (drop j q) + ?aj * ?lo) mod ?m"
    using au_mul_row_val [of 0 "drop j q" b "a ! j"] q(1) assms(2) by simp_all
  have Bm: "?B * ?m = 2 ^ 256"
  proof -
    have "32 * j + 32 * (8 - j) = 256" using j by simp
    then show ?thesis unfolding power_add [symmetric] by (simp only:)
  qed
  have vb: "au_val b = ?lo + ?m * ?hi"
    using au_val_append [of "take (8 - j) b" "drop (8 - j) b"] assms(2) j by simp
  have va: "au_val (take (Suc j) a) = au_val (take j a) + ?B * ?aj"
    using au_val_append [of "take j a" "[a ! j]"] assms(1) j by (simp add: take_Suc_conv_app_nth)
  have vq: "au_val (take j q) + ?B * au_val (drop j q) = au_val q"
    using au_val_append [of "take j q" "drop j q"] q(1) j by simp
  have lt: "au_val (take j q) < ?B" using au_val_less [of "take j q"] q(1) j by simp
  let ?P = "take j q @ au_mul_row 0 (a ! j) (drop j q) b"
  have "au_val ?P = au_val (take j q) + ?B * ((au_val (drop j q) + ?aj * ?lo) mod ?m)"
    using row q(1) j by (simp add: au_val_append)
  also have "\<dots> = (au_val q + ?B * (?aj * ?lo)) mod 2 ^ 256"
    unfolding low_combine [OF lt] Bm vq [symmetric] by (simp add: algebra_simps)
  also have "\<dots> = (au_val (take j a) * au_val b + ?B * (?aj * ?lo)) mod 2 ^ 256"
    unfolding q(2) by (rule mod_add_left_eq)
  also have "\<dots> = (au_val (take j a) * au_val b + ?B * (?aj * ?lo) + (?B * ?m) * (?aj * ?hi)) mod 2 ^ 256"
    unfolding Bm by simp
  also have "au_val (take j a) * au_val b + ?B * (?aj * ?lo) + (?B * ?m) * (?aj * ?hi) =
      au_val (take (Suc j) a) * au_val b"
    unfolding va by (simp add: vb algebra_simps)
  finally show ?case using row q(1) j by (simp add: q_def)
qed

lemma au_mul_val:
  assumes "length a = WIDTH" "length b = WIDTH"
  shows "length (au_mul a b) = WIDTH \<and> au_val (au_mul a b) = (au_val a * au_val b) mod 2 ^ 256"
  using au_mul_fold [OF assms order_refl] assms(1) unfolding au_mul_def by simp

section \<open>Values of the shifts\<close>

lemma length_au_shl_step [simp]: "length (au_shl_step a k s pn i) = length pn"
  "length (au_shr_step a k s pn i) = length pn"
  by (simp_all add: au_shl_step_def au_shr_step_def Let_def)

lemma length_au_shift_fold [simp]:
  "length (foldl (au_shl_step a k s) pn is) = length pn"
  "length (foldl (au_shr_step a k s) pn is) = length pn"
  by (induction "is" arbitrary: pn) simp_all

lemma au_shl_limbs:
  "m \<le> WIDTH \<Longrightarrow> t < WIDTH \<Longrightarrow> foldl (au_shl_step a k s) au_zero [0..<m] ! t =
     (if k \<le> t \<and> t - k < m then push_bit s (a ! (t - k)) else 0) OR
     (if k + 1 \<le> t \<and> t - k - 1 < m \<and> s \<noteq> 0 then drop_bit (32 - s) (a ! (t - k - 1)) else 0)"
proof (induction m)
  case 0
  then show ?case by (simp add: au_zero_def)
next
  case (Suc m)
  define q where "q = foldl (au_shl_step a k s) au_zero [0..<m]"
  have l: "length q = 8" by (simp add: q_def au_zero_def)
  have q: "q ! t = (if k \<le> t \<and> t - k < m then push_bit s (a ! (t - k)) else 0) OR
     (if k + 1 \<le> t \<and> t - k - 1 < m \<and> s \<noteq> 0 then drop_bit (32 - s) (a ! (t - k - 1)) else 0)"
    using Suc unfolding q_def by simp
  have st: "foldl (au_shl_step a k s) au_zero [0..<Suc m] = au_shl_step a k s q m"
    by (simp add: q_def)
  consider "t = m + k" | "t = m + k + 1" | "t \<noteq> m + k" "t \<noteq> m + k + 1" by blast
  then show ?case
    unfolding st
  proof cases
    case 1
    then show "au_shl_step a k s q m ! t =
     (if k \<le> t \<and> t - k < Suc m then push_bit s (a ! (t - k)) else 0) OR
     (if k + 1 \<le> t \<and> t - k - 1 < Suc m \<and> s \<noteq> 0 then drop_bit (32 - s) (a ! (t - k - 1)) else 0)"
      using Suc.prems l q by (auto simp: au_shl_step_def Let_def or.commute)
  next
    case 2
    then show "au_shl_step a k s q m ! t =
     (if k \<le> t \<and> t - k < Suc m then push_bit s (a ! (t - k)) else 0) OR
     (if k + 1 \<le> t \<and> t - k - 1 < Suc m \<and> s \<noteq> 0 then drop_bit (32 - s) (a ! (t - k - 1)) else 0)"
      using Suc.prems l q by (auto simp: au_shl_step_def Let_def)
  next
    case 3
    then show "au_shl_step a k s q m ! t =
     (if k \<le> t \<and> t - k < Suc m then push_bit s (a ! (t - k)) else 0) OR
     (if k + 1 \<le> t \<and> t - k - 1 < Suc m \<and> s \<noteq> 0 then drop_bit (32 - s) (a ! (t - k - 1)) else 0)"
      using Suc.prems l q by (auto simp: au_shl_step_def Let_def less_Suc_eq)
  qed
qed

lemma au_shr_limbs:
  "m \<le> WIDTH \<Longrightarrow> t < WIDTH \<Longrightarrow> foldl (au_shr_step a k s) au_zero [0..<m] ! t =
     (if t + k < m then drop_bit s (a ! (t + k)) else 0) OR
     (if t + k + 1 < m \<and> s \<noteq> 0 then push_bit (32 - s) (a ! (t + k + 1)) else 0)"
proof (induction m)
  case 0
  then show ?case by (simp add: au_zero_def)
next
  case (Suc m)
  define q where "q = foldl (au_shr_step a k s) au_zero [0..<m]"
  have l: "length q = 8" by (simp add: q_def au_zero_def)
  have q: "q ! t = (if t + k < m then drop_bit s (a ! (t + k)) else 0) OR
     (if t + k + 1 < m \<and> s \<noteq> 0 then push_bit (32 - s) (a ! (t + k + 1)) else 0)"
    using Suc unfolding q_def by simp
  have st: "foldl (au_shr_step a k s) au_zero [0..<Suc m] = au_shr_step a k s q m"
    by (simp add: q_def)
  consider "t + k = m" | "t + k + 1 = m" | "t + k \<noteq> m" "t + k + 1 \<noteq> m" by blast
  then show ?case
    unfolding st
  proof cases
    case 1
    then show "au_shr_step a k s q m ! t =
     (if t + k < Suc m then drop_bit s (a ! (t + k)) else 0) OR
     (if t + k + 1 < Suc m \<and> s \<noteq> 0 then push_bit (32 - s) (a ! (t + k + 1)) else 0)"
      using Suc.prems l q by (auto simp: au_shr_step_def Let_def)
  next
    case 2
    then show "au_shr_step a k s q m ! t =
     (if t + k < Suc m then drop_bit s (a ! (t + k)) else 0) OR
     (if t + k + 1 < Suc m \<and> s \<noteq> 0 then push_bit (32 - s) (a ! (t + k + 1)) else 0)"
      using Suc.prems l q by (auto simp: au_shr_step_def Let_def)
  next
    case 3
    then show "au_shr_step a k s q m ! t =
     (if t + k < Suc m then drop_bit s (a ! (t + k)) else 0) OR
     (if t + k + 1 < Suc m \<and> s \<noteq> 0 then push_bit (32 - s) (a ! (t + k + 1)) else 0)"
      using Suc.prems l q by (auto simp: au_shr_step_def Let_def less_Suc_eq nth_list_update)
  qed
qed

text \<open>Numbers and limb arrays agree bit by bit.\<close>

lemma bit_unat32: "bit (unat (x :: u32)) n \<longleftrightarrow> n < 32 \<and> bit x n"
  using bit_imp_le_length [of x n] by (auto simp: bit_unsigned_iff)

lemma bit_au_val: "bit (au_val xs) n \<longleftrightarrow> n div 32 < length xs \<and> bit (xs ! (n div 32)) (n mod 32)"
proof (induction xs arbitrary: n)
  case (Cons x xs)
  have d: "au_val (x # xs) = push_bit 32 (au_val xs) OR unat x"
  proof -
    have "push_bit 32 (au_val xs) AND unat x = 0"
    proof (rule bit_eqI)
      fix n
      show "bit (push_bit 32 (au_val xs) AND unat x) n \<longleftrightarrow> bit (0 :: nat) n"
        by (auto simp: bit_unat32 bit_push_bit_iff bit_and_iff)
    qed
    then have "push_bit 32 (au_val xs) + unat x = push_bit 32 (au_val xs) OR unat x"
      by (rule disjunctive_add_eq_or)
    then show ?thesis by (simp add: push_bit_eq_mult mult.commute add.commute)
  qed
  show ?case
  proof (cases "n < 32")
    case True
    then show ?thesis unfolding d by (simp add: bit_or_iff bit_push_bit_iff bit_unat32)
  next
    case False
    then have "n div 32 = Suc ((n - 32) div 32)" "n mod 32 = (n - 32) mod 32"
      by (simp_all add: le_div_geq le_mod_geq)
    moreover have "\<not> bit (unat x) n" using False by (simp add: bit_unat32)
    ultimately show ?thesis using False Cons.IH [of "n - 32"]
      unfolding d by (simp add: bit_or_iff bit_push_bit_iff)
  qed
qed simp


lemma div_mod32I: "n = 32 * q + r \<Longrightarrow> r < 32 \<Longrightarrow> n div 32 = q \<and> n mod 32 = r" for n :: nat
  by simp

lemma shift_index:
  fixes n k :: nat
  assumes "k \<le> n"
  shows "(n - k) div 32 = (if k mod 32 \<le> n mod 32 then n div 32 - k div 32 else n div 32 - k div 32 - 1)"
    and "(n - k) mod 32 = (if k mod 32 \<le> n mod 32 then n mod 32 - k mod 32 else 32 + n mod 32 - k mod 32)"
    and "k div 32 \<le> n div 32" and "\<not> k mod 32 \<le> n mod 32 \<Longrightarrow> k div 32 < n div 32"
proof -
  define t r K s where "t = n div 32" and "r = n mod 32" and "K = k div 32" and "s = k mod 32"
  have n: "n = 32 * t + r" and k: "k = 32 * K + s" and b: "r < 32" "s < 32"
    by (simp_all add: t_def r_def K_def s_def)
  have le: "K \<le> t" using assms n k b by linarith
  have lt: "K < t" if "\<not> s \<le> r" using assms n k b that by linarith
  have "(n - k) div 32 = (if s \<le> r then t - K else t - K - 1) \<and>
        (n - k) mod 32 = (if s \<le> r then r - s else 32 + r - s)"
  proof (cases "s \<le> r")
    case True
    then have "n - k = 32 * (t - K) + (r - s)" "r - s < 32" using n k b le by auto
    then show ?thesis using True by (simp only: if_True div_mod32I)
  next
    case False
    then have "n - k = 32 * (t - K - 1) + (32 + r - s)" "32 + r - s < 32" using n k b lt by auto
    then show ?thesis using False by (simp only: if_False div_mod32I)
  qed
  then show "(n - k) div 32 = (if k mod 32 \<le> n mod 32 then n div 32 - k div 32 else n div 32 - k div 32 - 1)"
    and "(n - k) mod 32 = (if k mod 32 \<le> n mod 32 then n mod 32 - k mod 32 else 32 + n mod 32 - k mod 32)"
    unfolding t_def r_def K_def s_def by simp_all
  show "k div 32 \<le> n div 32" using le unfolding t_def K_def .
  show "\<not> k mod 32 \<le> n mod 32 \<Longrightarrow> k div 32 < n div 32" using lt unfolding t_def r_def K_def s_def .
qed

lemma au_shl_val:
  assumes "length a = WIDTH"
  shows "au_val (au_shl a k) = (au_val a * 2 ^ k) mod 2 ^ 256"
proof -
  have "bit (au_val (au_shl a k)) n \<longleftrightarrow> bit (take_bit 256 (push_bit k (au_val a))) n" for n
  proof (cases "n < 256")
    case True
    define t r where "t = n div 32" and "r = n mod 32"
    have t: "t < WIDTH" using True by (simp add: t_def less_mult_imp_div_less)
    have r: "r < 32" by (simp add: r_def)
    have l: "au_shl a k ! t =
     (if k div 32 \<le> t then push_bit (k mod 32) (a ! (t - k div 32)) else 0) OR
     (if k div 32 + 1 \<le> t \<and> k mod 32 \<noteq> 0 then drop_bit (32 - k mod 32) (a ! (t - k div 32 - 1)) else 0)"
      using t by (auto simp: au_shl_def au_shl_limbs)
    have b: "bit (au_val (au_shl a k)) n \<longleftrightarrow> bit (au_shl a k ! t) r"
      using t by (simp add: bit_au_val t_def r_def au_shl_def au_zero_def)
    have c: "bit (take_bit 256 (push_bit k (au_val a))) n \<longleftrightarrow>
        k \<le> n \<and> (n - k) div 32 < WIDTH \<and> bit (a ! ((n - k) div 32)) ((n - k) mod 32)"
      using True assms by (simp add: bit_take_bit_iff bit_push_bit_iff bit_au_val)
    show ?thesis
    proof (cases "k \<le> n")
      case True
      note ix = shift_index [OF this, folded t_def r_def]
      show ?thesis
      proof (cases "k mod 32 \<le> r")
        case le: True
        have "\<not> bit (a ! (t - k div 32 - 1)) (32 - k mod 32 + r)" if "k mod 32 \<noteq> 0"
          using bit_imp_le_length [of "a ! (t - k div 32 - 1)" "32 - k mod 32 + r"] le by auto
        moreover have "t - k div 32 < WIDTH" using t by linarith
        ultimately show ?thesis using le ix t r True \<open>n < 256\<close> assms
          unfolding b c l by (auto simp: bit_or_iff bit_push_bit_iff bit_drop_bit_eq)
      next
        case gt: False
        have "32 - k mod 32 + r = 32 + r - k mod 32" by simp
        moreover have "t - k div 32 - 1 < WIDTH" using t by linarith
        ultimately show ?thesis using gt ix(1,2,3) ix(4) [OF gt] t r True \<open>n < 256\<close> assms
          unfolding b c l by (auto simp: bit_or_iff bit_push_bit_iff bit_drop_bit_eq)
      qed
    next
      case False
      then have "t < k div 32 \<or> t = k div 32 \<and> r < k mod 32"
        using div_mult_mod_eq [of n 32] div_mult_mod_eq [of k 32] r unfolding t_def r_def by linarith
      then show ?thesis using False
        unfolding b c l by (auto simp: bit_or_iff bit_push_bit_iff)
    qed
  next
    case False
    then have "\<not> n div 32 < WIDTH" using div_le_mono [of 256 n 32] by simp
    then show ?thesis using False by (simp add: bit_au_val bit_take_bit_iff au_shl_def au_zero_def)
  qed
  then have "au_val (au_shl a k) = take_bit 256 (push_bit k (au_val a))" by (rule bit_eqI)
  then show ?thesis by (simp add: take_bit_eq_mod push_bit_eq_mult)
qed

lemma shift_index_up:
  fixes n k :: nat
  shows "(n + k) div 32 = (if n mod 32 + k mod 32 < 32 then n div 32 + k div 32 else n div 32 + k div 32 + 1)"
    and "(n + k) mod 32 = (if n mod 32 + k mod 32 < 32 then n mod 32 + k mod 32 else n mod 32 + k mod 32 - 32)"
proof -
  define t r K s where "t = n div 32" and "r = n mod 32" and "K = k div 32" and "s = k mod 32"
  have n: "n = 32 * t + r" and k: "k = 32 * K + s" and b: "r < 32" "s < 32"
    by (simp_all add: t_def r_def K_def s_def)
  have "(n + k) div 32 = (if r + s < 32 then t + K else t + K + 1) \<and>
        (n + k) mod 32 = (if r + s < 32 then r + s else r + s - 32)"
  proof (cases "r + s < 32")
    case True
    have "n + k = 32 * (t + K) + (r + s)" using n k by simp
    then show ?thesis using True by (simp only: if_True div_mod32I)
  next
    case False
    then have "n + k = 32 * (t + K + 1) + (r + s - 32)" "r + s - 32 < 32" using n k b by auto
    then show ?thesis using False by (simp only: if_False div_mod32I)
  qed
  then show "(n + k) div 32 = (if n mod 32 + k mod 32 < 32 then n div 32 + k div 32 else n div 32 + k div 32 + 1)"
    and "(n + k) mod 32 = (if n mod 32 + k mod 32 < 32 then n mod 32 + k mod 32 else n mod 32 + k mod 32 - 32)"
    unfolding t_def r_def K_def s_def by simp_all
qed

lemma au_shr_val:
  assumes "length a = WIDTH"
  shows "au_val (au_shr a k) = au_val a div 2 ^ k"
proof -
  have "bit (au_val (au_shr a k)) n \<longleftrightarrow> bit (drop_bit k (au_val a)) n" for n
  proof (cases "n < 256")
    case True
    define t r where "t = n div 32" and "r = n mod 32"
    have t: "t < WIDTH" using True by (simp add: t_def less_mult_imp_div_less)
    have r: "r < 32" by (simp add: r_def)
    have l: "au_shr a k ! t =
     (if t + k div 32 < WIDTH then drop_bit (k mod 32) (a ! (t + k div 32)) else 0) OR
     (if t + k div 32 + 1 < WIDTH \<and> k mod 32 \<noteq> 0 then push_bit (32 - k mod 32) (a ! (t + k div 32 + 1)) else 0)"
      using t by (simp add: au_shr_def au_shr_limbs)
    have b: "bit (au_val (au_shr a k)) n \<longleftrightarrow> bit (au_shr a k ! t) r"
      using t by (simp add: bit_au_val t_def r_def au_shr_def au_zero_def)
    note ix = shift_index_up [of n k, folded t_def r_def]
    have c: "bit (drop_bit k (au_val a)) n \<longleftrightarrow>
        (n + k) div 32 < WIDTH \<and> bit (a ! ((n + k) div 32)) ((n + k) mod 32)"
      using assms by (simp add: bit_drop_bit_eq bit_au_val add.commute)
    show ?thesis
    proof (cases "r + k mod 32 < 32")
      case True
      then show ?thesis using ix assms r
        unfolding b c l by (auto simp: bit_or_iff bit_push_bit_iff bit_drop_bit_eq add.commute)
    next
      case False
      then have "r - (32 - k mod 32) = r + k mod 32 - 32" "32 - k mod 32 \<le> r" "k mod 32 \<noteq> 0" using r by auto
      moreover have "\<not> bit (a ! (t + k div 32)) (k mod 32 + r)"
        using bit_imp_le_length [of "a ! (t + k div 32)" "k mod 32 + r"] False by auto
      ultimately show ?thesis using False ix assms r
        unfolding b c l by (auto simp: bit_or_iff bit_push_bit_iff bit_drop_bit_eq add.commute)
    qed
  next
    case False
    then have "\<not> n div 32 < WIDTH" "\<not> (n + k) div 32 < WIDTH"
      using div_le_mono [of 256 n 32] div_le_mono [of 256 "n + k" 32] by simp_all
    then show ?thesis using False assms
      by (simp add: bit_au_val bit_drop_bit_eq au_shr_def au_zero_def add.commute)
  qed
  then have "au_val (au_shr a k) = drop_bit k (au_val a)" by (rule bit_eqI)
  then show ?thesis by (simp add: drop_bit_eq_div)
qed

end
