(* ===== verification/Block_Index.thy ===== *)
theory Block_Index
  imports Block Arith_Uint256
begin

text \<open>
  The block index of src/src/chain.h and src/src/chain.cpp. Index entries are shared objects that
  point to each other, so they live in an explicit store: an address is a number, a pointer an
  optional address, and following the null pointer or a dangling one is \<open>Abort\<close>. The model has the
  statistics of the block files, positions on disk, the entries with their validity levels, ancestors
  by the skip list, the median of the last block times, the serialization of the entries, and the
  vector that holds the active chain. Loops over pointers that a broken index could make endless are
  partial functions, whose value \<open>None\<close> is not returning.
\<close>

section \<open>Block files and disk positions\<close>

record CBlockFileInfo =
  bf_nBlocks :: u32
  bf_nSize :: u32
  bf_nUndoSize :: u32
  bf_nHeightFirst :: u32
  bf_nHeightLast :: u32
  bf_nTimeFirst :: u64
  bf_nTimeLast :: u64

definition CBlockFileInfo_null :: CBlockFileInfo where
  "CBlockFileInfo_null =
     \<lparr>bf_nBlocks = 0, bf_nSize = 0, bf_nUndoSize = 0, bf_nHeightFirst = 0, bf_nHeightLast = 0,
      bf_nTimeFirst = 0, bf_nTimeLast = 0\<rparr>"

definition ser_CBlockFileInfo :: "CBlockFileInfo \<Rightarrow> bytes" where
  "ser_CBlockFileInfo f =
     WriteVarInt (bf_nBlocks f) @ WriteVarInt (bf_nSize f) @ WriteVarInt (bf_nUndoSize f) @
     WriteVarInt (bf_nHeightFirst f) @ WriteVarInt (bf_nHeightLast f) @
     WriteVarInt (bf_nTimeFirst f) @ WriteVarInt (bf_nTimeLast f)"

definition unser_CBlockFileInfo :: "('e, CBlockFileInfo) reader" where
  "unser_CBlockFileInfo s =
     exec_bind (ReadVarInt s) (\<lambda>(nBlocks, s).
     exec_bind (ReadVarInt s) (\<lambda>(size, s).
     exec_bind (ReadVarInt s) (\<lambda>(undo, s).
     exec_bind (ReadVarInt s) (\<lambda>(hf, s).
     exec_bind (ReadVarInt s) (\<lambda>(hl, s).
     exec_bind (ReadVarInt s) (\<lambda>(tf, s).
     exec_bind (ReadVarInt s) (\<lambda>(tl, s).
     Inr (\<lparr>bf_nBlocks = nBlocks, bf_nSize = size, bf_nUndoSize = undo, bf_nHeightFirst = hf,
           bf_nHeightLast = hl, bf_nTimeFirst = tf, bf_nTimeLast = tl\<rparr>, s))))))))"

definition AddBlock :: "CBlockFileInfo \<Rightarrow> u32 \<Rightarrow> u64 \<Rightarrow> CBlockFileInfo" where
  "AddBlock f nHeightIn nTimeIn =
     (let f = (if bf_nBlocks f = 0 \<or> bf_nHeightFirst f > nHeightIn then f\<lparr>bf_nHeightFirst := nHeightIn\<rparr> else f);
          f = (if bf_nBlocks f = 0 \<or> bf_nTimeFirst f > nTimeIn then f\<lparr>bf_nTimeFirst := nTimeIn\<rparr> else f);
          f = f\<lparr>bf_nBlocks := bf_nBlocks f + 1\<rparr>;
          f = (if nHeightIn > bf_nHeightLast f then f\<lparr>bf_nHeightLast := nHeightIn\<rparr> else f)
      in if nTimeIn > bf_nTimeLast f then f\<lparr>bf_nTimeLast := nTimeIn\<rparr> else f)"

text \<open>
  The variable-length format of a signed integer: the loop stops at once for a negative number, whose
  seven lowest bits are all that is written.
\<close>

definition WriteVarInt_int :: "int \<Rightarrow> bytes" where
  "WriteVarInt_int n = (if n < 0 then [word_of_int (n AND 0x7F)] else WriteVarInt (word_of_int n :: u32))"

definition ReadVarInt_int :: "('e, int) reader" where
  "ReadVarInt_int s = exec_bind (ReadVarInt s) (\<lambda>(n :: u32, s). Inr (sint n, s))"

record CDiskBlockPos =
  dp_nFile :: int
  dp_nPos :: u32

definition CDiskBlockPos_null :: CDiskBlockPos where
  "CDiskBlockPos_null = \<lparr>dp_nFile = - 1, dp_nPos = 0\<rparr>"

definition CDiskBlockPos_IsNull :: "CDiskBlockPos \<Rightarrow> bool" where
  "CDiskBlockPos_IsNull p \<longleftrightarrow> dp_nFile p = - 1"

definition ser_CDiskBlockPos :: "CDiskBlockPos \<Rightarrow> bytes" where
  "ser_CDiskBlockPos p = WriteVarInt_int (dp_nFile p) @ WriteVarInt (dp_nPos p)"

definition unser_CDiskBlockPos :: "('e, CDiskBlockPos) reader" where
  "unser_CDiskBlockPos s =
     exec_bind (ReadVarInt_int s) (\<lambda>(nFile, s).
     exec_bind (ReadVarInt s) (\<lambda>(nPos, s). Inr (\<lparr>dp_nFile = nFile, dp_nPos = nPos\<rparr>, s)))"

section \<open>Index entries\<close>

definition BLOCK_VALID_HEADER :: u32 where "BLOCK_VALID_HEADER = 1"
definition BLOCK_VALID_TREE :: u32 where "BLOCK_VALID_TREE = 2"
definition BLOCK_VALID_TRANSACTIONS :: u32 where "BLOCK_VALID_TRANSACTIONS = 3"
definition BLOCK_VALID_CHAIN :: u32 where "BLOCK_VALID_CHAIN = 4"
definition BLOCK_VALID_SCRIPTS :: u32 where "BLOCK_VALID_SCRIPTS = 5"
definition BLOCK_VALID_MASK :: u32 where
  "BLOCK_VALID_MASK =
     BLOCK_VALID_HEADER OR BLOCK_VALID_TREE OR BLOCK_VALID_TRANSACTIONS OR BLOCK_VALID_CHAIN OR BLOCK_VALID_SCRIPTS"
definition BLOCK_HAVE_DATA :: u32 where "BLOCK_HAVE_DATA = 8"
definition BLOCK_HAVE_UNDO :: u32 where "BLOCK_HAVE_UNDO = 16"
definition BLOCK_FAILED_VALID :: u32 where "BLOCK_FAILED_VALID = 32"
definition BLOCK_FAILED_CHILD :: u32 where "BLOCK_FAILED_CHILD = 64"
definition BLOCK_FAILED_MASK :: u32 where "BLOCK_FAILED_MASK = BLOCK_FAILED_VALID OR BLOCK_FAILED_CHILD"
definition BLOCK_ACTIVATES_UPGRADE :: u32 where "BLOCK_ACTIVATES_UPGRADE = 128"

type_synonym addr = nat

record CBlockIndex =
  phashBlock :: "bytes option"
  pprev :: "addr option"
  pskip :: "addr option"
  bi_nHeight :: int
  bi_nFile :: int
  nDataPos :: u32
  nUndoPos :: u32
  nChainWork :: arith_uint256
  bi_nTx :: u32
  nChainTx :: u32
  nStatus :: u32
  nCachedBranchId :: "u32 option"
  hashSproutAnchor :: bytes
  hashFinalSproutRoot :: bytes
  nSproutValue :: "int option"
  nChainSproutValue :: "int option"
  nSaplingValue :: int
  nChainSaplingValue :: "int option"
  bi_nVersion :: int
  bi_hashMerkleRoot :: bytes
  bi_hashFinalSaplingRoot :: bytes
  bi_nTime :: u32
  bi_nBits :: u32
  bi_nNonce :: bytes
  bi_nSolution :: bytes
  nSequenceId :: u32

definition CBlockIndex_null :: CBlockIndex where
  "CBlockIndex_null =
     \<lparr>phashBlock = None, pprev = None, pskip = None, bi_nHeight = 0, bi_nFile = 0, nDataPos = 0, nUndoPos = 0,
      nChainWork = au_zero, bi_nTx = 0, nChainTx = 0, nStatus = 0, nCachedBranchId = None,
      hashSproutAnchor = uint256_null, hashFinalSproutRoot = uint256_null, nSproutValue = None,
      nChainSproutValue = None, nSaplingValue = 0, nChainSaplingValue = None, bi_nVersion = 0,
      bi_hashMerkleRoot = uint256_null, bi_hashFinalSaplingRoot = uint256_null, bi_nTime = 0, bi_nBits = 0,
      bi_nNonce = uint256_null, bi_nSolution = [], nSequenceId = 0\<rparr>"

definition CBlockIndex_new :: "CBlockHeader \<Rightarrow> CBlockIndex" where
  "CBlockIndex_new block =
     CBlockIndex_null\<lparr>bi_nVersion := bh_nVersion block, bi_hashMerkleRoot := hashMerkleRoot block,
       bi_hashFinalSaplingRoot := hashFinalSaplingRoot block, bi_nTime := bh_nTime block,
       bi_nBits := bh_nBits block, bi_nNonce := bh_nNonce block, bi_nSolution := bh_nSolution block\<rparr>"

definition GetBlockPos :: "'a CBlockIndex_scheme \<Rightarrow> CDiskBlockPos" where
  "GetBlockPos b =
     (if nStatus b AND BLOCK_HAVE_DATA \<noteq> 0 then \<lparr>dp_nFile = bi_nFile b, dp_nPos = nDataPos b\<rparr>
      else CDiskBlockPos_null)"

definition GetUndoPos :: "'a CBlockIndex_scheme \<Rightarrow> CDiskBlockPos" where
  "GetUndoPos b =
     (if nStatus b AND BLOCK_HAVE_UNDO \<noteq> 0 then \<lparr>dp_nFile = bi_nFile b, dp_nPos = nUndoPos b\<rparr>
      else CDiskBlockPos_null)"

definition bi_GetBlockTime :: "'a CBlockIndex_scheme \<Rightarrow> int" where
  "bi_GetBlockTime b = uint (bi_nTime b)"

definition bi_GetBlockHash :: "'a CBlockIndex_scheme \<Rightarrow> ('e, bytes) exec" where
  "bi_GetBlockHash b = (case phashBlock b of None \<Rightarrow> Inl Abort | Some h \<Rightarrow> Inr h)"

definition IsValid :: "'a CBlockIndex_scheme \<Rightarrow> u32 \<Rightarrow> ('e, bool) exec" where
  "IsValid b nUpTo =
     exec_bind (exec_assert (nUpTo AND NOT BLOCK_VALID_MASK = 0)) (\<lambda>_.
     Inr (nStatus b AND BLOCK_FAILED_MASK = 0 \<and> nStatus b AND BLOCK_VALID_MASK \<ge> nUpTo))"

definition RaiseValidity :: "'a CBlockIndex_scheme \<Rightarrow> u32 \<Rightarrow> ('e, 'a CBlockIndex_scheme \<times> bool) exec" where
  "RaiseValidity b nUpTo =
     exec_bind (exec_assert (nUpTo AND NOT BLOCK_VALID_MASK = 0)) (\<lambda>_.
     Inr (if nStatus b AND BLOCK_FAILED_MASK \<noteq> 0 then (b, False)
          else if nStatus b AND BLOCK_VALID_MASK < nUpTo
          then (b\<lparr>nStatus := (nStatus b AND NOT BLOCK_VALID_MASK) OR nUpTo\<rparr>, True)
          else (b, False)))"

section \<open>The store and ancestors\<close>

type_synonym index_store = "addr \<Rightarrow> CBlockIndex option"

definition deref :: "('a \<Rightarrow> 'b option) \<Rightarrow> 'a option \<Rightarrow> ('e, 'b) exec" where
  "deref st p = (case Option.bind p st of None \<Rightarrow> Inl Abort | Some b \<Rightarrow> Inr b)"

definition bi_GetBlockHeader :: "index_store \<Rightarrow> CBlockIndex \<Rightarrow> ('e, CBlockHeader) exec" where
  "bi_GetBlockHeader st b =
     exec_bind (if pprev b = None then Inr uint256_null
                else exec_bind (deref st (pprev b)) bi_GetBlockHash) (\<lambda>prev.
     Inr \<lparr>bh_nVersion = bi_nVersion b, hashPrevBlock = prev, hashMerkleRoot = bi_hashMerkleRoot b,
          hashFinalSaplingRoot = bi_hashFinalSaplingRoot b, bh_nTime = bi_nTime b, bh_nBits = bi_nBits b,
          bh_nNonce = bi_nNonce b, bh_nSolution = bi_nSolution b\<rparr>)"

definition nMedianTimeSpan :: nat where
  "nMedianTimeSpan = 11"

primrec block_times :: "nat \<Rightarrow> index_store \<Rightarrow> addr option \<Rightarrow> ('e, int list) exec" where
  "block_times 0 st pindex = Inr []"
| "block_times (Suc i) st pindex =
     (if pindex = None then Inr []
      else exec_bind (deref st pindex) (\<lambda>b.
           exec_bind (block_times i st (pprev b)) (\<lambda>ts. Inr (bi_GetBlockTime b # ts))))"

definition GetMedianTimePast :: "index_store \<Rightarrow> addr \<Rightarrow> ('e, int) exec" where
  "GetMedianTimePast st pindex =
     exec_bind (block_times nMedianTimeSpan st (Some pindex)) (\<lambda>ts.
     let pmedian = sort (rev ts) in vec_get pmedian (length pmedian div 2))"

definition InvertLowestOne :: "int \<Rightarrow> int" where
  "InvertLowestOne n = n AND (n - 1)"

definition GetSkipHeight :: "int \<Rightarrow> int" where
  "GetSkipHeight height =
     (if height < 2 then 0
      else if height AND 1 \<noteq> 0 then InvertLowestOne (InvertLowestOne (height - 1)) + 1
      else InvertLowestOne height)"

lemma InvertLowestOne_bounds:
  assumes "0 \<le> n"
  shows "0 \<le> InvertLowestOne n" "InvertLowestOne n \<le> n" "0 < n \<Longrightarrow> InvertLowestOne n < n"
proof -
  show "0 \<le> InvertLowestOne n" using assms by (simp add: InvertLowestOne_def)
  show less: "InvertLowestOne n < n" if "0 < n"
    using AND_upper2 [of "n - 1" n] that by (simp add: InvertLowestOne_def)
  show "InvertLowestOne n \<le> n"
    using less assms by (cases "n = 0") (auto simp: InvertLowestOne_def)
qed

lemma GetSkipHeight_bounds:
  assumes "0 < h"
  shows "0 \<le> GetSkipHeight h" "GetSkipHeight h < h"
proof -
  note b = InvertLowestOne_bounds
  show "0 \<le> GetSkipHeight h" "GetSkipHeight h < h"
    using assms b(1) [of h] b(3) [of h] b(1) [of "InvertLowestOne (h - 1)"] b(1) [of "h - 1"]
      b(2) [of "InvertLowestOne (h - 1)"] b(3) [of "h - 1"]
    by (auto simp: GetSkipHeight_def)
qed

text \<open>
  The loop of \<open>GetAncestor\<close>. The test \<open>0 \<le> height\<close> is the early return of the function, repeated
  here so that the loop ends for every argument: the height walked to falls in every round.
\<close>

function ancestor_walk :: "index_store \<Rightarrow> int \<Rightarrow> addr \<Rightarrow> int \<Rightarrow> ('e, addr) exec" where
  "ancestor_walk st height pindexWalk heightWalk =
     (if 0 \<le> height \<and> height < heightWalk then
        (case st pindexWalk of
           None \<Rightarrow> Inl Abort
         | Some b \<Rightarrow>
             (let heightSkip = GetSkipHeight heightWalk;
                  heightSkipPrev = GetSkipHeight (heightWalk - 1) in
              case pskip b of
                Some s \<Rightarrow>
                  if heightSkip = height \<or>
                     (height < heightSkip \<and> \<not> (heightSkipPrev < heightSkip - 2 \<and> height \<le> heightSkipPrev))
                  then ancestor_walk st height s heightSkip
                  else (case pprev b of None \<Rightarrow> Inl Abort | Some p \<Rightarrow> ancestor_walk st height p (heightWalk - 1))
              | None \<Rightarrow>
                  (case pprev b of None \<Rightarrow> Inl Abort | Some p \<Rightarrow> ancestor_walk st height p (heightWalk - 1))))
      else Inr pindexWalk)"
  by pat_completeness auto
termination
  by (relation "measure (\<lambda>(st, height, pindexWalk, heightWalk). nat heightWalk)")
    (auto dest: GetSkipHeight_bounds [OF le_less_trans])

declare ancestor_walk.simps [simp del]

definition GetAncestor :: "index_store \<Rightarrow> addr \<Rightarrow> int \<Rightarrow> ('e, addr option) exec" where
  "GetAncestor st pindex height =
     exec_bind (deref st (Some pindex)) (\<lambda>b.
     if bi_nHeight b < height \<or> height < 0 then Inr None
     else exec_bind (ancestor_walk st height pindex (bi_nHeight b)) (\<lambda>p. Inr (Some p)))"

definition BuildSkip :: "index_store \<Rightarrow> CBlockIndex \<Rightarrow> ('e, CBlockIndex) exec" where
  "BuildSkip st b =
     (case pprev b of
        None \<Rightarrow> Inr b
      | Some p \<Rightarrow> exec_bind (GetAncestor st p (GetSkipHeight (bi_nHeight b))) (\<lambda>s. Inr (b\<lparr>pskip := s\<rparr>)))"

section \<open>Entries on disk\<close>

definition SER_NETWORK :: u32 where "SER_NETWORK = 1"
definition SER_DISK :: u32 where "SER_DISK = 2"
definition SER_GETHASH :: u32 where "SER_GETHASH = 4"

definition SPROUT_VALUE_VERSION :: int where "SPROUT_VALUE_VERSION = 1001400"
definition SAPLING_VALUE_VERSION :: int where "SAPLING_VALUE_VERSION = 2010100"

record CDiskBlockIndex = CBlockIndex +
  hashPrev :: bytes

definition CDiskBlockIndex_new :: "index_store \<Rightarrow> CBlockIndex \<Rightarrow> ('e, CDiskBlockIndex) exec" where
  "CDiskBlockIndex_new st b =
     exec_bind (if pprev b = None then Inr uint256_null
                else exec_bind (deref st (pprev b)) bi_GetBlockHash) (\<lambda>prev.
     Inr (CBlockIndex.extend b (CDiskBlockIndex.fields prev)))"

text \<open>
  The writer for a stream of type \<open>nType\<close> and version \<open>ver\<close>. The branch identifier must be there
  when the status says that the block activates an upgrade.
\<close>

definition ser_disk_header :: "CDiskBlockIndex \<Rightarrow> bytes" where
  "ser_disk_header d =
     ser_int32 (bi_nVersion d) @ ser_blob (hashPrev d) @ ser_blob (bi_hashMerkleRoot d) @
     ser_blob (bi_hashFinalSaplingRoot d) @ WriteLE32 (bi_nTime d) @ WriteLE32 (bi_nBits d) @
     ser_blob (bi_nNonce d) @ ser_bytes (bi_nSolution d)"

definition ser_CDiskBlockIndex :: "u32 \<Rightarrow> int \<Rightarrow> CDiskBlockIndex \<Rightarrow> ('e, bytes) exec" where
  "ser_CDiskBlockIndex nType ver d =
     exec_bind (if nStatus d AND BLOCK_ACTIVATES_UPGRADE \<noteq> 0
                then (case nCachedBranchId d of None \<Rightarrow> Inl Abort | Some branchId \<Rightarrow> Inr (WriteLE32 branchId))
                else Inr []) (\<lambda>branch.
     Inr ((if nType AND SER_GETHASH = 0 then WriteVarInt_int ver else []) @
          WriteVarInt_int (bi_nHeight d) @ WriteVarInt (nStatus d) @ WriteVarInt (bi_nTx d) @
          (if nStatus d AND (BLOCK_HAVE_DATA OR BLOCK_HAVE_UNDO) \<noteq> 0 then WriteVarInt_int (bi_nFile d) else []) @
          (if nStatus d AND BLOCK_HAVE_DATA \<noteq> 0 then WriteVarInt (nDataPos d) else []) @
          (if nStatus d AND BLOCK_HAVE_UNDO \<noteq> 0 then WriteVarInt (nUndoPos d) else []) @
          branch @ ser_blob (hashSproutAnchor d) @ ser_disk_header d @
          (if nType AND SER_DISK \<noteq> 0 \<and> SPROUT_VALUE_VERSION \<le> ver
           then ser_optional ser_int64 (nSproutValue d) else []) @
          (if nType AND SER_DISK \<noteq> 0 \<and> SAPLING_VALUE_VERSION \<le> ver
           then ser_int64 (nSaplingValue d) else [])))"

definition unser_disk_header :: "CDiskBlockIndex \<Rightarrow> ('e, CDiskBlockIndex) reader" where
  "unser_disk_header d s =
     exec_bind (unser_int32 s) (\<lambda>(nVersion, s).
     exec_bind (unser_blob 32 s) (\<lambda>(prev, s).
     exec_bind (unser_blob 32 s) (\<lambda>(merkle, s).
     exec_bind (unser_blob 32 s) (\<lambda>(sapling, s).
     exec_bind (ser_readdata32 s) (\<lambda>(nTime, s).
     exec_bind (ser_readdata32 s) (\<lambda>(nBits, s).
     exec_bind (unser_blob 32 s) (\<lambda>(nNonce, s).
     exec_bind (unser_bytes s) (\<lambda>(nSolution, s).
     Inr (d\<lparr>bi_nVersion := nVersion, hashPrev := prev, bi_hashMerkleRoot := merkle,
            bi_hashFinalSaplingRoot := sapling, bi_nTime := nTime, bi_nBits := nBits,
            bi_nNonce := nNonce, bi_nSolution := nSolution\<rparr>, s)))))))))"

definition read_if :: "bool \<Rightarrow> 'a \<Rightarrow> ('e, 'a) reader \<Rightarrow> ('e, 'a) reader" where
  "read_if b x r s = (if b then r s else Inr (x, s))"

text \<open>The reader fills a default-constructed entry.\<close>

definition unser_CDiskBlockIndex :: "u32 \<Rightarrow> int \<Rightarrow> ('e, CDiskBlockIndex) reader" where
  "unser_CDiskBlockIndex nType ver s =
     (let d = CBlockIndex.extend CBlockIndex_null (CDiskBlockIndex.fields uint256_null) in
     exec_bind (read_if (nType AND SER_GETHASH = 0) ver ReadVarInt_int s) (\<lambda>(ver, s).
     exec_bind (ReadVarInt_int s) (\<lambda>(height, s).
     exec_bind (ReadVarInt s) (\<lambda>(status, s).
     exec_bind (ReadVarInt s) (\<lambda>(nTx, s).
     exec_bind (read_if (status AND (BLOCK_HAVE_DATA OR BLOCK_HAVE_UNDO) \<noteq> 0) (bi_nFile d) ReadVarInt_int s) (\<lambda>(nFile, s).
     exec_bind (read_if (status AND BLOCK_HAVE_DATA \<noteq> 0) (nDataPos d) ReadVarInt s) (\<lambda>(dataPos, s).
     exec_bind (read_if (status AND BLOCK_HAVE_UNDO \<noteq> 0) (nUndoPos d) ReadVarInt s) (\<lambda>(undoPos, s).
     exec_bind (read_if (status AND BLOCK_ACTIVATES_UPGRADE \<noteq> 0) (nCachedBranchId d)
                  (\<lambda>s. exec_bind (ser_readdata32 s) (\<lambda>(branchId, s). Inr (Some branchId, s))) s) (\<lambda>(branch, s).
     exec_bind (unser_blob 32 s) (\<lambda>(anchor, s).
     exec_bind (unser_disk_header d s) (\<lambda>(d, s).
     exec_bind (read_if (nType AND SER_DISK \<noteq> 0 \<and> SPROUT_VALUE_VERSION \<le> ver) (nSproutValue d)
                  (unser_optional unser_int64) s) (\<lambda>(sprout, s).
     exec_bind (read_if (nType AND SER_DISK \<noteq> 0 \<and> SAPLING_VALUE_VERSION \<le> ver) (nSaplingValue d)
                  unser_int64 s) (\<lambda>(sapling, s).
     Inr (d\<lparr>bi_nHeight := height, nStatus := status, bi_nTx := nTx, bi_nFile := nFile, nDataPos := dataPos,
            nUndoPos := undoPos, nCachedBranchId := branch, hashSproutAnchor := anchor,
            nSproutValue := sprout, nSaplingValue := sapling\<rparr>, s))))))))))))))"

definition disk_GetBlockHash :: "CDiskBlockIndex \<Rightarrow> bytes" where
  "disk_GetBlockHash d =
     CBlockHeader_GetHash
       \<lparr>bh_nVersion = bi_nVersion d, hashPrevBlock = hashPrev d, hashMerkleRoot = bi_hashMerkleRoot d,
        hashFinalSaplingRoot = bi_hashFinalSaplingRoot d, bh_nTime = bi_nTime d, bh_nBits = bi_nBits d,
        bh_nNonce = bi_nNonce d, bh_nSolution = bi_nSolution d\<rparr>"

section \<open>The active chain\<close>

type_synonym CChain = "addr option list"

definition Genesis :: "CChain \<Rightarrow> addr option" where
  "Genesis vChain = (if length vChain > 0 then vChain ! 0 else None)"

definition Tip :: "CChain \<Rightarrow> addr option" where
  "Tip vChain = (if length vChain > 0 then vChain ! (length vChain - 1) else None)"

definition chain_at :: "CChain \<Rightarrow> int \<Rightarrow> addr option" where
  "chain_at vChain height =
     (if height < 0 \<or> int (length vChain) \<le> height then None else vChain ! nat height)"

text \<open>The comparison reads the last elements with the unsigned index \<open>size() - 1\<close>, which is out of
  range for empty chains.\<close>

definition chain_equal :: "CChain \<Rightarrow> CChain \<Rightarrow> ('e, bool) exec" where
  "chain_equal a b =
     (if length a \<noteq> length b then Inr False
      else exec_bind (if a = [] then Inl Abort else vec_get a (length a - 1)) (\<lambda>x.
           exec_bind (if b = [] then Inl Abort else vec_get b (length b - 1)) (\<lambda>y. Inr (x = y))))"

definition Contains :: "index_store \<Rightarrow> CChain \<Rightarrow> addr \<Rightarrow> ('e, bool) exec" where
  "Contains st vChain pindex =
     exec_bind (deref st (Some pindex)) (\<lambda>b. Inr (chain_at vChain (bi_nHeight b) = Some pindex))"

definition Next :: "index_store \<Rightarrow> CChain \<Rightarrow> addr \<Rightarrow> ('e, addr option) exec" where
  "Next st vChain pindex =
     exec_bind (Contains st vChain pindex) (\<lambda>c.
     if c then exec_bind (deref st (Some pindex)) (\<lambda>b. Inr (chain_at vChain (bi_nHeight b + 1)))
     else Inr None)"

definition Height :: "CChain \<Rightarrow> int" where
  "Height vChain = int (length vChain) - 1"

definition vec_resize :: "'a \<Rightarrow> 'a list \<Rightarrow> nat \<Rightarrow> 'a list" where
  "vec_resize x xs n = take n xs @ replicate (n - length xs) x"

partial_function (option) set_tip_loop ::
    "index_store \<Rightarrow> CChain \<Rightarrow> addr option \<Rightarrow> ('e, CChain) exec option" where
  "set_tip_loop st vChain pindex =
     (case pindex of
        None \<Rightarrow> Some (Inr vChain)
      | Some a \<Rightarrow>
          (case st a of
             None \<Rightarrow> Some (Inl Abort)
           | Some b \<Rightarrow>
               if bi_nHeight b < 0 \<or> int (length vChain) \<le> bi_nHeight b then Some (Inl Abort)
               else if vChain ! nat (bi_nHeight b) = Some a then Some (Inr vChain)
               else set_tip_loop st (vChain[nat (bi_nHeight b) := Some a]) (pprev b)))"

definition SetTip :: "index_store \<Rightarrow> CChain \<Rightarrow> addr option \<Rightarrow> ('e, CChain) exec option" where
  "SetTip st vChain pindex =
     (case pindex of
        None \<Rightarrow> Some (Inr [])
      | Some a \<Rightarrow>
          (case st a of
             None \<Rightarrow> Some (Inl Abort)
           | Some b \<Rightarrow> set_tip_loop st (vec_resize None vChain (nat (bi_nHeight b + 1))) pindex))"

text \<open>
  The locator: \<open>nStep\<close> is an \<open>int\<close> that is doubled in every round once there are more than ten hashes;
  a product out of range is undefined.
\<close>

partial_function (option) locator_loop ::
    "index_store \<Rightarrow> CChain \<Rightarrow> bytes list \<Rightarrow> int \<Rightarrow> addr option \<Rightarrow> ('e, bytes list) exec option" where
  "locator_loop st vChain vHave nStep pindex =
     (case pindex of
        None \<Rightarrow> Some (Inr vHave)
      | Some a \<Rightarrow>
          (case st a of
             None \<Rightarrow> Some (Inl Abort)
           | Some b \<Rightarrow>
               (case phashBlock b of
                  None \<Rightarrow> Some (Inl Abort)
                | Some hash \<Rightarrow>
                    if bi_nHeight b = 0 then Some (Inr (vHave @ [hash]))
                    else
                      (case (if chain_at vChain (bi_nHeight b) = Some a
                             then Inr (chain_at vChain (max (bi_nHeight b - nStep) 0))
                             else GetAncestor st a (max (bi_nHeight b - nStep) 0)) of
                         Inl e \<Rightarrow> Some (Inl e)
                       | Inr p \<Rightarrow>
                           if 10 < length (vHave @ [hash]) then
                             if INT_MAX < nStep * 2 then Some (Inl Abort)
                             else locator_loop st vChain (vHave @ [hash]) (nStep * 2) p
                           else locator_loop st vChain (vHave @ [hash]) nStep p))))"

definition GetLocator :: "index_store \<Rightarrow> CChain \<Rightarrow> addr option \<Rightarrow> ('e, bytes list) exec option" where
  "GetLocator st vChain pindex =
     locator_loop st vChain [] 1 (if pindex = None then Tip vChain else pindex)"

partial_function (option) find_fork_loop ::
    "index_store \<Rightarrow> CChain \<Rightarrow> addr option \<Rightarrow> ('e, addr option) exec option" where
  "find_fork_loop st vChain pindex =
     (case pindex of
        None \<Rightarrow> Some (Inr None)
      | Some a \<Rightarrow>
          (case st a of
             None \<Rightarrow> Some (Inl Abort)
           | Some b \<Rightarrow>
               if chain_at vChain (bi_nHeight b) = Some a then Some (Inr pindex)
               else find_fork_loop st vChain (pprev b)))"

definition FindFork :: "index_store \<Rightarrow> CChain \<Rightarrow> addr \<Rightarrow> ('e, addr option) exec option" where
  "FindFork st vChain pindex =
     (case st pindex of
        None \<Rightarrow> Some (Inl Abort)
      | Some b \<Rightarrow>
          (case (if Height vChain < bi_nHeight b then GetAncestor st pindex (Height vChain) else Inr (Some pindex)) of
             Inl e \<Rightarrow> Some (Inl e)
           | Inr p \<Rightarrow> find_fork_loop st vChain p))"

end
