(* ===== verification/Pow.thy ===== *)
theory Pow
  imports Block_Index Chain_Params
begin

text \<open>
  Proof of work: src/src/pow.cpp. The required target of the next block by the two difficulty
  algorithms, the checks of the Equihash solution, of the hash against the target and of the distance
  of block times, and the work a block stands for. Implicit conversions are kept: a 64-bit factor of
  \<open>operator*=\<close> goes through \<open>uint32_t\<close>, the other operands through \<open>uint64_t\<close>. The adjusted network time and
  the Equihash verifier of the Rust library are parameters.
\<close>

section \<open>Times\<close>

definition too_fast :: "int \<Rightarrow> int \<Rightarrow> CBlockIndex \<Rightarrow> CBlockHeader option \<Rightarrow> bool" where
  "too_fast gap now pindexLast pblock \<longleftrightarrow>
     (case pblock of
        Some h \<Rightarrow> CBlockHeader_GetBlockTime h < bi_GetBlockTime pindexLast + gap \<or> now < bi_GetBlockTime pindexLast + gap
      | None \<Rightarrow> now < bi_GetBlockTime pindexLast + gap)"

definition CheckBlockTimestamp ::
    "ConsensusParams \<Rightarrow> int \<Rightarrow> CBlockIndex \<Rightarrow> CBlockHeader option \<Rightarrow> bool" where
  "CheckBlockTimestamp params now pindexLast pblock \<longleftrightarrow>
     \<not> too_fast (cdiv (nPowTargetSpacing params) 3) now pindexLast pblock"

definition CheckBlockTimestamp2 :: "int \<Rightarrow> CBlockIndex \<Rightarrow> CBlockHeader option \<Rightarrow> bool" where
  "CheckBlockTimestamp2 now pindexLast pblock \<longleftrightarrow> \<not> too_fast 8 now pindexLast pblock"

section \<open>Difficulty\<close>

abbreviation au_of_int :: "int \<Rightarrow> arith_uint256" where
  "au_of_int n \<equiv> au_of_u64 (word_of_int n)"

definition DigishieldCalculateNextWorkRequired ::
    "arith_uint256 \<Rightarrow> int \<Rightarrow> int \<Rightarrow> ConsensusParams \<Rightarrow> ('e, u32) exec" where
  "DigishieldCalculateNextWorkRequired bnAvg nLastBlockTime nFirstBlockTime params =
     (let window = AveragingWindowTimespan params;
          span = window + cdiv (nLastBlockTime - nFirstBlockTime - window) 4;
          span = (if span < MinActualTimespan params then MinActualTimespan params else span);
          span = (if span > MaxActualTimespan params then MaxActualTimespan params else span);
          bnPowLimit = UintToArith256 (powLimit params)
      in exec_bind (au_div bnAvg (au_of_int window)) (\<lambda>bnNew.
         let bnNew = au_mul32 bnNew (word_of_int span);
             bnNew = (if au_CompareTo bnNew bnPowLimit > 0 then bnPowLimit else bnNew)
         in GetCompact bnNew False))"

text \<open>
  The loop of \<open>Lwma3CalculateNextWorkRequired\<close> over the heights \<open>i\<close> up to \<open>height\<close>: it carries the previous
  timestamp, the sum \<open>t\<close> of weighted solve times, the weight \<open>j\<close> and the sum of targets, and
  returns the last target with the sums.
\<close>

fun lwma_loop :: "index_store \<Rightarrow> addr \<Rightarrow> int \<Rightarrow> int \<Rightarrow> int list \<Rightarrow>
    int \<Rightarrow> int \<Rightarrow> int \<Rightarrow> arith_uint256 \<Rightarrow> arith_uint256 \<Rightarrow> ('e, int \<times> arith_uint256 \<times> arith_uint256) exec" where
  "lwma_loop st pindexLast T kN [] previousTimestamp t j sumTarget previousDiff = Inr (t, sumTarget, previousDiff)"
| "lwma_loop st pindexLast T kN (i # is) previousTimestamp t j sumTarget previousDiff =
     exec_bind (GetAncestor st pindexLast i) (\<lambda>p.
     exec_bind (deref st p) (\<lambda>block.
     let thisTimestamp = (if bi_GetBlockTime block > previousTimestamp then bi_GetBlockTime block
                          else previousTimestamp + 1);
         solvetime = min (6 * T) (thisTimestamp - previousTimestamp);
         j = j + 1;
         target = fst (SetCompact (bi_nBits block))
     in exec_bind (au_div target (au_of_int kN)) (\<lambda>q.
        lwma_loop st pindexLast T kN is thisTimestamp (t + solvetime * j) j (au_add sumTarget q)
          (if is = [] then target else previousDiff))))"

definition lwma_clamp :: "arith_uint256 \<Rightarrow> arith_uint256 \<Rightarrow> arith_uint256 \<Rightarrow> ('e, arith_uint256) exec" where
  "lwma_clamp bnPowLimit previousDiff nextTarget =
     exec_bind (au_div (au_mul32 previousDiff 150) (au_of_int 100)) (\<lambda>upper.
     exec_bind (au_div (au_mul32 previousDiff 67) (au_of_int 100)) (\<lambda>lower.
     let nextTarget = (if au_CompareTo nextTarget upper > 0 then upper else nextTarget);
         nextTarget = (if au_CompareTo lower nextTarget > 0 then lower else nextTarget)
     in Inr (if au_CompareTo nextTarget bnPowLimit > 0 then bnPowLimit else nextTarget)))"

definition Lwma3CalculateNextWorkRequired :: "index_store \<Rightarrow> addr \<Rightarrow> ConsensusParams \<Rightarrow> ('e, u32) exec" where
  "Lwma3CalculateNextWorkRequired st pindexLast params =
     exec_bind (deref st (Some pindexLast)) (\<lambda>b.
     let T = nPowTargetSpacing params; N = nZawyLWMA3AveragingWindow params;
         k = cdiv (N * (N + 1) * T) 2; height = bi_nHeight b;
         bnPowLimit = UintToArith256 (powLimit params)
     in if height < N then GetCompact bnPowLimit False
        else
          exec_bind (GetAncestor st pindexLast (height - N)) (\<lambda>p.
          exec_bind (deref st p) (\<lambda>first.
          exec_bind (lwma_loop st pindexLast T (k * N) [height - N + 1 .. height]
                       (bi_GetBlockTime first) 0 0 au_zero au_zero) (\<lambda>(t, sumTarget, previousDiff).
          exec_bind (lwma_clamp bnPowLimit previousDiff (au_mul (au_of_int t) sumTarget)) (\<lambda>nextTarget.
          GetCompact nextTarget False)))))"

text \<open>The sum of the last targets, and the block before them.\<close>

fun target_sum :: "index_store \<Rightarrow> nat \<Rightarrow> addr option \<Rightarrow> arith_uint256 \<Rightarrow> ('e, addr option \<times> arith_uint256) exec" where
  "target_sum st 0 pindexFirst bnTot = Inr (pindexFirst, bnTot)"
| "target_sum st (Suc n) None bnTot = Inr (None, bnTot)"
| "target_sum st (Suc n) (Some a) bnTot =
     exec_bind (deref st (Some a)) (\<lambda>b.
     target_sum st n (pprev b) (au_add bnTot (fst (SetCompact (bi_nBits b)))))"

definition GetNextWorkRequired ::
    "index_store \<Rightarrow> addr option \<Rightarrow> CBlockHeader option \<Rightarrow> ConsensusParams \<Rightarrow> ('e, u32) exec" where
  "GetNextWorkRequired st pindexLast pblock params =
     exec_bind (GetCompact (UintToArith256 (powLimit params)) False) (\<lambda>nProofOfWorkLimit.
     (case pindexLast of
        None \<Rightarrow> Inr nProofOfWorkLimit
      | Some a \<Rightarrow>
          exec_bind (deref st pindexLast) (\<lambda>b.
          if bi_nTime b < eh_epoch_1_endtime params \<and> bi_nTime b \<ge> eh_epoch_2_starttime params
          then Inr nProofOfWorkLimit
          else if (case (nPowAllowMinDifficultyBlocksAfterHeight params, pblock) of
                     (Some h, Some block) \<Rightarrow>
                       (word_of_int (bi_nHeight b) :: u32) \<ge> h \<and>
                       CBlockHeader_GetBlockTime block > bi_GetBlockTime b + nPowTargetSpacing params * 6
                   | _ \<Rightarrow> False)
          then Inr nProofOfWorkLimit
          else
            exec_bind (target_sum st (nat (nPowAveragingWindow params)) pindexLast au_zero) (\<lambda>(pindexFirst, bnTot).
            (case pindexFirst of
               None \<Rightarrow> Inr nProofOfWorkLimit
             | Some f \<Rightarrow>
                 exec_bind (au_div bnTot (au_of_int (nPowAveragingWindow params))) (\<lambda>bnAvg.
                 let height = bi_nHeight b + 1 in
                 exec_bind (if height < ActivationHeight params UPGRADE_DIFA then Inr True
                            else exec_bind (NetworkUpgradeActive height params UPGRADE_LATVERIA) (\<lambda>latveria.
                                 if latveria
                                 then exec_bind (NetworkUpgradeActive height params UPGRADE_KRAKOA) (\<lambda>krakoa. Inr (\<not> krakoa))
                                 else Inr False)) (\<lambda>digishield.
                 if digishield
                 then exec_bind (GetMedianTimePast st a) (\<lambda>last_time.
                      exec_bind (GetMedianTimePast st f) (\<lambda>first_time.
                      DigishieldCalculateNextWorkRequired bnAvg last_time first_time params))
                 else Lwma3CalculateNextWorkRequired st a params)))))))"

section \<open>Checks and work\<close>

type_synonym eh_verifier = "nat \<Rightarrow> nat \<Rightarrow> bytes \<Rightarrow> bytes \<Rightarrow> bytes \<Rightarrow> string \<Rightarrow> bool"

definition CheckEquihashSolution :: "eh_verifier \<Rightarrow> CBlockHeader \<Rightarrow> ConsensusParams \<Rightarrow> bool" where
  "CheckEquihashSolution eh_isvalid pblock params =
     (let e = (if bh_nTime pblock \<le> eh_epoch_1_endtime params then eh_epoch_1 params else eh_epoch_2 params)
      in eh_isvalid (eh_n e) (eh_k e) (ser_CEquihashInput pblock) (bh_nNonce pblock) (bh_nSolution pblock) (eh_pers e))"

definition CheckProofOfWork :: "bytes \<Rightarrow> u32 \<Rightarrow> ConsensusParams \<Rightarrow> bool" where
  "CheckProofOfWork hash nBits params =
     (let (bnTarget, fNegative, fOverflow) = SetCompact nBits
      in if fNegative \<or> au_EqualTo bnTarget 0 \<or> fOverflow \<or> au_CompareTo bnTarget (UintToArith256 (powLimit params)) > 0
         then False
         else if au_CompareTo (UintToArith256 hash) bnTarget > 0 then False
         else True)"

definition GetBlockProof :: "u32 \<Rightarrow> ('e, arith_uint256) exec" where
  "GetBlockProof nBits =
     (let (bnTarget, fNegative, fOverflow) = SetCompact nBits
      in if fNegative \<or> fOverflow \<or> au_EqualTo bnTarget 0 then Inr (au_of_int 0)
         else exec_bind (au_div (au_not bnTarget) (au_add bnTarget (au_of_int 1))) (\<lambda>q.
              Inr (au_add q (au_of_int 1))))"

definition GetBlockProofEquivalentTime ::
    "CBlockIndex \<Rightarrow> CBlockIndex \<Rightarrow> CBlockIndex \<Rightarrow> ConsensusParams \<Rightarrow> ('e, int) exec" where
  "GetBlockProofEquivalentTime to from tip params =
     (let (r, sign) = (if au_CompareTo (nChainWork to) (nChainWork from) > 0
                       then (au_sub (nChainWork to) (nChainWork from), 1)
                       else (au_sub (nChainWork from) (nChainWork to), - 1))
      in exec_bind (GetBlockProof (bi_nBits tip)) (\<lambda>proof.
         exec_bind (au_div (au_mul r (au_of_int (nPowTargetSpacing params))) proof) (\<lambda>r.
         if au_bits r > 63 then Inr (sign * INT64_MAX)
         else Inr (sint (word_of_int (sign * uint (au_GetLow64 r)) :: u64)))))"

end
