(* ===== verification/Block_Tree.thy ===== *)
theory Block_Tree
  imports Pow Validation
begin

text \<open>
  The tree of block headers in src/src/main.cpp: the map from block hashes to index entries, adding a
  header, the checks a header must pass, accepting a header, the last common ancestor of two blocks and
  the fork for a locator. It also holds \<open>GetLastCheckpoint\<close> of src/src/checkpoints.cpp. \<open>new CBlockIndex\<close> returns
  the address \<open>bt_fresh\<close>. What the environment supplies is a record: the adjusted time, the height of the new
  time rule, the checkpoints in the order of their heights and the Equihash verifier.
\<close>

section \<open>State\<close>

record BlockTree =
  bt_store :: index_store
  bt_fresh :: addr
  mapBlockIndex :: "bytes \<rightharpoonup> addr"
  chainActive :: CChain
  pindexBestHeader :: "addr option"
  setDirtyBlockIndex :: "addr set"

record HeaderEnv =
  env_now :: int
  env_newTimeRule :: int
  fCheckpointsEnabled :: bool
  mapCheckpoints :: "(int \<times> bytes) list"
  env_eh :: eh_verifier

section \<open>Adding a header\<close>

text \<open>The entry is in the map before its parent is looked up.\<close>

definition link_parent ::
    "index_store \<Rightarrow> addr \<Rightarrow> addr option \<Rightarrow> CBlockIndex \<Rightarrow> ('e, CBlockIndex) exec" where
  "link_parent st a miPrev b =
     (case miPrev of
        None \<Rightarrow> Inr b
      | Some p \<Rightarrow>
          exec_bind (deref (st(a \<mapsto> b)) (Some p)) (\<lambda>q.
          let b = b\<lparr>pprev := Some p, bi_nHeight := bi_nHeight q + 1\<rparr>
          in BuildSkip (st(a \<mapsto> b)) b))"

definition chain_work :: "index_store \<Rightarrow> CBlockIndex \<Rightarrow> ('e, arith_uint256) exec" where
  "chain_work st b =
     exec_bind (case pprev b of None \<Rightarrow> Inr (au_of_int 0)
                | Some p \<Rightarrow> exec_bind (deref st (Some p)) (\<lambda>q. Inr (nChainWork q))) (\<lambda>w.
     exec_bind (GetBlockProof (bi_nBits b)) (\<lambda>proof. Inr (au_add w proof)))"

definition AddToBlockIndex :: "BlockTree \<Rightarrow> CBlockHeader \<Rightarrow> ('e, BlockTree \<times> addr) exec" where
  "AddToBlockIndex bt block =
     (let hash = CBlockHeader_GetHash block in
      case mapBlockIndex bt hash of
        Some a \<Rightarrow> Inr (bt, a)
      | None \<Rightarrow>
          (let a = bt_fresh bt;
               b = (CBlockIndex_new block)\<lparr>nSequenceId := 0, phashBlock := Some hash\<rparr>;
               index = (mapBlockIndex bt)(hash \<mapsto> a)
           in exec_bind (link_parent (bt_store bt) a (index (hashPrevBlock block)) b) (\<lambda>b.
              exec_bind (chain_work ((bt_store bt)(a \<mapsto> b)) b) (\<lambda>work.
              exec_bind (RaiseValidity (b\<lparr>nChainWork := work\<rparr>) BLOCK_VALID_TREE) (\<lambda>(b, _).
              let st = (bt_store bt)(a \<mapsto> b)
              in exec_bind (case pindexBestHeader bt of None \<Rightarrow> Inr True
                            | Some best \<Rightarrow> exec_bind (deref st (Some best)) (\<lambda>h.
                                Inr (au_CompareTo (nChainWork h) (nChainWork b) < 0))) (\<lambda>better.
                 Inr (bt\<lparr>bt_store := st, bt_fresh := a + 1, mapBlockIndex := index,
                        pindexBestHeader := (if better then Some a else pindexBestHeader bt),
                        setDirtyBlockIndex := insert a (setDirtyBlockIndex bt)\<rparr>, a)))))))"

text \<open>Loading the index creates entries that are filled in later.\<close>

definition InsertBlockIndex :: "BlockTree \<Rightarrow> bytes \<Rightarrow> BlockTree \<times> addr option" where
  "InsertBlockIndex bt hash =
     (if hash = uint256_null then (bt, None)
      else case mapBlockIndex bt hash of
             Some a \<Rightarrow> (bt, Some a)
           | None \<Rightarrow>
               (let a = bt_fresh bt
                in (bt\<lparr>bt_store := (bt_store bt)(a \<mapsto> CBlockIndex_null\<lparr>phashBlock := Some hash\<rparr>), bt_fresh := a + 1,
                      mapBlockIndex := (mapBlockIndex bt)(hash \<mapsto> a)\<rparr>, Some a)))"

section \<open>Checks of a header\<close>

definition MIN_BLOCK_VERSION :: int where
  "MIN_BLOCK_VERSION = 4"

text \<open>The height of the active chain is compared as an unsigned number.\<close>

definition CheckBlockHeader ::
    "HeaderEnv \<Rightarrow> ConsensusParams \<Rightarrow> CChain \<Rightarrow> CBlockHeader \<Rightarrow> bool \<Rightarrow> unit checked" where
  "CheckBlockHeader env params vChain block fCheckPOW =
     exec_bind (reject_if (bh_nVersion block < MIN_BLOCK_VERSION) (DoS 100 REJECT_INVALID ''version-too-low'' False)) (\<lambda>_.
     exec_bind (reject_if (fCheckPOW \<and> \<not> CheckEquihashSolution (env_eh env) block params)
                  (DoS 100 REJECT_INVALID ''invalid-solution'' False)) (\<lambda>_.
     exec_bind (reject_if (fCheckPOW \<and> \<not> CheckProofOfWork (CBlockHeader_GetHash block) (bh_nBits block) params)
                  (DoS 50 REJECT_INVALID ''high-hash'' False)) (\<lambda>_.
     let height = word_of_int (Height vChain) :: u32; t = CBlockHeader_GetBlockTime block; rule = word_of_int (env_newTimeRule env)
     in if height < word_of_int (ActivationHeight params UPGRADE_DIFA)
        then if height < rule \<and> t > env_now env + 2 * 60 * 60 then Inl (Fail (Invalid REJECT_INVALID ''time-too-new''))
             else reject_if (height \<ge> rule \<and> t > env_now env + 10 * 60) (Invalid REJECT_INVALID ''time-too-new'')
        else reject_if (t > env_now env + 6 * 60) (Invalid REJECT_INVALID ''time-too-new''))))"

text \<open>The highest checkpoint whose block is in the index.\<close>

fun first_known :: "(bytes \<rightharpoonup> addr) \<Rightarrow> (int \<times> bytes) list \<Rightarrow> addr option" where
  "first_known index [] = None"
| "first_known index ((_, hash) # rest) = (case index hash of Some a \<Rightarrow> Some a | None \<Rightarrow> first_known index rest)"

definition GetLastCheckpoint :: "(bytes \<rightharpoonup> addr) \<Rightarrow> (int \<times> bytes) list \<Rightarrow> addr option" where
  "GetLastCheckpoint index checkpoints = first_known index (rev checkpoints)"

definition ContextualCheckBlockHeader ::
    "HeaderEnv \<Rightarrow> ConsensusParams \<Rightarrow> BlockTree \<Rightarrow> CBlockHeader \<Rightarrow> addr option \<Rightarrow> unit checked" where
  "ContextualCheckBlockHeader env params bt block pindexPrev =
     (let st = bt_store bt; pcheckpoint = GetLastCheckpoint (mapBlockIndex bt) (mapCheckpoints env) in
      if CBlockHeader_GetHash block = hashGenesisBlock params then Inr ()
      else case pindexPrev of
             None \<Rightarrow> Inl Abort
           | Some p \<Rightarrow>
               exec_bind (deref st (Some p)) (\<lambda>prev.
               let height = bi_nHeight prev + 1 in
               exec_bind (GetNextWorkRequired st (Some p) (Some block) params) (\<lambda>bits.
               exec_bind (reject_if (bh_nBits block \<noteq> bits) (DoS 100 REJECT_INVALID ''bad-diffbits'' False)) (\<lambda>_.
               exec_bind (GetMedianTimePast st p) (\<lambda>mtp.
               exec_bind (reject_if (CBlockHeader_GetBlockTime block \<le> mtp) (Invalid REJECT_INVALID ''time-too-old'')) (\<lambda>_.
               exec_bind (if fCheckpointsEnabled env \<and> pcheckpoint \<noteq> None
                          then exec_bind (deref st pcheckpoint) (\<lambda>c.
                               reject_if (height < bi_nHeight c) (DoS 100 0 '''' False))
                          else Inr ()) (\<lambda>_.
               exec_bind (reject_if (bh_nVersion block < 4) (Invalid REJECT_OBSOLETE ''bad-version'')) (\<lambda>_.
               exec_bind (NetworkUpgradeActive height params UPGRADE_WAKANDA) (\<lambda>wakanda.
               if wakanda then
                 exec_bind (NetworkUpgradeActive height params UPGRADE_KRAKOA) (\<lambda>krakoa.
                 if \<not> krakoa
                 then reject_if (\<not> CheckBlockTimestamp params (env_now env) prev (Some block))
                        (Invalid REJECT_TIME_TOO_FAST ''block-too-fast'')
                 else reject_if (\<not> CheckBlockTimestamp2 (env_now env) prev (Some block))
                        (Invalid REJECT_TIME_TOO_FAST ''block-too-fast''))
               else Inr ())))))))))"

definition AcceptBlockHeader ::
    "HeaderEnv \<Rightarrow> ConsensusParams \<Rightarrow> BlockTree \<Rightarrow> CBlockHeader \<Rightarrow> (BlockTree \<times> addr) checked" where
  "AcceptBlockHeader env params bt block =
     (let hash = CBlockHeader_GetHash block in
      case mapBlockIndex bt hash of
        Some a \<Rightarrow>
          exec_bind (deref (bt_store bt) (Some a)) (\<lambda>b.
          exec_bind (reject_if (nStatus b AND BLOCK_FAILED_MASK \<noteq> 0) (Invalid 0 ''duplicate'')) (\<lambda>_. Inr (bt, a)))
      | None \<Rightarrow>
          exec_bind (CheckBlockHeader env params (chainActive bt) block True) (\<lambda>_.
          exec_bind (if hash \<noteq> hashGenesisBlock params
                     then case mapBlockIndex bt (hashPrevBlock block) of
                            None \<Rightarrow> Inl (Fail (DoS 10 0 ''bad-prevblk'' False))
                          | Some p \<Rightarrow>
                              exec_bind (deref (bt_store bt) (Some p)) (\<lambda>prev.
                              exec_bind (reject_if (nStatus prev AND BLOCK_FAILED_MASK \<noteq> 0)
                                           (DoS 100 REJECT_INVALID ''bad-prevblk'' False)) (\<lambda>_. Inr (Some p)))
                     else Inr None) (\<lambda>pindexPrev.
          exec_bind (ContextualCheckBlockHeader env params bt block pindexPrev) (\<lambda>_.
          AddToBlockIndex bt block))))"

section \<open>Common ancestors\<close>

partial_function (option) common_loop ::
    "index_store \<Rightarrow> addr option \<Rightarrow> addr option \<Rightarrow> ('e, addr option \<times> addr option) exec option" where
  "common_loop st pa pb =
     (case (pa, pb) of
        (Some a, Some b) \<Rightarrow>
          if a = b then Some (Inr (pa, pb))
          else (case (st a, st b) of
                  (Some x, Some y) \<Rightarrow> common_loop st (pprev x) (pprev y)
                | _ \<Rightarrow> Some (Inl Abort))
      | _ \<Rightarrow> Some (Inr (pa, pb)))"

definition LastCommonAncestor :: "index_store \<Rightarrow> addr \<Rightarrow> addr \<Rightarrow> ('e, addr option) exec option" where
  "LastCommonAncestor st pa pb =
     (case exec_bind (deref st (Some pa)) (\<lambda>a.
           exec_bind (deref st (Some pb)) (\<lambda>b.
           if bi_nHeight a > bi_nHeight b
           then exec_bind (GetAncestor st pa (bi_nHeight b)) (\<lambda>p. Inr (p, Some pb))
           else if bi_nHeight b > bi_nHeight a
           then exec_bind (GetAncestor st pb (bi_nHeight a)) (\<lambda>p. Inr (Some pa, p))
           else Inr (Some pa, Some pb))) of
        Inl e \<Rightarrow> Some (Inl e)
      | Inr (p, q) \<Rightarrow>
          map_option (\<lambda>r. exec_bind r (\<lambda>(p, q). exec_bind (exec_assert (p = q)) (\<lambda>_. Inr p))) (common_loop st p q))"

fun FindForkInGlobalIndex :: "BlockTree \<Rightarrow> CChain \<Rightarrow> bytes list \<Rightarrow> ('e, addr option) exec" where
  "FindForkInGlobalIndex bt chain [] = Inr (Genesis chain)"
| "FindForkInGlobalIndex bt chain (hash # vHave) =
     (case mapBlockIndex bt hash of
        None \<Rightarrow> FindForkInGlobalIndex bt chain vHave
      | Some a \<Rightarrow>
          exec_bind (Contains (bt_store bt) chain a) (\<lambda>c.
          if c then Inr (Some a)
          else exec_bind (GetAncestor (bt_store bt) a (Height chain)) (\<lambda>p.
               if p = Tip chain then Inr (Tip chain) else FindForkInGlobalIndex bt chain vHave)))"

end
