(* ===== verification/Index_Facts.thy ===== *)
theory Index_Facts
  imports Block_Index "HOL-Library.Multiset"
begin

text \<open>
  What the block index computes when it is well formed: the skip list finds the ancestors that the
  links to the parents define, the vector of the active chain holds the ancestors of its tip, forks
  and locators are found in boundedly many steps, and entries survive being written to disk.
\<close>

section \<open>Well-formed indices\<close>

text \<open>The reference for ancestors: follow the link to the parent \<open>n\<close> times.\<close>

primrec ancestor :: "index_store \<Rightarrow> addr \<Rightarrow> nat \<Rightarrow> addr option" where
  "ancestor st a 0 = Some a"
| "ancestor st a (Suc n) = Option.bind (Option.bind (st a) pprev) (\<lambda>p. ancestor st p n)"

definition index_ok :: "index_store \<Rightarrow> bool" where
  "index_ok st \<longleftrightarrow> (\<forall>a b. st a = Some b \<longrightarrow>
     0 \<le> bi_nHeight b \<and>
     (case pprev b of None \<Rightarrow> bi_nHeight b = 0
      | Some p \<Rightarrow> (\<exists>q. st p = Some q \<and> bi_nHeight b = bi_nHeight q + 1)) \<and>
     (\<forall>s. pskip b = Some s \<longrightarrow> ancestor st a (nat (bi_nHeight b - GetSkipHeight (bi_nHeight b))) = Some s))"

lemma index_okD:
  assumes "index_ok st" "st a = Some b"
  shows "0 \<le> bi_nHeight b"
    "pprev b = None \<Longrightarrow> bi_nHeight b = 0"
    "pprev b = Some p \<Longrightarrow> \<exists>q. st p = Some q \<and> bi_nHeight b = bi_nHeight q + 1"
    "pskip b = Some s \<Longrightarrow> ancestor st a (nat (bi_nHeight b - GetSkipHeight (bi_nHeight b))) = Some s"
proof -
  have *: "0 \<le> bi_nHeight b \<and>
     (case pprev b of None \<Rightarrow> bi_nHeight b = 0
      | Some p \<Rightarrow> (\<exists>q. st p = Some q \<and> bi_nHeight b = bi_nHeight q + 1)) \<and>
     (\<forall>s. pskip b = Some s \<longrightarrow> ancestor st a (nat (bi_nHeight b - GetSkipHeight (bi_nHeight b))) = Some s)"
    using assms unfolding index_ok_def by blast
  then show "0 \<le> bi_nHeight b"
    "pprev b = None \<Longrightarrow> bi_nHeight b = 0"
    "pprev b = Some p \<Longrightarrow> \<exists>q. st p = Some q \<and> bi_nHeight b = bi_nHeight q + 1"
    "pskip b = Some s \<Longrightarrow> ancestor st a (nat (bi_nHeight b - GetSkipHeight (bi_nHeight b))) = Some s"
    by simp_all
qed

lemma ancestor_add: "ancestor st a (m + n) = Option.bind (ancestor st a m) (\<lambda>c. ancestor st c n)"
  by (induction m arbitrary: a) (simp_all split: Option.bind_split)

lemma ancestor_some:
  assumes "index_ok st" "st a = Some b" "int n \<le> bi_nHeight b"
  shows "\<exists>c d. ancestor st a n = Some c \<and> st c = Some d \<and> bi_nHeight d = bi_nHeight b - int n"
  using assms(2,3)
proof (induction n arbitrary: a b)
  case (Suc n)
  then have "bi_nHeight b \<noteq> 0" by simp
  then obtain p where p: "pprev b = Some p" using index_okD(2) [OF assms(1) Suc.prems(1)] by (cases "pprev b") auto
  with index_okD(3) [OF assms(1) Suc.prems(1) p] obtain q where "st p = Some q" "bi_nHeight b = bi_nHeight q + 1" by auto
  with Suc.IH [of p q] Suc.prems p show ?case by auto
qed auto

section \<open>The skip list\<close>

lemma ancestor_walk_eq:
  assumes "index_ok st" "st a = Some b" "bi_nHeight b = hw" "0 \<le> h" "h \<le> hw"
  shows "\<exists>c. ancestor st a (nat (hw - h)) = Some c \<and> ancestor_walk st h a hw = (Inr c :: ('e, addr) exec)"
  using assms(2-)
proof (induction "nat hw" arbitrary: a b hw rule: less_induct)
  case less
  show ?case
  proof (cases "h < hw")
    case False
    then show ?thesis using less.prems by (simp add: ancestor_walk.simps)
  next
    case True
    have pos: "0 < hw" using True less.prems by simp
    note skip = GetSkipHeight_bounds [OF pos]
    have up: ?thesis if k: "h \<le> k" "k < hw" and s: "ancestor st a (nat (hw - k)) = Some s"
      and w: "ancestor_walk st h a hw = (ancestor_walk st h s k :: ('e, addr) exec)" for k s
    proof -
      obtain d where d: "st s = Some d" "bi_nHeight d = k"
        using ancestor_some [OF assms(1) less.prems(1), of "nat (hw - k)"] s k less.prems by auto
      have "nat (hw - h) = nat (hw - k) + nat (k - h)" using k by simp
      then show ?thesis
        using less.hyps [of k s d] d k less.prems(3) pos s w by (simp add: ancestor_add)
    qed
    obtain p q where p: "pprev b = Some p" "st p = Some q" "bi_nHeight q = hw - 1"
      using index_okD(2,3) [OF assms(1) less.prems(1)] pos less.prems(2) by (cases "pprev b") auto
    have prev: "ancestor st a (nat (hw - (hw - 1))) = Some p" using p less.prems by simp
    show ?thesis
    proof (cases "ancestor_walk st h a hw = (ancestor_walk st h p (hw - 1) :: ('e, addr) exec)")
      case w: True
      show ?thesis by (rule up [OF _ _ prev w]) (use True in simp_all)
    next
      case False
      then obtain s where s: "pskip b = Some s" "GetSkipHeight hw = h \<or> h < GetSkipHeight hw"
        "ancestor_walk st h a hw = (ancestor_walk st h s (GetSkipHeight hw) :: ('e, addr) exec)"
        using True less.prems p
        by (auto simp: ancestor_walk.simps [of st h a hw] Let_def split: option.splits if_splits)
      have "ancestor st a (nat (hw - GetSkipHeight hw)) = Some s"
        using index_okD(4) [OF assms(1) less.prems(1) s(1)] less.prems(2) by simp
      then show ?thesis by (rule up [rotated 2, OF _ s(3)]) (use s(2) skip in auto)
    qed
  qed
qed

lemma GetAncestor_eq:
  assumes "index_ok st" "st a = Some b"
  shows "(GetAncestor st a h :: ('e, addr option) exec) =
    Inr (if h < 0 \<or> bi_nHeight b < h then None else ancestor st a (nat (bi_nHeight b - h)))"
proof (cases "h < 0 \<or> bi_nHeight b < h")
  case False
  then obtain c where "ancestor st a (nat (bi_nHeight b - h)) = Some c"
    "ancestor_walk st h a (bi_nHeight b) = (Inr c :: ('e, addr) exec)"
    using ancestor_walk_eq [where 'e = 'e, OF assms refl, of h] by auto
  then show ?thesis using False assms(2) by (auto simp: GetAncestor_def deref_def)
qed (use assms(2) in \<open>auto simp: GetAncestor_def deref_def\<close>)

text \<open>Adding an entry below an existing one keeps the ancestors of the others and the invariant.\<close>

lemma ancestor_fresh:
  assumes "index_ok st" "st a = None" "st x = Some y"
  shows "ancestor (st(a \<mapsto> b)) x n = ancestor st x n"
  using assms(3)
proof (induction n arbitrary: x y)
  case (Suc n)
  have "x \<noteq> a" using Suc.prems assms(2) by auto
  then show ?case
    using index_okD(3) [OF assms(1) Suc.prems] Suc.IH Suc.prems by (cases "pprev y") auto
qed simp

lemma index_ok_extend:
  assumes ok: "index_ok st" and a: "st a = None"
    and p: "case pprev b of None \<Rightarrow> bi_nHeight b = 0 \<and> pskip b = None
      | Some p \<Rightarrow> (\<exists>q. st p = Some q \<and> bi_nHeight b = bi_nHeight q + 1 \<and>
          (\<forall>s. pskip b = Some s \<longrightarrow> ancestor st p (nat (bi_nHeight q - GetSkipHeight (bi_nHeight b))) = Some s))"
  shows "index_ok (st(a \<mapsto> b))"
  unfolding index_ok_def
proof (intro allI impI)
  fix x y assume xy: "(st(a \<mapsto> b)) x = Some y"
  show "0 \<le> bi_nHeight y \<and>
     (case pprev y of None \<Rightarrow> bi_nHeight y = 0
      | Some p \<Rightarrow> (\<exists>q. (st(a \<mapsto> b)) p = Some q \<and> bi_nHeight y = bi_nHeight q + 1)) \<and>
     (\<forall>s. pskip y = Some s \<longrightarrow>
       ancestor (st(a \<mapsto> b)) x (nat (bi_nHeight y - GetSkipHeight (bi_nHeight y))) = Some s)"
  proof (cases "x = a")
    case False
    then have x: "st x = Some y" using xy by simp
    have "p \<noteq> a" if "pprev y = Some p" for p using index_okD(3) [OF ok x that] a by auto
    then show ?thesis
      using index_okD [OF ok x] ancestor_fresh [OF ok a x] by (simp split: option.splits)
  next
    case True
    then have y: "y = b" using xy by simp
    show ?thesis
    proof (cases "pprev b")
      case None
      then show ?thesis using p y by simp
    next
      case (Some q)
      then obtain c where c: "st q = Some c" "bi_nHeight b = bi_nHeight c + 1"
        "\<forall>s. pskip b = Some s \<longrightarrow> ancestor st q (nat (bi_nHeight c - GetSkipHeight (bi_nHeight b))) = Some s"
        using p by auto
      define k where "k = GetSkipHeight (bi_nHeight b)"
      have h: "0 \<le> bi_nHeight c" using index_okD(1) [OF ok c(1)] .
      then have k: "k \<le> bi_nHeight c" using GetSkipHeight_bounds [of "bi_nHeight b"] c by (simp add: k_def)
      have "q \<noteq> a" using c a by auto
      moreover have "nat (bi_nHeight b - k) = Suc (nat (bi_nHeight c - k))" using k c by simp
      moreover have "GetSkipHeight (bi_nHeight c + 1) = k" using c by (simp add: k_def)
      ultimately show ?thesis
        using y Some c h ancestor_fresh [OF ok a c(1)] True by auto
    qed
  qed
qed

section \<open>The median of the last block times\<close>

lemma sorted_nth_ge:
  fixes m :: int
  assumes "sorted ys" "k < length ys"
  shows "m \<le> ys ! k \<longleftrightarrow> length ys - k \<le> length (filter (\<lambda>x. m \<le> x) ys)"
proof
  have split: "length (filter (\<lambda>x. m \<le> x) ys) =
      length (filter (\<lambda>x. m \<le> x) (take n ys)) + length (filter (\<lambda>x. m \<le> x) (drop n ys))" for n
    by (metis append_take_drop_id filter_append length_append)
  show "length ys - k \<le> length (filter (\<lambda>x. m \<le> x) ys)" if "m \<le> ys ! k"
  proof -
    have "m \<le> x" if x: "x \<in> set (drop k ys)" for x
    proof -
      obtain i where "i < length ys - k" "x = ys ! (k + i)" using x by (auto simp: in_set_conv_nth)
      then show ?thesis using sorted_nth_mono [OF assms(1), of k "k + i"] \<open>m \<le> ys ! k\<close> by linarith
    qed
    then have "filter (\<lambda>x. m \<le> x) (drop k ys) = drop k ys" by simp
    then show ?thesis using split [of k] by simp
  qed
  show "m \<le> ys ! k" if count: "length ys - k \<le> length (filter (\<lambda>x. m \<le> x) ys)"
  proof (rule ccontr)
    assume less: "\<not> m \<le> ys ! k"
    have "\<not> m \<le> x" if x: "x \<in> set (take (Suc k) ys)" for x
    proof -
      obtain i where "i \<le> k" "x = ys ! i" using x by (auto simp: in_set_conv_nth less_Suc_eq_le)
      then show ?thesis using sorted_nth_mono [OF assms(1), of i k] assms(2) less by simp
    qed
    then have "filter (\<lambda>x. m \<le> x) (take (Suc k) ys) = []" by (simp add: filter_empty_conv)
    then have "length (filter (\<lambda>x. m \<le> x) ys) \<le> length ys - Suc k"
      using split [of "Suc k"] length_filter_le [of _ "drop (Suc k) ys"] by simp
    then show False using count assms(2) by simp
  qed
qed

definition median :: "int list \<Rightarrow> int" where
  "median ts = sort ts ! (length ts div 2)"

lemma median_ge:
  "ts \<noteq> [] \<Longrightarrow> m \<le> median ts \<longleftrightarrow> length ts - length ts div 2 \<le> length (filter (\<lambda>x. m \<le> x) ts)"
  using sorted_nth_ge [of "sort ts" "length ts div 2" m] by (simp add: median_def filter_sort)

lemma median_push:
  assumes "ts \<noteq> []" "length ts \<le> 2 * n + 1" "median ts \<le> t"
  shows "median ts \<le> median (t # take (2 * n) ts)"
proof -
  let ?P = "\<lambda>x. median ts \<le> x"
  have old: "length ts - length ts div 2 \<le> length (filter ?P ts)" using median_ge [OF assms(1)] by blast
  have "length (filter ?P ts) = length (filter ?P (take (2 * n) ts)) + length (filter ?P (drop (2 * n) ts))"
    by (metis append_take_drop_id filter_append length_append)
  moreover have "length (filter ?P (drop (2 * n) ts)) \<le> length ts - 2 * n"
    using length_filter_le [of ?P "drop (2 * n) ts"] by simp
  ultimately have "length (filter ?P ts) \<le> length (filter ?P (take (2 * n) ts)) + (length ts - 2 * n)" by simp
  then have "length (t # take (2 * n) ts) - length (t # take (2 * n) ts) div 2 \<le> length (filter ?P (t # take (2 * n) ts))"
    using old assms(2,3) by (cases "length ts = 2 * n + 1") (auto simp: min_def)
  then show ?thesis using median_ge [of "t # take (2 * n) ts" "median ts"] by simp
qed

lemma sort_rev: "sort (rev xs) = sort xs" for xs :: "int list"
  by (rule properties_for_sort) simp_all

lemma GetMedianTimePast_median:
  "block_times nMedianTimeSpan st (Some a) = (Inr ts :: ('e, int list) exec) \<Longrightarrow> ts \<noteq> [] \<Longrightarrow>
     GetMedianTimePast st a = (Inr (median ts) :: ('e, int) exec)"
  by (simp add: GetMedianTimePast_def median_def sort_rev)

lemma block_times_some:
  assumes "index_ok st" "case p of None \<Rightarrow> True | Some a \<Rightarrow> st a \<noteq> None"
  shows "\<exists>ts. block_times n st p = (Inr ts :: ('e, int list) exec) \<and> length ts \<le> n"
  using assms(2)
proof (induction n arbitrary: p)
  case (Suc n)
  show ?case
  proof (cases p)
    case (Some a)
    then obtain b where b: "st a = Some b" using Suc.prems by auto
    have "case pprev b of None \<Rightarrow> True | Some a \<Rightarrow> st a \<noteq> None"
      using index_okD(3) [OF assms(1) b] by (auto split: option.split)
    from Suc.IH [OF this] show ?thesis using Some b by (auto simp: deref_def)
  qed auto
qed auto

lemma block_times_ne: "block_times (Suc n) st (Some a) = (Inr ts :: ('e, int list) exec) \<Longrightarrow> ts \<noteq> []"
  by (auto elim!: exec_bind_InrE)

lemma block_times_take:
  "block_times (n + k) st p = (Inr ts :: ('e, int list) exec) \<Longrightarrow>
     block_times n st p = (Inr (take n ts) :: ('e, int list) exec)"
  by (induction n arbitrary: p ts) (auto elim!: exec_bind_InrE split: if_splits)

lemma GetMedianTimePast_mono:
  assumes "index_ok st" "st a = Some b" "pprev b = Some p"
    and m: "GetMedianTimePast st p = (Inr m :: ('e, int) exec)" and "m \<le> bi_GetBlockTime b"
  shows "\<exists>m'. GetMedianTimePast st a = (Inr m' :: ('e, int) exec) \<and> m \<le> m'"
proof -
  obtain q where q: "st p = Some q" using index_okD(3) [OF assms(1-3)] by auto
  then obtain ts where ts: "block_times 11 st (Some p) = (Inr ts :: ('e, int list) exec)" "length ts \<le> 11"
    using block_times_some [OF assms(1), of "Some p" 11, where 'e = 'e] by auto
  have "block_times (Suc 10) st (Some p) = (Inr ts :: ('e, int list) exec)" using ts(1) by (simp del: block_times.simps)
  then have ne: "ts \<noteq> []" by (rule block_times_ne)
  have m: "m = median ts" using m GetMedianTimePast_median [of st p ts, where 'e = 'e] ts ne by (simp add: nMedianTimeSpan_def)
  have "block_times (Suc 10) st (Some a) = (Inr (bi_GetBlockTime b # take 10 ts) :: ('e, int list) exec)"
    using block_times_take [of 10 1 st "Some p" ts, where 'e = 'e] ts assms(2,3)
    unfolding block_times.simps(2) by (simp add: deref_def)
  then have "GetMedianTimePast st a = (Inr (median (bi_GetBlockTime b # take 10 ts)) :: ('e, int) exec)"
    by (intro GetMedianTimePast_median) (simp_all add: nMedianTimeSpan_def del: block_times.simps)
  then show ?thesis using median_push [of ts 5] ne ts m assms(5) by simp
qed

end
