(* ===== verification/Chain_Facts.thy ===== *)
theory Chain_Facts
  imports Index_Facts
begin

text \<open>
  The active chain of a well-formed index: the vector is the list of the ancestors of its tip, setting
  a tip, finding a fork and building a locator return on every well-formed index, and give what the
  links to the parents define.
\<close>

lemma pprev_root:
  assumes "index_ok st" "st a = Some b" "bi_nHeight b \<le> 0"
  shows "pprev b = None"
proof (cases "pprev b")
  case (Some p)
  with index_okD(3) [OF assms(1,2)] obtain q where q: "st p = Some q" "bi_nHeight b = bi_nHeight q + 1" by blast
  then show ?thesis using index_okD(1) [OF assms(1) q(1)] assms(3) by simp
qed simp

lemma pprev_parent:
  assumes "index_ok st" "st a = Some b" "bi_nHeight b = int (Suc n)"
  obtains p q where "pprev b = Some p" "st p = Some q" "bi_nHeight q = int n"
  using index_okD(2,3) [OF assms(1,2)] assms(3) by (cases "pprev b") auto

text \<open>A block is in the chain when the vector holds it at its height.\<close>

definition on_chain :: "index_store \<Rightarrow> CChain \<Rightarrow> addr \<Rightarrow> bool" where
  "on_chain st v c \<longleftrightarrow> (\<exists>d. st c = Some d \<and> chain_at v (bi_nHeight d) = Some c)"

lemma loops_None [simp]:
  "set_tip_loop st v None = Some (Inr v)" "find_fork_loop st v None = Some (Inr None)"
  by (simp_all add: set_tip_loop.simps [of st v None] find_fork_loop.simps [of st v None])

lemma set_tip_loop_Some:
  assumes "st a = Some b" "bi_nHeight b = int k" "k < length v"
  shows "v ! k = Some a \<Longrightarrow> set_tip_loop st v (Some a) = Some (Inr v :: ('e, CChain) exec)"
    "v ! k \<noteq> Some a \<Longrightarrow>
      set_tip_loop st v (Some a) = (set_tip_loop st (v[k := Some a]) (pprev b) :: ('e, CChain) exec option)"
  using assms by (subst set_tip_loop.simps; simp)+

lemma find_fork_loop_Some:
  assumes "st a = Some b"
  shows "on_chain st v a \<Longrightarrow> find_fork_loop st v (Some a) = Some (Inr (Some a) :: ('e, addr option) exec)"
    "\<not> on_chain st v a \<Longrightarrow>
      find_fork_loop st v (Some a) = (find_fork_loop st v (pprev b) :: ('e, addr option) exec option)"
  using assms by (subst find_fork_loop.simps; simp add: on_chain_def)+

lemma locator_loop_Some:
  assumes "st a = Some b" "phashBlock b = Some hash"
  shows "bi_nHeight b = 0 \<Longrightarrow> locator_loop st v vHave nStep (Some a) = Some (Inr (vHave @ [hash]) :: ('e, bytes list) exec)"
    "bi_nHeight b \<noteq> 0 \<Longrightarrow>
     (if chain_at v (bi_nHeight b) = Some a then Inr (chain_at v (max (bi_nHeight b - nStep) 0))
      else GetAncestor st a (max (bi_nHeight b - nStep) 0)) = (Inr p :: ('e, addr option) exec) \<Longrightarrow>
     nStep' = (if 10 < length (vHave @ [hash]) then nStep * 2 else nStep) \<Longrightarrow> nStep' \<le> INT_MAX \<Longrightarrow>
     locator_loop st v vHave nStep (Some a) =
       (locator_loop st v (vHave @ [hash]) nStep' p :: ('e, bytes list) exec option)"
proof -
  show "locator_loop st v vHave nStep (Some a) = Some (Inr (vHave @ [hash]) :: ('e, bytes list) exec)" if "bi_nHeight b = 0"
    by (subst locator_loop.simps) (simp only: assms option.case that if_True simp_thms)
  show "locator_loop st v vHave nStep (Some a) =
       (locator_loop st v (vHave @ [hash]) nStep' p :: ('e, bytes list) exec option)"
    if "bi_nHeight b \<noteq> 0" "nStep' = (if 10 < length (vHave @ [hash]) then nStep * 2 else nStep)" "nStep' \<le> INT_MAX"
      and nx: "(if chain_at v (bi_nHeight b) = Some a then Inr (chain_at v (max (bi_nHeight b - nStep) 0))
      else GetAncestor st a (max (bi_nHeight b - nStep) 0)) = (Inr p :: ('e, addr option) exec)"
  proof -
    have "locator_loop st v vHave nStep (Some a) =
        (if 10 < length (vHave @ [hash]) then
           if INT_MAX < nStep * 2 then Some (Inl Abort)
           else locator_loop st v (vHave @ [hash]) (nStep * 2) p
         else locator_loop st v (vHave @ [hash]) nStep p :: ('e, bytes list) exec option)"
      by (subst locator_loop.simps) (simp only: assms option.case that(1) if_False nx sum.case)
    then show ?thesis using that(2,3) by (simp only: not_less [symmetric] split: if_splits) simp_all
  qed
qed

section \<open>The vector holds the ancestors of the tip\<close>

definition chain_of :: "index_store \<Rightarrow> addr \<Rightarrow> CChain" where
  "chain_of st a =
     (case st a of None \<Rightarrow> []
      | Some b \<Rightarrow> map (\<lambda>i. ancestor st a (nat (bi_nHeight b) - i)) [0..<nat (bi_nHeight b) + 1])"

definition chain_ok :: "index_store \<Rightarrow> CChain \<Rightarrow> bool" where
  "chain_ok st vChain \<longleftrightarrow> vChain = [] \<or> (\<exists>a. st a \<noteq> None \<and> vChain = chain_of st a)"

lemma length_chain_of: "st a = Some b \<Longrightarrow> length (chain_of st a) = nat (bi_nHeight b) + 1"
  by (simp add: chain_of_def)

lemma chain_of_nth:
  "st a = Some b \<Longrightarrow> i \<le> nat (bi_nHeight b) \<Longrightarrow> chain_of st a ! i = ancestor st a (nat (bi_nHeight b) - i)"
  by (simp add: chain_of_def del: upt_Suc)

lemma chain_of_entry:
  assumes "index_ok st" "st a = Some b" "i \<le> nat (bi_nHeight b)"
  shows "\<exists>c d. chain_of st a ! i = Some c \<and> st c = Some d \<and> bi_nHeight d = int i"
  using ancestor_some [OF assms(1,2), of "nat (bi_nHeight b) - i"] index_okD(1) [OF assms(1,2)] assms
  by (auto simp: chain_of_nth)

lemma chain_of_prefix:
  assumes "index_ok st" "st a = Some b" "chain_of st a ! i = Some c" "st c = Some d"
    and "i \<le> nat (bi_nHeight b)" "j \<le> i"
  shows "chain_of st a ! j = chain_of st c ! j"
proof -
  let ?n = "nat (bi_nHeight b)"
  have c: "ancestor st a (?n - i) = Some c" using assms chain_of_nth by simp
  have h: "nat (bi_nHeight d) = i" using chain_of_entry [OF assms(1,2,5)] assms by auto
  have "?n - j = (?n - i) + (i - j)" using assms by simp
  then have "ancestor st a (?n - j) = ancestor st c (i - j)"
    using c ancestor_add [of st a "?n - i" "i - j"] by simp
  then show ?thesis using h assms by (simp add: chain_of_nth)
qed

lemma chain_ok_entry:
  assumes "index_ok st" "chain_ok st v" "i < length v"
  shows "\<exists>c d. v ! i = Some c \<and> st c = Some d \<and> bi_nHeight d = int i \<and> (\<forall>j \<le> i. v ! j = chain_of st c ! j)"
proof -
  obtain a b where a: "st a = Some b" "v = chain_of st a"
    using assms(2,3) by (auto simp: chain_ok_def)
  then have i: "i \<le> nat (bi_nHeight b)" using assms(3) length_chain_of by fastforce
  with chain_of_entry [OF assms(1) a(1) i] chain_of_prefix [OF assms(1) a(1) _ _ i] a(2) show ?thesis by blast
qed

lemma set_tip_loop_eq:
  assumes "index_ok st" "chain_ok st old" "st a = Some b" and n: "n = nat (bi_nHeight b)"
    and "st c = Some d" "k = nat (bi_nHeight d)" "k \<le> n" "chain_of st a ! k = Some c" "length v = n + 1"
    and hi: "\<forall>i. k < i \<and> i \<le> n \<longrightarrow> v ! i = chain_of st a ! i"
    and lo: "\<forall>i. i \<le> k \<longrightarrow> v ! i = (if i < length old then old ! i else None)"
  shows "set_tip_loop st v (Some c) = Some (Inr (chain_of st a) :: ('e, CChain) exec)"
  using assms(5-)
proof (induction k arbitrary: c d v rule: less_induct)
  case (less k)
  have d: "bi_nHeight d = int k" using index_okD(1) [OF assms(1) less.prems(1)] less.prems(2) by simp
  have len: "length (chain_of st a) = n + 1" using length_chain_of [of st a, OF assms(3)] n by simp
  have kv: "k < length v" using less.prems(3,5) by simp
  have below: "chain_of st a ! i = chain_of st c ! i" if "i \<le> k" for i
    using chain_of_prefix [OF assms(1,3) less.prems(4,1)] less.prems(3) n that by simp
  have high: "v ! i = chain_of st a ! i" if "k < i" "i \<le> n" for i using less.prems(6) that by blast
  have low: "v ! i = (if i < length old then old ! i else None)" if "i \<le> k" for i using less.prems(7) that by blast
  show ?case
  proof (cases "v ! k = Some c")
    case True
    then have old: "k < length old" "old ! k = Some c" using low [of k] by (simp_all split: if_splits)
    then have "\<forall>j \<le> k. old ! j = chain_of st c ! j" using chain_ok_entry [OF assms(1,2) old(1)] by auto
    then have "v ! i = chain_of st a ! i" if "i < length v" for i
      using low [of i] high [of i] below [of i] old(1) that less.prems(5) by (cases "i \<le> k") simp_all
    then have "v = chain_of st a" using less.prems(5) len by (intro nth_equalityI) simp_all
    then show ?thesis using set_tip_loop_Some(1) [of st c d k v, OF less.prems(1) d kv True, where 'e = 'e] by simp
  next
    case False
    note step = set_tip_loop_Some(2) [of st c d k v, OF less.prems(1) d kv False, where 'e = 'e]
    have here: "v[k := Some c] ! k = chain_of st a ! k" using kv less.prems(4) by simp
    show ?thesis
    proof (cases k)
      case 0
      then have "pprev d = None" using pprev_root [OF assms(1) less.prems(1)] d by simp
      moreover have "v[k := Some c] ! i = chain_of st a ! i" if "i < length v" for i
        using here high [of i] less.prems(5) that 0 by (cases "i = k") simp_all
      then have "v[k := Some c] = chain_of st a"
        using less.prems(5) len by (intro nth_equalityI) simp_all
      ultimately show ?thesis using step by simp
    next
      case (Suc j)
      obtain p q where p: "pprev d = Some p" "st p = Some q" "bi_nHeight q = int j"
        using pprev_parent [OF assms(1) less.prems(1), of j] d Suc by blast
      have "nat (bi_nHeight d) = Suc j" using less.prems(2) Suc by simp
      then have "chain_of st c ! j = ancestor st c (Suc 0)" using chain_of_nth [of st c d j] less.prems(1) by simp
      then have pj: "chain_of st a ! j = Some p" using less.prems(1) p(1) below [of j] Suc by simp
      have "set_tip_loop st (v[k := Some c]) (Some p) = Some (Inr (chain_of st a) :: ('e, CChain) exec)"
      proof (rule less.IH [OF _ p(2) _ _ pj])
        show "\<forall>i. j < i \<and> i \<le> n \<longrightarrow> v[k := Some c] ! i = chain_of st a ! i"
        proof (intro allI impI)
          fix i assume "j < i \<and> i \<le> n"
          then show "v[k := Some c] ! i = chain_of st a ! i"
            using here high [of i] Suc by (cases "i = k") simp_all
        qed
        show "\<forall>i. i \<le> j \<longrightarrow> v[k := Some c] ! i = (if i < length old then old ! i else None)"
          using low Suc by simp
      qed (use p(3) less.prems(3,5) Suc in simp_all)
      then show ?thesis using step p(1) by simp
    qed
  qed
qed

lemma vec_resize_nth: "i < n \<Longrightarrow> vec_resize x xs n ! i = (if i < length xs then xs ! i else x)"
  by (simp add: vec_resize_def nth_append)

lemma length_vec_resize [simp]: "length (vec_resize x xs n) = n"
  by (simp add: vec_resize_def)

lemma SetTip_chain_of:
  assumes "index_ok st" "chain_ok st v" "st a = Some b"
  shows "SetTip st v (Some a) = Some (Inr (chain_of st a) :: ('e, CChain) exec)"
proof -
  let ?n = "nat (bi_nHeight b)"
  have "nat (bi_nHeight b + 1) = ?n + 1" using index_okD(1) [OF assms(1,3)] by simp
  moreover have "set_tip_loop st (vec_resize None v (?n + 1)) (Some a) = Some (Inr (chain_of st a) :: ('e, CChain) exec)"
  proof (rule set_tip_loop_eq [OF assms refl assms(3) refl order_refl])
    show "chain_of st a ! ?n = Some a" using chain_of_nth [of st a b ?n] assms(3) by simp
    show "\<forall>i. i \<le> ?n \<longrightarrow> vec_resize None v (?n + 1) ! i = (if i < length v then v ! i else None)"
      by (simp add: vec_resize_nth)
    show "\<forall>i. ?n < i \<and> i \<le> ?n \<longrightarrow> vec_resize None v (?n + 1) ! i = chain_of st a ! i"
      using leD by blast
  qed simp
  ultimately show ?thesis using assms(3) by (simp add: SetTip_def)
qed

lemma Tip_chain_of:
  assumes "index_ok st" "st a = Some b"
  shows "Tip (chain_of st a) = Some a" "Height (chain_of st a) = bi_nHeight b"
  using chain_of_nth [of st a b "nat (bi_nHeight b)"] length_chain_of [of st a, OF assms(2)]
    index_okD(1) [OF assms] assms(2)
  by (simp_all add: Tip_def Height_def)

section \<open>Forks\<close>

lemma chain_at_eq: "0 \<le> h \<Longrightarrow> chain_at v h = (if nat h < length v then v ! nat h else None)"
  by (auto simp: chain_at_def)

text \<open>The last common block: the highest ancestor of \<open>a\<close> that is in the chain.\<close>

definition fork_of :: "index_store \<Rightarrow> CChain \<Rightarrow> addr \<Rightarrow> nat \<Rightarrow> addr option \<Rightarrow> bool" where
  "fork_of st v a n r \<longleftrightarrow>
     (case r of None \<Rightarrow> \<forall>k \<le> n. \<not> on_chain st v (the (ancestor st a k))
      | Some c \<Rightarrow> \<exists>k \<le> n. ancestor st a k = Some c \<and> on_chain st v c \<and>
          (\<forall>j < k. \<not> on_chain st v (the (ancestor st a j))))"

lemma find_fork_loop_eq:
  assumes "index_ok st" "st a = Some b" "n = nat (bi_nHeight b)"
  shows "\<exists>r. find_fork_loop st v (Some a) = Some (Inr r :: ('e, addr option) exec) \<and> fork_of st v a n r"
  using assms(2,3) unfolding fork_of_def
proof (induction n arbitrary: a b)
  case 0
  show ?case
  proof (cases "on_chain st v a")
    case True
    then show ?thesis using find_fork_loop_Some(1) [of st a b v, OF 0(1), where 'e = 'e] by auto
  next
    case False
    then have "pprev b = None" using pprev_root [OF assms(1) 0(1)] 0(2) by simp
    then show ?thesis using find_fork_loop_Some(2) [of st a b v, OF 0(1) False, where 'e = 'e] False by auto
  qed
next
  case (Suc n)
  show ?case
  proof (cases "on_chain st v a")
    case True
    then show ?thesis using find_fork_loop_Some(1) [of st a b v, OF Suc.prems(1), where 'e = 'e] by (auto intro!: exI [of _ "Some a"] exI [of _ 0])
  next
    case False
    obtain p q where p: "pprev b = Some p" "st p = Some q" "n = nat (bi_nHeight q)"
    proof (rule pprev_parent [OF assms(1) Suc.prems(1), of n])
      show "bi_nHeight b = int (Suc n)" using Suc.prems(2) by arith
    qed (use that in simp)
    from Suc.IH [OF p(2,3)] obtain r where
      r: "find_fork_loop st v (Some p) = Some (Inr r :: ('e, addr option) exec)"
      "case r of None \<Rightarrow> \<forall>k \<le> n. \<not> on_chain st v (the (ancestor st p k))
       | Some c \<Rightarrow> \<exists>k \<le> n. ancestor st p k = Some c \<and> on_chain st v c \<and>
           (\<forall>j < k. \<not> on_chain st v (the (ancestor st p j)))" by blast
    have anc: "ancestor st a (Suc k) = ancestor st p k" for k using Suc.prems(1) p(1) by simp
    have "find_fork_loop st v (Some a) = Some (Inr r :: ('e, addr option) exec)"
      using find_fork_loop_Some(2) [of st a b v, OF Suc.prems(1) False, where 'e = 'e] p r(1) by simp
    moreover have "case r of None \<Rightarrow> \<forall>k \<le> Suc n. \<not> on_chain st v (the (ancestor st a k))
       | Some c \<Rightarrow> \<exists>k \<le> Suc n. ancestor st a k = Some c \<and> on_chain st v c \<and>
           (\<forall>j < k. \<not> on_chain st v (the (ancestor st a j)))"
    proof (cases r)
      case None
      have "\<not> on_chain st v (the (ancestor st a k))" if "k \<le> Suc n" for k
        using r(2) None False anc that by (cases k) auto
      then show ?thesis using None by simp
    next
      case (Some c)
      then obtain k where k: "k \<le> n" "ancestor st p k = Some c" "on_chain st v c"
        "\<forall>j < k. \<not> on_chain st v (the (ancestor st p j))" using r(2) by auto
      have "\<not> on_chain st v (the (ancestor st a j))" if "j < Suc k" for j
        using k(4) False anc that by (cases j) auto
      then show ?thesis using Some k anc by (auto intro!: exI [of _ "Suc k"])
    qed
    ultimately show ?thesis by blast
  qed
qed

lemma on_chain_height: "on_chain st v c \<Longrightarrow> st c = Some d \<Longrightarrow> bi_nHeight d \<le> Height v"
  by (auto simp: on_chain_def chain_at_def Height_def split: if_splits)

lemma fork_of_shift:
  assumes "fork_of st v c n r" "ancestor st a m = Some c" "\<forall>j < m. \<not> on_chain st v (the (ancestor st a j))"
  shows "fork_of st v a (m + n) r"
proof -
  have add: "ancestor st a (m + k) = ancestor st c k" for k using assms(2) by (simp add: ancestor_add)
  have low: "\<not> on_chain st v (the (ancestor st a j))"
    if "m \<le> j \<Longrightarrow> \<not> on_chain st v (the (ancestor st c (j - m)))" for j
    using that assms(3) add [of "j - m"] by (cases "j < m") auto
  show ?thesis
  proof (cases r)
    case None
    then show ?thesis using assms(1) low by (auto simp: fork_of_def)
  next
    case (Some x)
    then obtain k where k: "k \<le> n" "ancestor st c k = Some x" "on_chain st v x"
      "\<forall>j < k. \<not> on_chain st v (the (ancestor st c j))" using assms(1) by (auto simp: fork_of_def)
    then have "\<forall>j < m + k. \<not> on_chain st v (the (ancestor st a j))" using low by auto
    then show ?thesis using Some k add by (auto simp: fork_of_def intro!: exI [of _ "m + k"])
  qed
qed

lemma FindFork_eq:
  assumes "index_ok st" "st a = Some b"
  shows "\<exists>r. FindFork st v a = Some (Inr r :: ('e, addr option) exec) \<and> fork_of st v a (nat (bi_nHeight b)) r"
proof (cases "Height v < bi_nHeight b")
  case False
  then show ?thesis
    using find_fork_loop_eq [OF assms refl, of v, where 'e = 'e] assms(2) by (simp add: FindFork_def)
next
  case True
  let ?m = "nat (bi_nHeight b - Height v)"
  have high: "\<not> on_chain st v (the (ancestor st a j))" if j: "j < ?m" "j \<le> nat (bi_nHeight b)" for j
  proof -
    obtain c d where "ancestor st a j = Some c" "st c = Some d" "bi_nHeight d = bi_nHeight b - int j"
      using ancestor_some [OF assms, of j] j index_okD(1) [OF assms] by (auto simp: le_nat_iff)
    then show ?thesis using on_chain_height [of st v c d] j by auto
  qed
  show ?thesis
  proof (cases "Height v < 0")
    case neg: True
    then have "FindFork st v a = (Some (Inr None) :: ('e, addr option) exec option)"
      using True neg assms GetAncestor_eq [OF assms, of "Height v", where 'e = 'e] by (simp add: FindFork_def)
    moreover have "fork_of st v a (nat (bi_nHeight b)) None"
      using high neg index_okD(1) [OF assms] by (auto simp: fork_of_def)
    ultimately show ?thesis by blast
  next
    case False
    then obtain c d where c: "ancestor st a ?m = Some c" "st c = Some d" "bi_nHeight d = Height v"
      using ancestor_some [OF assms, of ?m] True by auto
    obtain r where r: "find_fork_loop st v (Some c) = Some (Inr r :: ('e, addr option) exec)"
      "fork_of st v c (nat (Height v)) r"
      using find_fork_loop_eq [OF assms(1) c(2) refl, of v, where 'e = 'e] c(3) by auto
    have "FindFork st v a = Some (Inr r :: ('e, addr option) exec)"
      using True False assms c(1) r(1) GetAncestor_eq [OF assms, of "Height v", where 'e = 'e] by (simp add: FindFork_def)
    moreover have "?m + nat (Height v) = nat (bi_nHeight b)" using True False by simp
    ultimately show ?thesis using fork_of_shift [OF r(2) c(1)] high by fastforce
  qed
qed

section \<open>Locators\<close>

function locator_heights :: "nat \<Rightarrow> nat \<Rightarrow> nat \<Rightarrow> nat list" where
  "locator_heights h nStep n =
     (if h = 0 \<or> nStep = 0 then [h]
      else h # locator_heights (h - nStep) (if 10 < n + 1 then nStep * 2 else nStep) (n + 1))"
  by pat_completeness auto
termination by (relation "measure (\<lambda>(h, nStep, n). h)") auto

declare locator_heights.simps [simp del]

definition hash_at :: "index_store \<Rightarrow> addr \<Rightarrow> nat \<Rightarrow> bytes" where
  "hash_at st c h =
     the (Option.bind (Option.bind (Option.bind (st c) (\<lambda>d. ancestor st c (nat (bi_nHeight d) - h))) st) phashBlock)"

definition hashes_ok :: "index_store \<Rightarrow> bool" where
  "hashes_ok st \<longleftrightarrow> (\<forall>a b. st a = Some b \<longrightarrow> phashBlock b \<noteq> None)"

text \<open>\<open>steps_left h nStep k\<close>: steps that double from \<open>nStep\<close> reach height 0 in \<open>k\<close> rounds, within \<open>2\<^sup>3\<^sup>0\<close>.\<close>

definition steps_left :: "nat \<Rightarrow> nat \<Rightarrow> nat \<Rightarrow> bool" where
  "steps_left h nStep k \<longleftrightarrow> h \<le> nStep * (2 ^ k - 1) \<and> nStep * 2 ^ k \<le> 2 ^ 30 \<and> 0 < nStep"

lemma steps_left_keep: "steps_left h nStep k \<Longrightarrow> steps_left (h - nStep) nStep k"
  by (auto simp: steps_left_def)

lemma steps_left_double:
  assumes "steps_left h nStep k" "0 < h"
  obtains j where "k = Suc j" "steps_left (h - nStep) (nStep * 2) j" "nStep * 2 \<le> 2 ^ 30"
proof -
  obtain j where j: "k = Suc j" using assms by (cases k) (auto simp: steps_left_def)
  have one: "(1 :: nat) \<le> 2 ^ j" by simp
  obtain m where "2 ^ j = Suc m" using one by (cases "2 ^ j :: nat") auto
  then have "nStep * (2 ^ k - 1) = nStep * 2 * (2 ^ j - 1) + nStep"
    using j by (simp add: algebra_simps)
  then have "h - nStep \<le> nStep * 2 * (2 ^ j - 1)" using assms(1) unfolding steps_left_def by linarith
  moreover have b: "nStep * 2 * 2 ^ j \<le> 2 ^ 30" using assms(1) j by (simp add: steps_left_def mult.assoc)
  moreover have "nStep * 2 \<le> nStep * 2 * 2 ^ j" using one by simp
  then have "nStep * 2 \<le> 2 ^ 30" using b by (rule order_trans)
  ultimately have "steps_left (h - nStep) (nStep * 2) j" "nStep * 2 \<le> 2 ^ 30"
    using assms(1) by (auto simp: steps_left_def)
  then show thesis using that j by blast
qed

lemma length_locator_heights:
  "steps_left h nStep k \<Longrightarrow> length (locator_heights h nStep n) \<le> (10 - n) + k + 1"
proof (induction h arbitrary: nStep k n rule: less_induct)
  case (less h)
  show ?case
  proof (cases "h = 0")
    case True
    then show ?thesis by (simp add: locator_heights.simps)
  next
    case False
    have pos: "0 < nStep" using less.prems by (simp add: steps_left_def)
    show ?thesis
    proof (cases "10 \<le> n")
      case True
      from steps_left_double [OF less.prems] False obtain j where
        j: "k = Suc j" "steps_left (h - nStep) (nStep * 2) j" by auto
      then show ?thesis
        using less.IH [of "h - nStep" "nStep * 2" j "n + 1"] True False pos
        by (simp add: locator_heights.simps [of h nStep n])
    next
      case n: False
      then show ?thesis
        using less.IH [OF _ steps_left_keep [OF less.prems], of "n + 1"] False pos
        by (simp add: locator_heights.simps [of h nStep n])
    qed
  qed
qed

lemma locator_heights_le: "k \<in> set (locator_heights h nStep n) \<Longrightarrow> k \<le> h"
proof (induction h nStep n rule: locator_heights.induct)
  case (1 h nStep n)
  then show ?case by (cases "h = 0 \<or> nStep = 0") (auto simp: locator_heights.simps [of h nStep n])
qed

lemma locator_heights_ends:
  "0 < nStep \<Longrightarrow> hd (locator_heights h nStep n) = h \<and> last (locator_heights h nStep n) = 0 \<and> locator_heights h nStep n \<noteq> []"
proof (induction h nStep n rule: locator_heights.induct)
  case (1 h nStep n)
  show ?case
  proof (cases "h = 0")
    case True
    then show ?thesis by (simp add: locator_heights.simps [of 0 nStep n])
  next
    case False
    with 1 show ?thesis by (simp add: locator_heights.simps [of h nStep n] split: if_splits)
  qed
qed

lemma hash_at_entry:
  assumes "st c = Some d" "ancestor st c (nat (bi_nHeight d) - h) = Some x" "st x = Some y" "h \<le> nat (bi_nHeight d)"
    and "bi_nHeight y = int h" "k \<le> h"
  shows "hash_at st x k = hash_at st c k"
proof -
  have "nat (bi_nHeight d) - k = (nat (bi_nHeight d) - h) + (h - k)" using assms by simp
  then have "ancestor st c (nat (bi_nHeight d) - k) = ancestor st x (h - k)"
    using ancestor_add [of st c "nat (bi_nHeight d) - h" "h - k"] assms(2) by simp
  then show ?thesis using assms by (simp add: hash_at_def)
qed

lemma locator_next:
  assumes "index_ok st" "chain_ok st v" "st c = Some d" "bi_nHeight d = int h"
  shows "(if chain_at v (bi_nHeight d) = Some c then Inr (chain_at v (max (bi_nHeight d - int s) 0))
      else GetAncestor st c (max (bi_nHeight d - int s) 0)) =
    (Inr (ancestor st c (h - (h - s))) :: ('e, addr option) exec)"
proof -
  have m: "max (bi_nHeight d - int s) 0 = int (h - s)" using assms(4) by simp
  have "chain_at v (int (h - s)) = ancestor st c (h - (h - s))" if "chain_at v (bi_nHeight d) = Some c"
  proof -
    have h: "h < length v" "v ! h = Some c" using that assms(4) by (auto simp: chain_at_def split: if_splits)
    then have "v ! (h - s) = chain_of st c ! (h - s)" using chain_ok_entry [OF assms(1,2) h(1)] by auto
    then show ?thesis using h chain_of_nth [of st c d "h - s"] assms(3,4) by (auto simp: chain_at_def)
  qed
  moreover have "nat (bi_nHeight d - int (h - s)) = h - (h - s)" using assms(4) by simp
  ultimately show ?thesis
    using GetAncestor_eq [OF assms(1,3), of "int (h - s)", where 'e = 'e] assms(4) unfolding m by auto
qed

lemma locator_loop_eq:
  assumes "index_ok st" "hashes_ok st" "chain_ok st v"
    and "st c = Some d" "bi_nHeight d = int h" "steps_left h s k"
  shows "locator_loop st v vHave (int s) (Some c) =
    Some (Inr (vHave @ map (hash_at st c) (locator_heights h s (length vHave))) :: ('e, bytes list) exec)"
  using assms(4-)
proof (induction h arbitrary: c d s k vHave rule: less_induct)
  case (less h)
  obtain hash where hash: "phashBlock d = Some hash" using assms(2) less.prems(1) by (auto simp: hashes_ok_def)
  have own: "hash_at st c h = hash" using less.prems(1,2) hash by (simp add: hash_at_def)
  have s: "0 < s" using less.prems(3) by (simp add: steps_left_def)
  show ?case
  proof (cases "h = 0")
    case True
    then show ?thesis
      using locator_loop_Some(1) [of st c d, OF less.prems(1) hash, where 'e = 'e] less.prems(2) own
      by (simp add: locator_heights.simps [of 0])
  next
    case False
    define s' where "s' = (if 10 < length (vHave @ [hash]) then s * 2 else s)"
    obtain k' where k': "steps_left (h - s) s' k'" "s' \<le> 2 ^ 30"
    proof (cases "10 < length (vHave @ [hash])")
      case True
      obtain j where "steps_left (h - s) (s * 2) j" "s * 2 \<le> 2 ^ 30"
        using steps_left_double [OF less.prems(3)] False by blast
      with True that show thesis by (simp add: s'_def)
    next
      case F: False
      have "s \<le> s * 2 ^ k" by simp
      then have "s \<le> 2 ^ 30" using less.prems(3) unfolding steps_left_def by linarith
      with steps_left_keep [OF less.prems(3)] F that show thesis by (simp add: s'_def)
    qed
    obtain x y where x: "ancestor st c (h - (h - s)) = Some x" "st x = Some y" "bi_nHeight y = int (h - s)"
      using ancestor_some [OF assms(1) less.prems(1), of "h - (h - s)"] less.prems(2) by auto
    have step: "locator_loop st v vHave (int s) (Some c) =
        (locator_loop st v (vHave @ [hash]) (int s') (Some x) :: ('e, bytes list) exec option)"
      using less.prems(2) False x(1) k'(2) locator_next [OF assms(1,3) less.prems(1,2), of s, where 'e = 'e]
      by (intro locator_loop_Some(2) [of st c d, OF less.prems(1) hash]) (simp_all add: s'_def)
    have "hash_at st x k = hash_at st c k" if "k \<in> set (locator_heights (h - s) s' (length vHave + 1))" for k
      using hash_at_entry [of st c d "h - s" x y k] less.prems(1,2) x locator_heights_le [OF that] by simp
    then have "map (hash_at st x) (locator_heights (h - s) s' (length vHave + 1)) =
        map (hash_at st c) (locator_heights (h - s) s' (length vHave + 1))"
      by (intro map_cong refl)
    then show ?thesis
      using less.IH [OF _ x(2,3) k'(1), of "vHave @ [hash]"] step False s own
      by (simp add: locator_heights.simps [of h s "length vHave"] s'_def)
  qed
qed

section \<open>Properties\<close>

text \<open>C17: The skip list is only an optimisation. On every well-formed index, \<open>GetAncestor\<close> returns, for
  every height from 0 to the height of the block, the block that following the links to the parents
  reaches, and the null pointer for every other height; the assertion in its loop never fails.\<close>

theorem get_ancestor_walk:
  assumes "index_ok st" "st a = Some b"
  shows "(GetAncestor st a h :: ('e, addr option) exec) =
    Inr (if h < 0 \<or> bi_nHeight b < h then None else ancestor st a (nat (bi_nHeight b - h)))"
  by (rule GetAncestor_eq [OF assms])

text \<open>C19: The active chain is the list of the ancestors of its tip. Whatever chain was set before, setting
  the tip to a block of a well-formed index returns, with the vector of exactly that block's ancestors
  from the root up, so that it is the tip and its height is that of the chain.\<close>

theorem set_tip_ancestors:
  assumes "index_ok st" "chain_ok st vChain" "st a = Some b"
  shows "\<exists>v. SetTip st vChain (Some a) = Some (Inr v :: ('e, CChain) exec) \<and>
    length v = nat (bi_nHeight b) + 1 \<and>
    (\<forall>i < length v. v ! i = ancestor st a (nat (bi_nHeight b) - i)) \<and>
    Tip v = Some a \<and> Height v = bi_nHeight b \<and> chain_ok st v"
  using SetTip_chain_of [OF assms, where 'e = 'e] length_chain_of [of st a, OF assms(3)]
    chain_of_nth [of st a, OF assms(3)] Tip_chain_of [OF assms(1,3)] assms(3)
  by (auto simp: chain_ok_def intro!: exI [of _ "chain_of st a"])

text \<open>C20: Searching the fork returns the last common block. For a block of a well-formed index and any
  vector, \<open>FindFork\<close> returns; its result is the highest ancestor of the block, itself included, that is
  in the chain, or the null pointer when none is.\<close>

theorem find_fork_highest:
  assumes "index_ok st" "st a = Some b"
  shows "\<exists>r. FindFork st vChain a = Some (Inr r :: ('e, addr option) exec) \<and>
    (case r of
       None \<Rightarrow> \<forall>k \<le> nat (bi_nHeight b). \<not> on_chain st vChain (the (ancestor st a k))
     | Some c \<Rightarrow> \<exists>k \<le> nat (bi_nHeight b). ancestor st a k = Some c \<and> on_chain st vChain c \<and>
         (\<forall>j < k. \<not> on_chain st vChain (the (ancestor st a j))))"
  using FindFork_eq [OF assms, of vChain, where 'e = 'e] unfolding fork_of_def .

text \<open>C18: Building a locator ends. On every well-formed index whose entries know their hashes, the loop of
  \<open>GetLocator\<close> returns for every block below height \<open>2\<^sup>3\<^sup>0\<close>, without overflow of its step, with at most
  41 hashes: those of ancestors at falling heights, first the block itself, last the block of height 0.\<close>

theorem locator_terminates:
  assumes "index_ok st" "hashes_ok st" "chain_ok st vChain" "st a = Some b" "bi_nHeight b < 2 ^ 30"
  shows "\<exists>hs. GetLocator st vChain (Some a) = Some (Inr hs :: ('e, bytes list) exec) \<and>
    length hs \<le> 41 \<and> hs = map (hash_at st a) (locator_heights (nat (bi_nHeight b)) 1 0) \<and>
    hs \<noteq> [] \<and> Some (hd hs) = phashBlock b \<and> last hs = hash_at st a 0"
proof -
  let ?hs = "locator_heights (nat (bi_nHeight b)) 1 0"
  have h: "bi_nHeight b = int (nat (bi_nHeight b))" using index_okD(1) [OF assms(1,4)] by simp
  have steps: "steps_left (nat (bi_nHeight b)) 1 30" using assms(5) by (simp add: steps_left_def)
  have ends: "hd ?hs = nat (bi_nHeight b)" "last ?hs = 0" "?hs \<noteq> []" using locator_heights_ends [of 1] by auto
  have "Some (hash_at st a (nat (bi_nHeight b))) = phashBlock b"
    using assms(2,4) by (auto simp: hash_at_def hashes_ok_def)
  moreover have "GetLocator st vChain (Some a) = Some (Inr (map (hash_at st a) ?hs) :: ('e, bytes list) exec)"
    using locator_loop_eq [OF assms(1-4) h steps, of "[]", where 'e = 'e] by (simp add: GetLocator_def)
  moreover have "length ?hs \<le> 41" using length_locator_heights [OF steps, of 0] by simp
  ultimately show ?thesis using ends by (simp add: hd_map last_map)
qed

section \<open>Witnesses\<close>

text \<open>An index of four blocks, of which the last two are children of the block at height 1.\<close>

definition sample_entry :: "nat \<Rightarrow> addr option \<Rightarrow> addr option \<Rightarrow> int \<Rightarrow> CBlockIndex" where
  "sample_entry h prev skip height =
     CBlockIndex_null\<lparr>phashBlock := Some [of_nat h], pprev := prev, pskip := skip, bi_nHeight := height,
       bi_nBits := 0x1d00ffff\<rparr>"

definition sample_index :: index_store where
  "sample_index =
     [0 \<mapsto> sample_entry 10 None None 0, 1 \<mapsto> sample_entry 11 (Some 0) (Some 0) 1,
      2 \<mapsto> sample_entry 12 (Some 1) (Some 0) 2, 3 \<mapsto> sample_entry 13 (Some 1) (Some 0) 2]"

lemma sample_index_entries:
  "sample_index 0 = Some (sample_entry 10 None None 0)"
  "sample_index 1 = Some (sample_entry 11 (Some 0) (Some 0) 1)"
  "sample_index 2 = Some (sample_entry 12 (Some 1) (Some 0) 2)"
  "sample_index 3 = Some (sample_entry 13 (Some 1) (Some 0) 2)"
  by (simp_all add: sample_index_def)

lemma sample_index_cases:
  assumes "sample_index a = Some b"
  shows "a = 0 \<and> b = sample_entry 10 None None 0 \<or> a = 1 \<and> b = sample_entry 11 (Some 0) (Some 0) 1 \<or>
    a = 2 \<and> b = sample_entry 12 (Some 1) (Some 0) 2 \<or> a = 3 \<and> b = sample_entry 13 (Some 1) (Some 0) 2"
  using assms by (simp add: sample_index_def split: if_splits)

lemma sample_entry_sel [simp]:
  "phashBlock (sample_entry h p s n) = Some [of_nat h]" "pprev (sample_entry h p s n) = p"
  "pskip (sample_entry h p s n) = s" "bi_nHeight (sample_entry h p s n) = n"
  "bi_nBits (sample_entry h p s n) = 0x1d00ffff"
  by (simp_all add: sample_entry_def)

lemma sample_ancestors:
  "ancestor sample_index a 0 = Some a"
  "ancestor sample_index 1 1 = Some 0" "ancestor sample_index 2 1 = Some 1" "ancestor sample_index 2 2 = Some 0"
  "ancestor sample_index 3 1 = Some 1" "ancestor sample_index 3 2 = Some 0"
  using sample_index_entries by (simp_all add: numeral_2_eq_2)

lemma sample_index_ok: "index_ok sample_index" "hashes_ok sample_index"
proof -
  have skip: "GetSkipHeight 0 = 0" "GetSkipHeight 1 = 0" "GetSkipHeight 2 = 0"
    by (simp_all add: GetSkipHeight_def InvertLowestOne_def)
  have n: "nat 2 = 2" "nat 1 = 1" by simp_all
  show "index_ok sample_index"
    unfolding index_ok_def
  proof (intro allI impI)
    fix a b assume "sample_index a = Some b"
    from sample_index_cases [OF this]
    show "0 \<le> bi_nHeight b \<and>
     (case pprev b of None \<Rightarrow> bi_nHeight b = 0
      | Some p \<Rightarrow> (\<exists>q. sample_index p = Some q \<and> bi_nHeight b = bi_nHeight q + 1)) \<and>
     (\<forall>s. pskip b = Some s \<longrightarrow> ancestor sample_index a (nat (bi_nHeight b - GetSkipHeight (bi_nHeight b))) = Some s)"
      by (elim disjE) (simp_all add: skip n sample_ancestors sample_index_entries del: ancestor.simps One_nat_def nat_1)
  qed
  show "hashes_ok sample_index"
    unfolding hashes_ok_def
  proof (intro allI impI)
    fix a b assume "sample_index a = Some b"
    from sample_index_cases [OF this] show "phashBlock b \<noteq> None" by (elim disjE) simp_all
  qed
qed

theorem get_ancestor_walk_witness:
  "GetAncestor sample_index 2 1 = (Inr (Some 1) :: (unit, addr option) exec) \<and>
   GetAncestor sample_index 2 3 = (Inr None :: (unit, addr option) exec)"
  using get_ancestor_walk [OF sample_index_ok(1) sample_index_entries(3), of 1, where 'e = unit]
    get_ancestor_walk [OF sample_index_ok(1) sample_index_entries(3), of 3, where 'e = unit]
    sample_ancestors by simp

theorem set_tip_ancestors_witness:
  "chain_ok sample_index (chain_of sample_index 3) \<and>
   (\<exists>v. SetTip sample_index (chain_of sample_index 3) (Some 2) = Some (Inr v :: (unit, CChain) exec) \<and>
     length v = 3 \<and> Tip v = Some 2 \<and> Height v = 2)"
proof -
  have "chain_ok sample_index (chain_of sample_index 3)"
    using sample_index_entries(4) by (auto simp: chain_ok_def)
  then show ?thesis
    using set_tip_ancestors [OF sample_index_ok(1) _ sample_index_entries(3), where 'e = unit] by auto
qed

theorem find_fork_highest_witness:
  "FindFork sample_index (chain_of sample_index 3) 2 = Some (Inr (Some 1) :: (unit, addr option) exec)"
proof -
  let ?v = "chain_of sample_index 3"
  have height: "nat (bi_nHeight (sample_entry 12 (Some 1) (Some 0) 2)) = 2" by simp
  have at: "chain_at ?v 1 = Some 1" "chain_at ?v 2 = Some 3"
    using sample_ancestors sample_index_entries(4)
    by (simp_all add: chain_at_def chain_of_def upt_rec numeral_3_eq_3 numeral_2_eq_2 del: upt_Suc)
  have one: "on_chain sample_index ?v 1" and two: "\<not> on_chain sample_index ?v 2"
    using at sample_index_entries by (auto simp: on_chain_def)
  obtain r where r: "FindFork sample_index ?v 2 = Some (Inr r :: (unit, addr option) exec)"
    "case r of
       None \<Rightarrow> \<forall>k \<le> 2. \<not> on_chain sample_index ?v (the (ancestor sample_index 2 k))
     | Some c \<Rightarrow> \<exists>k \<le> 2. ancestor sample_index 2 k = Some c \<and> on_chain sample_index ?v c \<and>
         (\<forall>j < k. \<not> on_chain sample_index ?v (the (ancestor sample_index 2 j)))"
    using find_fork_highest [OF sample_index_ok(1) sample_index_entries(3), of ?v, where 'e = unit] unfolding height by blast
  have "the (ancestor sample_index 2 1) = 1" using sample_ancestors(3) by simp
  then have "r \<noteq> None" using r(2) one by (cases r) (auto dest: spec [of _ 1] simp del: ancestor.simps)
  with r(2) obtain c k where c: "r = Some c" "k \<le> 2" "ancestor sample_index 2 k = Some c" "on_chain sample_index ?v c"
    "\<forall>j < k. \<not> on_chain sample_index ?v (the (ancestor sample_index 2 j))"
    by auto
  have "k \<noteq> 0" using c(3,4) two by (cases "k = 0") auto
  moreover have "\<not> 1 < k" using c(5) one \<open>the (ancestor sample_index 2 1) = 1\<close> by auto
  ultimately have "k = 1" by simp
  then show ?thesis using r(1) c(1,3) sample_ancestors(3) by simp
qed

theorem locator_terminates_witness:
  "chain_ok sample_index [] \<and>
   (\<exists>hs. GetLocator sample_index [] (Some 2) = Some (Inr hs :: (unit, bytes list) exec) \<and>
     length hs \<le> 41 \<and> hd hs = [12] \<and> last hs = [10])"
proof -
  have "chain_ok sample_index []" by (simp add: chain_ok_def)
  moreover have "hash_at sample_index 2 0 = [10]"
    using sample_index_entries sample_ancestors by (simp add: hash_at_def)
  ultimately show ?thesis
    using locator_terminates [OF sample_index_ok _ sample_index_entries(3), of "[]", where 'e = unit] by auto
qed

end
