(* ===== verification/Arith_Facts.thy ===== *)
theory Arith_Facts
  imports Arith_Uint256
begin

text \<open>
  The arithmetic meaning of the 256-bit integers of src/src/arith_uint256.h: every operation
  on limbs refines the operation on numbers modulo \<open>2^256\<close>, division is integer division and
  throws exactly for a zero divisor, comparison is comparison of the numbers, the conversion to
  and from 32 bytes is a bijection, and the compact format of \<open>SetCompact\<close> and
  \<open>GetCompact\<close> is a floating-point approximation from below with an exact overflow flag.
\<close>


abbreviation (input) au_wf :: "arith_uint256 \<Rightarrow> bool" where
  "au_wf a \<equiv> length a = WIDTH"

lemma length_au_ops [simp]:
  "length au_zero = WIDTH" "length (au_of_u64 v) = WIDTH"
  "length (au_shl a k) = WIDTH" "length (au_shr a k) = WIDTH"
  by (simp_all add: au_zero_def au_of_u64_def au_shl_def au_shr_def)

lemma au_val_256: "au_wf a \<Longrightarrow> au_val a < 2 ^ 256"
  using au_val_less [of a] by simp

lemma au_of_u64_val: "au_val (au_of_u64 v) = unat v"
proof -
  have "unat (ucast v :: u32) = unat v mod 2 ^ 32"
    by (simp add: unsigned_ucast_eq take_bit_eq_mod)
  moreover have "unat (ucast (drop_bit 32 v) :: u32) = unat v div 2 ^ 32"
  proof -
    have "unat v div 2 ^ 32 < 2 ^ 32"
      using unsigned_less [of v, where ?'a = nat] by (simp add: less_mult_imp_div_less)
    then show ?thesis by (simp add: unsigned_ucast_eq take_bit_eq_mod high32)
  qed
  ultimately show ?thesis by (simp add: au_of_u64_def au_val_append)
qed

lemma au_add_val:
  assumes "au_wf a" "au_wf b"
  shows "length (au_add a b) = WIDTH" "au_val (au_add a b) = (au_val a + au_val b) mod 2 ^ 256"
  using au_add_loop_val [of a b 0] assms by (simp_all add: au_add_def)

lemma au_neg_val:
  assumes "au_wf a"
  shows "length (au_neg a) = WIDTH" "au_val (au_neg a) = (2 ^ 256 - au_val a) mod 2 ^ 256"
proof -
  have n: "length (au_not a) = WIDTH" "au_val (au_not a) + au_val a + 1 = 2 ^ 256"
    using au_not_val [of a] assms by simp_all
  have "au_not a \<noteq> []" using n(1) by auto
  note i = au_inc_val [OF this, unfolded n(1)]
  show "length (au_neg a) = WIDTH" using i by (simp add: au_neg_def)
  have "au_val (au_not a) + 1 = 2 ^ 256 - au_val a" using n(2) by linarith
  then show "au_val (au_neg a) = (2 ^ 256 - au_val a) mod 2 ^ 256" using i by (simp add: au_neg_def)
qed

lemma au_sub_val:
  assumes "au_wf a" "au_wf b"
  shows "length (au_sub a b) = WIDTH"
    "au_val (au_sub a b) = (au_val a + (2 ^ 256 - au_val b)) mod 2 ^ 256"
    "au_val b \<le> au_val a \<Longrightarrow> au_val (au_sub a b) = au_val a - au_val b"
proof -
  note n = au_neg_val [OF assms(2)]
  show "length (au_sub a b) = WIDTH"
    and v: "au_val (au_sub a b) = (au_val a + (2 ^ 256 - au_val b)) mod 2 ^ 256"
    using au_add_val [OF assms(1) n(1)] by (simp_all add: au_sub_def n(2) mod_add_right_eq)
  assume le: "au_val b \<le> au_val a"
  have "au_val a + (2 ^ 256 - au_val b) = (au_val a - au_val b) + 2 ^ 256"
    using le au_val_256 [OF assms(2)] by linarith
  then show "au_val (au_sub a b) = au_val a - au_val b"
    unfolding v using au_val_256 [OF assms(1)] by (simp only: mod_add_self2) (simp add: less_imp_diff_less)
qed

section \<open>Comparison\<close>

lemma au_val_take_Suc: "m < length a \<Longrightarrow> au_val (take (Suc m) a) = au_val (take m a) + 2 ^ (32 * m) * unat (a ! m)"
  by (simp add: take_Suc_conv_app_nth au_val_append)

lemma limb_less: "(x :: nat) < B \<Longrightarrow> u < v \<Longrightarrow> x + B * u < y + B * v"
proof -
  assume "x < B" "u < v"
  then have "x + B * u < B * Suc u" "B * Suc u \<le> B * v" by (simp, intro mult_le_mono2 Suc_leI)
  then show ?thesis by linarith
qed

lemma au_cmp_from_val:
  "m \<le> length a \<Longrightarrow> m \<le> length b \<Longrightarrow>
   au_cmp_from a b m = sgn (int (au_val (take m a)) - int (au_val (take m b)))"
proof (induction m)
  case (Suc m)
  have bnd: "au_val (take m a) < 2 ^ (32 * m)" "au_val (take m b) < 2 ^ (32 * m)"
    using au_val_less [of "take m a"] au_val_less [of "take m b"] Suc.prems by simp_all
  consider "a ! m < b ! m" | "b ! m < a ! m" | "a ! m = b ! m" by force
  then show ?case
  proof cases
    case 1
    then have "au_val (take (Suc m) a) < au_val (take (Suc m) b)"
      using Suc.prems limb_less [OF bnd(1)] by (simp add: au_val_take_Suc word_less_nat_alt)
    then show ?thesis using 1 by simp
  next
    case 2
    then have "au_val (take (Suc m) b) < au_val (take (Suc m) a)"
      using Suc.prems limb_less [OF bnd(2)] by (simp add: au_val_take_Suc word_less_nat_alt)
    then show ?thesis using 2 by simp
  next
    case 3
    then show ?thesis using Suc by (simp add: au_val_take_Suc)
  qed
qed simp

lemma au_CompareTo_val:
  "au_wf a \<Longrightarrow> au_wf b \<Longrightarrow> au_CompareTo a b = sgn (int (au_val a) - int (au_val b))"
  by (simp add: au_CompareTo_def au_cmp_from_val)

section \<open>The number of bits\<close>

lemma and_push_bit_1: "x AND push_bit n 1 \<noteq> 0 \<longleftrightarrow> bit (x :: 'a :: len word) n"
  by (simp add: and_exp_eq_0_iff_not_bit push_bit_eq_mult)

lemma less_Suc_bit: "(v :: nat) < 2 ^ Suc n \<Longrightarrow> \<not> bit v n \<Longrightarrow> v < 2 ^ n"
proof -
  assume "v < 2 ^ Suc n" "\<not> bit v n"
  then have "v div 2 ^ n < 2" "even (v div 2 ^ n)" by (auto simp: bit_iff_odd less_mult_imp_div_less)
  then have "v div 2 ^ n = 0" by (auto dest: less_2_cases)
  then show ?thesis by (simp add: div_eq_0_iff)
qed

lemma bit_le: "bit (v :: nat) n \<Longrightarrow> 2 ^ n \<le> v"
  by (metis bit_iff_odd div_less even_zero not_le)

lemma au_limb_bits_val:
  "0 < unat x \<Longrightarrow> unat x < 2 ^ Suc n \<Longrightarrow>
   1 \<le> au_limb_bits x n \<and> 2 ^ (au_limb_bits x n - 1) \<le> unat x \<and> unat x < 2 ^ au_limb_bits x n"
proof (induction n)
  case (Suc n)
  show ?case
  proof (cases "bit x (Suc n)")
    case True
    then have "bit (unat x) (Suc n)" using bit_imp_le_length [of x "Suc n"] by (simp add: bit_unat32)
    then have "2 ^ Suc n \<le> unat x" by (rule bit_le)
    moreover have "x AND push_bit (Suc n) 1 \<noteq> 0" using True and_push_bit_1 by blast
    ultimately show ?thesis using Suc.prems by simp
  next
    case False
    then have "\<not> bit (unat x) (Suc n)" by (simp add: bit_unat32)
    then have "unat x < 2 ^ Suc n" using less_Suc_bit Suc.prems(2) by blast
    moreover have "\<not> x AND push_bit (Suc n) 1 \<noteq> 0" using False and_push_bit_1 by blast
    ultimately show ?thesis using Suc.IH Suc.prems(1) by simp
  qed
qed auto

lemma au_bits_from_val:
  "m \<le> length a \<Longrightarrow> au_val (take m a) < 2 ^ au_bits_from a m \<and>
     (0 < au_val (take m a) \<longrightarrow> 1 \<le> au_bits_from a m \<and> 2 ^ (au_bits_from a m - 1) \<le> au_val (take m a)) \<and>
     (au_val (take m a) = 0 \<longrightarrow> au_bits_from a m = 0) \<and> au_bits_from a m \<le> 32 * m"
proof (induction m)
  case (Suc m)
  define L where "L = au_limb_bits (a ! m) 31"
  define B :: nat where "B = 2 ^ (32 * m)"
  have v: "au_val (take (Suc m) a) = au_val (take m a) + B * unat (a ! m)"
    using Suc.prems by (simp add: au_val_take_Suc B_def)
  have b: "au_val (take m a) < B" using au_val_less [of "take m a"] Suc.prems by (simp add: B_def)
  show ?case
  proof (cases "a ! m = 0")
    case True
    then show ?thesis using Suc v by (auto simp: au_val_take_Suc)
  next
    case False
    then have p: "0 < unat (a ! m)" by (simp add: unat_gt_0)
    have "unat (a ! m) < 2 ^ Suc 31" using u32_less [of "a ! m"] by simp
    from au_limb_bits_val [OF p this, folded L_def]
    have L: "1 \<le> L" "2 ^ (L - 1) \<le> unat (a ! m)" "unat (a ! m) < 2 ^ L" by auto
    have "2 ^ (L - 1) < (2 :: nat) ^ 32" using L(2) u32_less [of "a ! m"] by simp
    then have L32: "L \<le> 32" using power_less_imp_less_exp [of "2 :: nat" "L - 1" 32] by simp
    have up: "au_val (take (Suc m) a) < B * 2 ^ L"
      using limb_less [OF b L(3), of 0] by (simp add: v)
    have "B * 2 ^ (L - 1) \<le> B * unat (a ! m)" using L(2) by simp
    then have lo: "B * 2 ^ (L - 1) \<le> au_val (take (Suc m) a)" unfolding v by (rule trans_le_add2)
    have f: "au_bits_from a (Suc m) = 32 * m + L" using False by (simp add: L_def)
    have e: "32 * m + L - 1 = 32 * m + (L - 1)" using L(1) by simp
    have "0 < B * unat (a ! m)" using p by (simp add: B_def)
    then have nz: "0 < au_val (take (Suc m) a)" unfolding v by simp
    show ?thesis unfolding f e power_add B_def [symmetric]
      using up lo L(1) L32 nz by simp
  qed
qed simp

lemma au_bits_val:
  assumes "au_wf a"
  shows "au_val a < 2 ^ au_bits a" "0 < au_val a \<Longrightarrow> 2 ^ (au_bits a - 1) \<le> au_val a"
    "au_bits a = 0 \<longleftrightarrow> au_val a = 0" "au_bits a \<le> 256"
  using au_bits_from_val [of WIDTH a] assms unfolding au_bits_def by auto

lemma au_bits_le: "au_wf a \<Longrightarrow> au_val a < 2 ^ n \<Longrightarrow> au_bits a \<le> n"
proof (cases "au_val a = 0")
  case False
  assume a: "au_wf a" "au_val a < 2 ^ n"
  have "2 ^ (au_bits a - 1) \<le> au_val a" using au_bits_val(2) [OF a(1)] False by simp
  then have "2 ^ (au_bits a - 1) < (2 :: nat) ^ n" using a(2) by (rule le_less_trans)
  then show ?thesis using power_less_imp_less_exp [of "2 :: nat" "au_bits a - 1" n] by simp
qed (use au_bits_val(3) [of a] in simp)

section \<open>Division\<close>

lemma au_set_bit_val:
  assumes "au_wf q" "sh < 256"
  shows "au_val (q[sh div 32 := q ! (sh div 32) OR push_bit (sh mod 32) 1]) = au_val q OR 2 ^ sh"
proof (rule bit_eqI)
  fix n
  have t: "sh div 32 < WIDTH" using assms(2) by (simp add: less_mult_imp_div_less)
  have "n = sh \<longleftrightarrow> n div 32 = sh div 32 \<and> n mod 32 = sh mod 32" by (metis div_mult_mod_eq)
  moreover have "bit (push_bit (sh mod 32) (1 :: u32)) i \<longleftrightarrow> i = sh mod 32" for i
    by (auto simp: bit_exp_iff)
  ultimately show "bit (au_val (q[sh div 32 := q ! (sh div 32) OR push_bit (sh mod 32) 1])) n =
      bit (au_val q OR 2 ^ sh) n"
    using t assms(1) by (auto simp: bit_au_val bit_or_iff bit_exp_iff nth_list_update)
qed

lemma or_exp_dvd: "2 ^ Suc n dvd (q :: nat) \<Longrightarrow> q OR 2 ^ n = q + 2 ^ n"
proof -
  assume d: "2 ^ Suc n dvd q"
  have "q AND 2 ^ n = 0"
  proof -
    obtain c where "q = 2 ^ Suc n * c" using d by blast
    then have "\<not> bit q n" by (simp add: bit_iff_odd)
    then show ?thesis by (simp add: and_exp_eq_0_iff_not_bit)
  qed
  then show ?thesis by (simp add: disjunctive_add_eq_or)
qed

lemma au_div_loop_val:
  "n \<le> 256 \<Longrightarrow> au_wf num \<Longrightarrow> au_wf dv \<Longrightarrow> au_wf q \<Longrightarrow> 0 < D \<Longrightarrow>
   (0 < n \<Longrightarrow> au_val dv = D * 2 ^ (n - 1)) \<Longrightarrow> au_val num < D * 2 ^ n \<Longrightarrow> 2 ^ n dvd au_val q \<Longrightarrow>
   length (au_div_loop n num dv q) = WIDTH \<and>
   au_val (au_div_loop n num dv q) = au_val q + au_val num div D"
proof (induction n arbitrary: num dv q)
  case 0
  then show ?case by (simp add: div_eq_0_iff)
next
  case (Suc n)
  have dv: "au_val dv = D * 2 ^ n" using Suc.prems(6) by simp
  have dv': "0 < n \<Longrightarrow> au_val (au_shr dv 1) = D * 2 ^ (n - 1)"
    using Suc.prems(3) dv by (cases n) (simp_all add: au_shr_val)
  have dq: "2 ^ n dvd au_val q" using Suc.prems(8) by (metis dvd_trans dvd_triv_right power_Suc)
  have cmp: "0 \<le> au_CompareTo num dv \<longleftrightarrow> au_val dv \<le> au_val num"
    using Suc.prems(2,3) by (simp add: au_CompareTo_val sgn_if)
  show ?case
  proof (cases "au_val dv \<le> au_val num")
    case True
    define q' where "q' = q[n div 32 := q ! (n div 32) OR push_bit (n mod 32) 1]"
    have q': "au_val q' = au_val q + 2 ^ n" "au_wf q'"
      using au_set_bit_val [of q n] or_exp_dvd [OF Suc.prems(8)] Suc.prems(1,4) by (simp_all add: q'_def)
    have s: "au_val (au_sub num dv) = au_val num - D * 2 ^ n" "au_wf (au_sub num dv)"
      using au_sub_val [OF Suc.prems(2,3)] True dv by simp_all
    have "length (au_div_loop n (au_sub num dv) (au_shr dv 1) q') = WIDTH \<and>
      au_val (au_div_loop n (au_sub num dv) (au_shr dv 1) q') = au_val q' + au_val (au_sub num dv) div D"
    proof (rule Suc.IH)
      show "au_val (au_sub num dv) < D * 2 ^ n" using s Suc.prems(7) by simp
      show "2 ^ n dvd au_val q'" using dq q' by simp
    qed (use Suc.prems s q' dv' in simp_all)
    moreover have "au_val num div D = 2 ^ n + (au_val num - D * 2 ^ n) div D"
    proof -
      have "au_val num = (au_val num - D * 2 ^ n) + D * 2 ^ n" using True dv by simp
      then show ?thesis using Suc.prems(5)
        by (metis add.commute div_mult_self2 less_numeral_extra(3))
    qed
    moreover have "au_div_loop (Suc n) num dv q = au_div_loop n (au_sub num dv) (au_shr dv 1) q'"
      using True cmp by (simp add: q'_def)
    ultimately show ?thesis unfolding q' s by simp
  next
    case False
    have "length (au_div_loop n num (au_shr dv 1) q) = WIDTH \<and>
      au_val (au_div_loop n num (au_shr dv 1) q) = au_val q + au_val num div D"
      by (rule Suc.IH) (use Suc.prems dv dv' dq False in simp_all)
    then show ?thesis using False cmp by simp
  qed
qed

lemma au_div_val:
  assumes "au_wf a" "au_wf b"
  shows "au_val b = 0 \<Longrightarrow> au_div a b = Inl Throw"
    "0 < au_val b \<Longrightarrow> \<exists>q. au_div a b = Inr q \<and> au_wf q \<and> au_val q = au_val a div au_val b"
proof -
  note ab = au_bits_val [OF assms(1)] and bb = au_bits_val [OF assms(2)]
  show "au_val b = 0 \<Longrightarrow> au_div a b = Inl Throw" using bb(3) by (simp add: au_div_def)
  assume b: "0 < au_val b"
  then have nz: "au_bits b \<noteq> 0" using bb(3) by simp
  show "\<exists>q. au_div a b = Inr q \<and> au_wf q \<and> au_val q = au_val a div au_val b"
  proof (cases "au_bits a < au_bits b")
    case True
    have "au_val a < 2 ^ au_bits a" by (rule ab(1))
    also have "\<dots> \<le> 2 ^ (au_bits b - 1)" using True by (intro power_increasing) auto
    also have "\<dots> \<le> au_val b" using bb(2) b by simp
    finally have "au_val a < au_val b" .
    then show ?thesis using True nz by (simp add: au_div_def)
  next
    case False
    define sh where "sh = au_bits a - au_bits b"
    have sh: "au_bits b + sh = au_bits a" using False by (simp add: sh_def)
    have "au_val b * 2 ^ sh < 2 ^ au_bits b * 2 ^ sh" using bb(1) by simp
    also have "\<dots> = 2 ^ au_bits a" using sh by (simp flip: power_add)
    also have "\<dots> \<le> 2 ^ 256" using ab(4) by (intro power_increasing) auto
    finally have dv: "au_val (au_shl b sh) = au_val b * 2 ^ sh" using assms(2) by (simp add: au_shl_val)
    have "au_val a < 2 ^ au_bits a" by (rule ab(1))
    also have "\<dots> = 2 ^ (au_bits b - 1) * 2 ^ Suc sh" using sh nz by (simp flip: power_add power_Suc)
    also have "\<dots> \<le> au_val b * 2 ^ Suc sh" using bb(2) b by simp
    finally have lt: "au_val a < au_val b * 2 ^ Suc sh" .
    have "length (au_div_loop (Suc sh) a (au_shl b sh) au_zero) = WIDTH \<and>
      au_val (au_div_loop (Suc sh) a (au_shl b sh) au_zero) = au_val au_zero + au_val a div au_val b"
      by (rule au_div_loop_val) (use assms b dv lt ab(4) nz in \<open>auto simp: sh_def\<close>)
    then show ?thesis using False nz by (simp add: au_div_def Let_def sh_def [symmetric])
  qed
qed

section \<open>Conversion to and from bytes\<close>

lemma UintToArith256_ArithToUint256:
  assumes "au_wf a"
  shows "UintToArith256 (ArithToUint256 a) = a"
proof -
  have "map (\<lambda>x. ReadLE32 (drop (4 * x) (concat (map WriteLE32 xs)))) [0..<length xs] = xs" for xs
  proof (induction xs)
    case (Cons x xs)
    have "map (\<lambda>i. ReadLE32 (drop (4 * i) (concat (map WriteLE32 (x # xs))))) [0..<length (x # xs)] =
        ReadLE32 (WriteLE32 x @ concat (map WriteLE32 xs)) #
        map (\<lambda>i. ReadLE32 (drop (4 * Suc i) (concat (map WriteLE32 (x # xs))))) [0..<length xs]"
      by (simp add: upt_conv_Cons flip: map_Suc_upt del: upt_Suc)
    then show ?case using Cons by (simp add: Read_Write)
  qed simp
  from this [of a] assms show ?thesis by (simp add: UintToArith256_def ArithToUint256_def)
qed

lemma ArithToUint256_UintToArith256:
  assumes "length u = 32"
  shows "ArithToUint256 (UintToArith256 u) = u"
proof -
  have "4 * m \<le> length u \<Longrightarrow>
    concat (map WriteLE32 (map (\<lambda>x. ReadLE32 (drop (4 * x) u)) [0..<m])) = take (4 * m) u" for m
  proof (induction m)
    case (Suc m)
    have "ReadLE32 (drop (4 * m) u) = ReadLE32 (take 4 (drop (4 * m) u))" by (simp add: ReadLE32_def)
    then have "WriteLE32 (ReadLE32 (drop (4 * m) u)) = take 4 (drop (4 * m) u)"
      using Write_Read(1) [of "take 4 (drop (4 * m) u)"] Suc.prems by simp
    moreover have "take (4 * Suc m) u = take (4 * m) u @ take 4 (drop (4 * m) u)"
      by (metis add.commute mult_Suc_right take_add)
    ultimately show ?case using Suc by simp
  qed simp
  from this [of WIDTH] assms show ?thesis by (simp add: UintToArith256_def ArithToUint256_def)
qed

lemma length_UintToArith256 [simp]: "length (UintToArith256 u) = WIDTH"
  by (simp add: UintToArith256_def)

lemma le_nat_ArithToUint256: "le_nat (ArithToUint256 a) = au_val a"
proof -
  have "le_nat (WriteLE32 x) = unat x" for x
    using u32_less [of x] by (simp add: WriteLE32_def le_nat_nat_le)
  then show ?thesis by (induction a) (simp_all add: ArithToUint256_def le_nat_append)
qed

lemma UintToArith256_val: "length u = 32 \<Longrightarrow> au_val (UintToArith256 u) = le_nat u"
  using le_nat_ArithToUint256 [of "UintToArith256 u"] by (simp add: ArithToUint256_UintToArith256)



section \<open>The compact format\<close>

lemma au_GetLow64_val:
  assumes "au_wf a"
  shows "unat (au_GetLow64 a) = au_val a mod 2 ^ 64"
proof -
  obtain x y r where a: "a = x # y # r" using assms by (cases a; cases "tl a") auto
  have "push_bit 32 (ucast y :: u64) AND ucast x = 0"
    by (intro bit_eqI) (auto simp: bit_and_iff bit_push_bit_iff bit_ucast_iff dest: bit_imp_le_length)
  then have "au_GetLow64 a = push_bit 32 (ucast y) + ucast x"
    by (simp add: au_GetLow64_def a or.commute disjunctive_add_eq_or)
  then have "unat (au_GetLow64 a) = (2 ^ 32 * unat y mod 2 ^ 64 + unat x) mod 2 ^ 64"
    by (simp add: push_bit_eq_mult unat_word_ariths mult.commute)
  also have "\<dots> = (2 ^ 32 * unat y + unat x) mod 2 ^ 64" by (simp only: mod_add_left_eq)
  also have "\<dots> = (2 ^ 32 * unat y + unat x + 2 ^ 64 * au_val r) mod 2 ^ 64" by (simp only: mod_mult_self2)
  also have "2 ^ 32 * unat y + unat x + 2 ^ 64 * au_val r = au_val a" by (simp add: a algebra_simps)
  finally show ?thesis .
qed

text \<open>The size of a number in bytes.\<close>

definition byte_size :: "nat \<Rightarrow> nat \<Rightarrow> bool" where
  "byte_size v n \<longleftrightarrow> v < 256 ^ n \<and> (0 < n \<longrightarrow> 256 ^ (n - 1) \<le> v)"

lemma byte_size_unique: "byte_size v n \<Longrightarrow> byte_size v m \<Longrightarrow> n = m"
proof (induction n m rule: linorder_wlog)
  case (le n m)
  show ?case
  proof (rule ccontr)
    assume "n \<noteq> m"
    then have "n \<le> m - 1" "0 < m" using le by auto
    then have "(256 :: nat) ^ n \<le> 256 ^ (m - 1)" by (intro power_increasing) auto
    with le \<open>0 < m\<close> show False unfolding byte_size_def by linarith
  qed
qed simp

lemma pow256: "(256 :: nat) ^ n = 2 ^ (8 * n)"
  by (simp add: power_mult)

lemma au_bits_byte_size:
  assumes "au_wf a"
  shows "byte_size (au_val a) ((au_bits a + 7) div 8)"
proof -
  note b = au_bits_val [OF assms]
  define n where "n = (au_bits a + 7) div 8"
  have n: "au_bits a \<le> 8 * n" "0 < n \<Longrightarrow> 8 * (n - 1) \<le> au_bits a - 1 \<and> 0 < au_bits a"
  proof -
    define r where "r = (au_bits a + 7) mod 8"
    have r: "au_bits a + 7 = 8 * n + r" "r < 8" by (simp_all add: n_def r_def)
    show "au_bits a \<le> 8 * n" using r by linarith
    show "0 < n \<Longrightarrow> 8 * (n - 1) \<le> au_bits a - 1 \<and> 0 < au_bits a" using r by linarith
  qed
  have "au_val a < 2 ^ (8 * n)"
    using b(1) power_increasing [OF n(1), of "2 :: nat"] by linarith
  moreover have "2 ^ (8 * (n - 1)) \<le> au_val a" if "0 < n"
  proof -
    have "(2 :: nat) ^ (8 * (n - 1)) \<le> 2 ^ (au_bits a - 1)"
      using n(2) [OF that] by (intro power_increasing) auto
    also have "\<dots> \<le> au_val a" using b(2,3) n(2) [OF that] by simp
    finally show ?thesis .
  qed
  ultimately show ?thesis unfolding byte_size_def n_def [symmetric] pow256 by simp
qed

text \<open>The mantissa \<open>GetCompact\<close> first computes, and the pair it encodes.\<close>

definition raw_mantissa :: "nat \<Rightarrow> nat \<Rightarrow> nat" where
  "raw_mantissa v n = (if n \<le> 3 then v * 256 ^ (3 - n) else v div 256 ^ (n - 3))"

definition compact_pair :: "nat \<Rightarrow> nat \<Rightarrow> nat \<times> nat" where
  "compact_pair v n =
     (if 2 ^ 23 \<le> raw_mantissa v n then (raw_mantissa v n div 256, n + 1) else (raw_mantissa v n, n))"

lemma raw_mantissa_less: "byte_size v n \<Longrightarrow> raw_mantissa v n < 2 ^ 24"
proof (cases "n \<le> 3")
  case True
  assume b: "byte_size v n"
  then have "v * 256 ^ (3 - n) < 256 ^ n * 256 ^ (3 - n)" by (simp add: byte_size_def)
  also have "\<dots> = 256 ^ 3" using True by (simp flip: power_add)
  finally show ?thesis using True by (simp add: raw_mantissa_def)
next
  case False
  assume b: "byte_size v n"
  have "(256 :: nat) ^ 3 * 256 ^ (n - 3) = 256 ^ n" using False by (simp only: flip: power_add) simp
  then have "v < 256 ^ 3 * 256 ^ (n - 3)" using b unfolding byte_size_def by simp
  then show ?thesis using False by (simp add: raw_mantissa_def less_mult_imp_div_less)
qed

lemma raw_mantissa_ge: "byte_size v n \<Longrightarrow> 0 < v \<Longrightarrow> 2 ^ 16 \<le> raw_mantissa v n"
proof (cases "n \<le> 3")
  case True
  assume b: "byte_size v n" "0 < v"
  then have n: "0 < n" "256 ^ (n - 1) \<le> v" by (auto simp: byte_size_def intro: gr0I)
  then have "256 ^ (n - 1) * 256 ^ (3 - n) \<le> v * (256 ^ (3 - n) :: nat)" by simp
  moreover have "(256 :: nat) ^ (n - 1) * 256 ^ (3 - n) = 256 ^ 2" using True n by (simp flip: power_add)
  ultimately show ?thesis using True by (simp only: raw_mantissa_def if_True) simp
next
  case False
  assume b: "byte_size v n" "0 < v"
  have "(256 :: nat) ^ 2 * 256 ^ (n - 3) = 256 ^ (n - 1)"
  proof -
    have "2 + (n - 3) = n - 1" using False by simp
    then show ?thesis by (simp only: flip: power_add)
  qed
  then have "256 ^ 2 * 256 ^ (n - 3) \<le> v" using b False unfolding byte_size_def by simp
  then have "256 ^ 2 * 256 ^ (n - 3) div 256 ^ (n - 3) \<le> v div 256 ^ (n - 3)" by (rule div_le_mono)
  then show ?thesis using False by (simp add: raw_mantissa_def)
qed

lemma compact_pair_bounds:
  assumes "byte_size v n" "compact_pair v n = (m, s)"
  shows "m < 2 ^ 23" "0 < v \<Longrightarrow> 2 ^ 15 \<le> m" "s \<le> n + 1"
proof -
  have "raw_mantissa v n div 256 < 2 ^ 23"
    using raw_mantissa_less [OF assms(1)] by (simp add: less_mult_imp_div_less)
  then show "m < 2 ^ 23" "s \<le> n + 1" using assms(2) by (auto simp: compact_pair_def split: if_splits)
  assume "0 < v"
  from raw_mantissa_ge [OF assms(1) this] have "2 ^ 15 \<le> raw_mantissa v n"
    "2 ^ 23 \<le> raw_mantissa v n \<Longrightarrow> 2 ^ 23 div 256 \<le> raw_mantissa v n div 256"
    by (simp, intro div_le_mono)
  then show "2 ^ 15 \<le> m" using assms(2) by (auto simp: compact_pair_def split: if_splits)
qed

text \<open>The number a mantissa and a size stand for.\<close>

definition compact_value :: "nat \<Rightarrow> nat \<Rightarrow> nat" where
  "compact_value m s = (if s \<le> 3 then m div 256 ^ (3 - s) else m * 256 ^ (s - 3))"

lemma compact_value_pair:
  assumes "compact_pair v n = (m, s)"
  shows "compact_value m s = v div 256 ^ (s - 3) * 256 ^ (s - 3)"
proof (cases "2 ^ 23 \<le> raw_mantissa v n")
  case False
  then show ?thesis using assms by (auto simp: compact_pair_def raw_mantissa_def compact_value_def)
next
  case True
  then have ms: "m = raw_mantissa v n div 256" "s = n + 1" using assms by (auto simp: compact_pair_def)
  consider "n \<le> 2" | "n = 3" | "3 < n" by linarith
  then show ?thesis
  proof cases
    case 1
    then have "v * 256 ^ (3 - n) div 256 = v * 256 ^ (2 - n)"
      by (simp add: numeral_3_eq_3 numeral_2_eq_2 Suc_diff_le)
    then show ?thesis using 1 ms by (simp add: raw_mantissa_def compact_value_def)
  next
    case 2
    then show ?thesis using ms by (simp add: raw_mantissa_def compact_value_def)
  next
    case 3
    then have "n - 2 = Suc (n - 3)" by simp
    then have "(256 :: nat) ^ (n - 2) = 256 ^ (n - 3) * 256" by (simp only: power_Suc2)
    then have "v div 256 ^ (n - 3) div 256 = v div 256 ^ (n - 2)" by (simp only: div_mult2_eq)
    then show ?thesis using 3 ms by (simp add: raw_mantissa_def compact_value_def)
  qed
qed

lemma div_mult_mono_ge: "B dvd c \<Longrightarrow> c \<le> v \<Longrightarrow> c \<le> v div B * (B :: nat)"
  by (metis div_le_mono dvd_div_mult_self mult_le_mono1)

lemma compact_pair_idem:
  assumes "byte_size v n" "compact_pair v n = (m, s)"
  shows "byte_size (compact_value m s) n" "compact_pair (compact_value m s) n = (m, s)"
proof -
  define B :: nat where "B = 256 ^ (s - 3)"
  have v': "compact_value m s = v div B * B" using compact_value_pair [OF assms(2)] by (simp add: B_def)
  have le: "v div B * B \<le> v" by simp
  have s: "s \<le> n + 1" using compact_pair_bounds [OF assms] by simp
  show bs: "byte_size (compact_value m s) n"
  proof -
    have "256 ^ (n - 1) \<le> v div B * B" if "0 < n"
    proof (rule div_mult_mono_ge)
      show "B dvd 256 ^ (n - 1)" unfolding B_def using s that by (intro le_imp_power_dvd) auto
      show "256 ^ (n - 1) \<le> v" using assms(1) that by (simp add: byte_size_def)
    qed
    moreover have "v div B * B < 256 ^ n" using le assms(1) unfolding byte_size_def by linarith
    ultimately show ?thesis by (simp add: byte_size_def v')
  qed
  show "compact_pair (compact_value m s) n = (m, s)"
  proof (cases "2 ^ 23 \<le> raw_mantissa v n")
    case False
    then have ms: "m = raw_mantissa v n" "s = n" using assms(2) by (auto simp: compact_pair_def)
    have "raw_mantissa (v div B * B) n = raw_mantissa v n"
      by (simp add: raw_mantissa_def B_def ms)
    then show ?thesis using False ms v' by (simp add: compact_pair_def)
  next
    case True
    then have ms: "m = raw_mantissa v n div 256" "s = n + 1" using assms(2) by (auto simp: compact_pair_def)
    show ?thesis
    proof (cases "n \<le> 2")
      case True
      then have "B = 1" by (simp add: B_def ms)
      then show ?thesis using assms(2) v' by simp
    next
      case False
      then have B: "B = 256 * 256 ^ (n - 3)" by (simp add: B_def ms Suc_diff_le flip: power_Suc)
      have r: "raw_mantissa w n = w div 256 ^ (n - 3)" for w using False by (auto simp: raw_mantissa_def le_Suc_eq)
      have x: "v div B = raw_mantissa v n div 256"
        unfolding r B mult.commute [of 256] by (rule div_mult2_eq)
      have "raw_mantissa (v div B * B) n = v div B * 256" unfolding r B by simp
      then have "raw_mantissa (compact_value m s) n = m * 256" unfolding v' x by (simp only: ms(1))
      moreover have "2 ^ 23 \<le> m * 256"
        unfolding ms using True by (intro div_mult_mono_ge) auto
      ultimately show ?thesis by (simp add: compact_pair_def ms)
    qed
  qed
qed

text \<open>The masks and shifts of the two functions on numbers.\<close>

lemma unat_low23: "unat ((x :: u32) AND 0x007fffff) = unat x mod 2 ^ 23"
proof -
  have e: "x AND 0x007fffff = take_bit 23 x" by (simp add: take_bit_eq_mask mask_eq_exp_minus_1)
  show ?thesis unfolding e unsigned_take_bit_eq by (rule take_bit_eq_mod)
qed

lemma sign_bit: "(x :: u32) AND 0x00800000 \<noteq> 0 \<longleftrightarrow> odd (unat x div 2 ^ 23)"
proof -
  have "x AND 0x00800000 \<noteq> 0 \<longleftrightarrow> bit x 23" using and_push_bit_1 [of x 23] by simp
  also have "\<dots> \<longleftrightarrow> bit (unat x) 23" by (simp add: bit_unat32)
  finally show ?thesis by (simp add: bit_iff_odd)
qed

lemma high_mask: "unat (x :: u32) < 2 ^ 23 \<Longrightarrow> x AND NOT 0x007fffff = 0"
proof -
  assume "unat x < 2 ^ 23"
  then have "unat (x AND 0x007fffff) = unat x" by (simp add: unat_low23)
  then have "x = x AND 0x007fffff" by (simp add: word_unat_eq_iff)
  then have "x AND NOT 0x007fffff = (x AND 0x007fffff) AND NOT 0x007fffff" by simp
  then show ?thesis by (simp only: and.assoc) simp
qed

lemma unat_low32: "unat (ucast (w :: u64) :: u32) = unat w mod 2 ^ 32"
  by (simp add: unsigned_ucast_eq take_bit_eq_mod)

lemma compact_parts:
  fixes m s :: nat
  assumes "m < 2 ^ 23"
  shows "(m + 2 ^ 24 * s) mod 2 ^ 23 = m" "(m + 2 ^ 24 * s) div 2 ^ 23 = 2 * s"
    "(m + 2 ^ 24 * s) div 2 ^ 24 = s"
proof -
  have e: "m + 2 ^ 24 * s = m + 2 ^ 23 * (2 * s)" by simp
  show "(m + 2 ^ 24 * s) mod 2 ^ 23 = m" unfolding e mod_mult_self2 using assms by simp
  show "(m + 2 ^ 24 * s) div 2 ^ 23 = 2 * s" unfolding e using assms by (subst div_mult_self2) simp_all
  show "(m + 2 ^ 24 * s) div 2 ^ 24 = s" using assms by (subst div_mult_self2) simp_all
qed

lemma unat_compact:
  assumes "unat (x :: u32) < 2 ^ 24" "s < 256"
  shows "unat (x OR push_bit 24 (of_nat s)) = unat x + 2 ^ 24 * s"
proof -
  have s: "unat (push_bit 24 (of_nat s :: u32)) = 2 ^ 24 * s"
    using assms(2) unfolding unat_push_bit by (simp add: unat_of_nat)
  have "\<not> bit x n" if "24 \<le> n" for n
  proof
    assume "bit x n"
    then have "bit (unat x) n" using bit_imp_le_length [of x n] by (simp add: bit_unat32)
    from bit_le [OF this] assms(1) power_increasing [OF that, of "2 :: nat"] show False by linarith
  qed
  then have "x AND push_bit 24 (of_nat s) = 0"
    by (intro bit_eqI) (auto simp: bit_and_iff bit_push_bit_iff)
  then have "x OR push_bit 24 (of_nat s) = x + push_bit 24 (of_nat s)"
    by (simp add: disjunctive_add_eq_or)
  moreover have "unat x + 2 ^ 24 * s < 2 ^ 32" using assms by simp
  ultimately show ?thesis using s by (simp add: unat_word_ariths)
qed

lemma GetCompact_raw:
  assumes "au_wf v"
  defines "n \<equiv> (au_bits v + 7) div 8"
  shows "unat (if n \<le> 3 then ucast (push_bit (8 * (3 - n)) (au_GetLow64 v))
               else ucast (au_GetLow64 (au_shr v (8 * (n - 3)))) :: u32) = raw_mantissa (au_val v) n"
proof -
  have lt: "raw_mantissa (au_val v) n < 2 ^ 24"
    using raw_mantissa_less [OF au_bits_byte_size [OF assms(1)]] by (simp add: n_def)
  show ?thesis
  proof (cases "n \<le> 3")
    case True
    have "au_val v \<le> au_val v * 256 ^ (3 - n)" by simp
    also have "\<dots> < 2 ^ 24" using lt True by (simp add: raw_mantissa_def)
    finally have v: "au_val v < 2 ^ 24" .
    have "unat (push_bit (8 * (3 - n)) (au_GetLow64 v)) = raw_mantissa (au_val v) n mod 2 ^ 64"
      unfolding unat_push_bit au_GetLow64_val [OF assms(1)] pow256 [symmetric] raw_mantissa_def
      using v True by simp
    then show ?thesis using True lt by (simp add: unat_low32)
  next
    case False
    have "unat (au_GetLow64 (au_shr v (8 * (n - 3)))) = raw_mantissa (au_val v) n mod 2 ^ 64"
      unfolding au_GetLow64_val [OF length_au_ops(4)] au_shr_val [OF assms(1)] pow256 [symmetric] raw_mantissa_def
      using False by simp
    then show ?thesis using False lt by (simp add: unat_low32)
  qed
qed

lemma GetCompact_val:
  assumes "au_wf v" "compact_pair (au_val v) ((au_bits v + 7) div 8) = (m, s)"
  shows "\<exists>c. GetCompact v neg = Inr c \<and>
    unat c = m + 2 ^ 24 * s + (if neg \<and> m \<noteq> 0 then 2 ^ 23 else 0)"
proof -
  define n where "n = (au_bits v + 7) div 8"
  define w :: u32 where "w = (if n \<le> 3 then ucast (push_bit (8 * (3 - n)) (au_GetLow64 v))
               else ucast (au_GetLow64 (au_shr v (8 * (n - 3)))))"
  have w: "unat w = raw_mantissa (au_val v) n"
    unfolding w_def n_def by (rule GetCompact_raw [OF assms(1)])
  have bs: "byte_size (au_val v) n" using au_bits_byte_size [OF assms(1)] by (simp add: n_def)
  have cp: "compact_pair (au_val v) n = (m, s)" using assms(2) by (simp add: n_def)
  have n33: "n \<le> 32" using au_bits_val(4) [OF assms(1)] by (simp add: n_def)
  have b: "m < 2 ^ 23" "s < 256" using compact_pair_bounds [OF bs cp] n33 by simp_all
  have w24: "unat w < 2 ^ 24" using raw_mantissa_less [OF bs] by (simp add: w)
  have sg: "w AND 0x00800000 \<noteq> 0 \<longleftrightarrow> 2 ^ 23 \<le> unat w"
    unfolding sign_bit using w24 less_Suc_bit [of "unat w" 23] bit_le [of "unat w" 23] by (auto simp: bit_iff_odd)
  obtain x :: u32 where x: "(if w AND 0x00800000 \<noteq> 0 then (drop_bit 8 w, n + 1) else (w, n)) = (x, s)" "unat x = m"
    using cp by (cases "2 ^ 23 \<le> unat w")
      (auto simp: sg compact_pair_def w drop_bit_eq_div unat_div_distrib simp flip: w)
  define c where "c = x OR push_bit 24 (of_nat s)"
  have c: "unat c = m + 2 ^ 24 * s" using unat_compact [of x s] b x(2) by (simp add: c_def)
  have low: "c AND 0x007fffff \<noteq> 0 \<longleftrightarrow> m \<noteq> 0"
  proof -
    have "unat (c AND 0x007fffff) = m" using compact_parts(1) [OF b(1)] unfolding unat_low23 c .
    then show ?thesis by (metis unat_eq_0)
  qed
  have or: "unat (c OR 0x00800000) = m + 2 ^ 24 * s + 2 ^ 23"
  proof -
    have "even (unat c div 2 ^ 23)" unfolding c compact_parts(2) [OF b(1)] by simp
    then have "c AND 0x00800000 = 0" using sign_bit by blast
    then have "c OR 0x00800000 = c + 0x00800000" by (simp add: disjunctive_add_eq_or)
    moreover have "m + 2 ^ 24 * s + 2 ^ 23 < 2 ^ 32" using b by simp
    ultimately show ?thesis using c by (simp add: unat_word_ariths)
  qed
  have "GetCompact v neg = Inr (c OR (if neg \<and> c AND 0x007fffff \<noteq> 0 then 0x00800000 else 0))"
    unfolding GetCompact_def Let_def n_def [symmetric] w_def [symmetric] x(1) prod.case
    using x(2) b high_mask [of x] by (simp add: c_def exec_assert_def)
  then show ?thesis using c low or by auto
qed

lemma compact_value_overflow:
  assumes "m < 2 ^ 23"
  shows "2 ^ 256 \<le> compact_value m s \<longleftrightarrow>
    m \<noteq> 0 \<and> (34 < s \<or> 0xff < m \<and> 33 < s \<or> 0xffff < m \<and> 32 < s)"
proof -
  have e: "(2 :: nat) ^ 256 = 256 ^ 32" by simp
  consider "s \<le> 3" | "3 < s" "s \<le> 32" | "s = 33" | "s = 34" | "34 < s" by linarith
  then show ?thesis
  proof cases
    case 1
    have "m div 256 ^ (3 - s) \<le> m" by (rule div_le_dividend)
    also have "m < 2 ^ 256" using assms by simp
    finally have "compact_value m s < 2 ^ 256" using 1 by (simp only: compact_value_def if_True)
    then show ?thesis using 1 by simp
  next
    case 2
    have "(256 :: nat) ^ (s - 3) \<le> 256 ^ 29" using 2 by (intro power_increasing) auto
    then have "m * 256 ^ (s - 3) \<le> m * 256 ^ 29" by (rule mult_le_mono2)
    also have "\<dots> < 2 ^ 256" using assms by simp
    finally show ?thesis using 2 by (simp add: compact_value_def)
  next
    case 3
    then show ?thesis by (auto simp: compact_value_def)
  next
    case 4
    then show ?thesis by (auto simp: compact_value_def)
  next
    case 5
    have "(256 :: nat) ^ 32 \<le> 256 ^ (s - 3)" using 5 by (intro power_increasing) auto
    then have "m \<noteq> 0 \<Longrightarrow> 256 ^ 32 * 1 \<le> 256 ^ (s - 3) * m" by (intro mult_le_mono) auto
    then show ?thesis using 5 by (cases "m = 0") (auto simp: compact_value_def mult.commute)
  qed
qed

lemma SetCompact_val:
  assumes "SetCompact c = (v, neg, ovf)"
  defines "t \<equiv> compact_value (unat c mod 2 ^ 23) (unat c div 2 ^ 24)"
  shows "au_wf v" "au_val v = t mod 2 ^ 256" "ovf \<longleftrightarrow> 2 ^ 256 \<le> t"
    "neg \<longleftrightarrow> t \<noteq> 0 \<and> odd (unat c div 2 ^ 23)"
proof -
  define s where "s = unat c div 2 ^ 24"
  define w where "w = (if s \<le> 3 then drop_bit (8 * (3 - s)) (c AND 0x007fffff) else c AND 0x007fffff)"
  have s: "unat (drop_bit 24 c) = s" by (simp add: s_def drop_bit_eq_div unat_div_distrib)
  have low: "unat (c AND 0x007fffff) < 2 ^ 23" unfolding unat_low23 by simp
  have w: "unat w = (if s \<le> 3 then unat c mod 2 ^ 23 div 256 ^ (3 - s) else unat c mod 2 ^ 23)"
    unfolding w_def by (simp only: unat_low23 unat_drop_bit pow256 if_distrib [of unat])
  have t: "t = (if s \<le> 3 then unat w else unat w * 256 ^ (s - 3))"
    by (simp add: t_def compact_value_def w s_def)
  have wz: "w = 0 \<longleftrightarrow> t = 0" by (simp add: t unat_eq_0)
  have u: "unat (ucast w :: u64) = unat w" by simp
  have v: "v = (if s \<le> 3 then au_of_u64 (ucast w) else au_shl (au_of_u64 (ucast w)) (8 * (s - 3)))"
    and n: "neg \<longleftrightarrow> w \<noteq> 0 \<and> c AND 0x00800000 \<noteq> 0"
    and o: "ovf \<longleftrightarrow> w \<noteq> 0 \<and> (34 < s \<or> 0xff < w \<and> 33 < s \<or> 0xffff < w \<and> 32 < s)"
    using assms(1) unfolding SetCompact_def Let_def s w_def [symmetric] by auto
  show "au_wf v" by (simp add: v)
  have "unat w < 2 ^ 256" using u32_less [of w] by simp
  then show "au_val v = t mod 2 ^ 256"
    unfolding v t by (simp add: au_shl_val au_of_u64_val pow256)
  show "neg \<longleftrightarrow> t \<noteq> 0 \<and> odd (unat c div 2 ^ 23)" unfolding n wz sign_bit ..
  show "ovf \<longleftrightarrow> 2 ^ 256 \<le> t"
  proof (cases "s \<le> 3")
    case True
    then show ?thesis using u32_less [of w] by (simp add: o t)
  next
    case False
    then have uw: "unat w = unat c mod 2 ^ 23" by (simp only: w if_False)
    have wl: "w \<noteq> 0 \<longleftrightarrow> unat w \<noteq> 0" "0xff < w \<longleftrightarrow> 0xff < unat w" "0xffff < w \<longleftrightarrow> 0xffff < unat w"
      by (simp_all add: unat_eq_0 word_less_nat_alt)
    show ?thesis
      unfolding o wl t_def s_def [symmetric] uw [symmetric]
      by (rule compact_value_overflow [symmetric]) (simp add: uw)
  qed
qed

text \<open>
  Encoding keeps the leading bytes of a number: decoding gives the number with its low
  bytes cleared, which is at most one part in \<open>2^15\<close> smaller, and encoding that number again
  gives the same word.
\<close>

lemma compact_roundtrip_aux:
  assumes "au_wf v"
  shows "\<exists>c v'. (GetCompact v False :: ('e, u32) exec) = Inr c \<and> SetCompact c = (v', False, False) \<and> au_wf v' \<and>
    (GetCompact v' False :: ('e, u32) exec) = Inr c \<and> au_val v' \<le> au_val v \<and>
    (au_val v - au_val v') * 2 ^ 15 \<le> au_val v"
proof -
  define n where "n = (au_bits v + 7) div 8"
  obtain m s where cp: "compact_pair (au_val v) n = (m, s)" by fastforce
  have bs: "byte_size (au_val v) n" using au_bits_byte_size [OF assms] by (simp add: n_def)
  note b = compact_pair_bounds [OF bs cp]
  obtain c where c: "(GetCompact v False :: ('e, u32) exec) = Inr c" "unat c = m + 2 ^ 24 * s"
    using GetCompact_val [OF assms cp [unfolded n_def], of False] by auto
  obtain v' neg ovf where s: "SetCompact c = (v', neg, ovf)" by (metis surj_pair)
  define B :: nat where "B = 256 ^ (s - 3)"
  have cv: "compact_value m s = au_val v div B * B" using compact_value_pair [OF cp] by (simp add: B_def)
  have le: "compact_value m s \<le> au_val v" unfolding cv by simp
  then have lt: "compact_value m s < 2 ^ 256" using au_val_256 [OF assms] by linarith
  have t: "compact_value (unat c mod 2 ^ 23) (unat c div 2 ^ 24) = compact_value m s"
    "even (unat c div 2 ^ 23)"
    unfolding c(2) compact_parts [OF b(1)] by simp_all
  note sv = SetCompact_val [OF s, unfolded t]
  have v': "au_wf v'" "au_val v' = compact_value m s" "\<not> neg" "\<not> ovf"
    using sv lt t(2) by simp_all
  note idem = compact_pair_idem [OF bs cp]
  have "(au_bits v' + 7) div 8 = n"
    using byte_size_unique [OF au_bits_byte_size [OF v'(1)]] idem(1) v'(2) by simp
  then obtain c' where c': "(GetCompact v' False :: ('e, u32) exec) = Inr c'" "unat c' = m + 2 ^ 24 * s"
    using GetCompact_val [OF v'(1), of m s False] idem(2) v'(2) by auto
  have "c' = c" using c(2) c'(2) by (simp add: word_unat_eq_iff)
  moreover have "(au_val v - au_val v') * 2 ^ 15 \<le> au_val v"
  proof (cases "au_val v = 0")
    case False
    then have m: "2 ^ 15 \<le> m" using b(2) by simp
    show ?thesis
    proof (cases "s \<le> 3")
      case True
      then have "B = 1" by (simp add: B_def)
      then show ?thesis by (simp add: v'(2) cv)
    next
      case False
      then have mB: "compact_value m s = m * B" by (simp add: compact_value_def B_def)
      have "au_val v - au_val v div B * B \<le> B"
        by (metis minus_div_mult_eq_mod mod_less_divisor B_def less_imp_le zero_less_numeral zero_less_power)
      then have "(au_val v - au_val v') * 2 ^ 15 \<le> B * m"
        unfolding v'(2) cv using m by (rule mult_le_mono)
      also have "\<dots> \<le> au_val v" using le mB by (simp add: mult.commute)
      finally show ?thesis .
    qed
  qed simp
  ultimately show ?thesis using c(1) c'(1) s v' le
    by (intro exI [of _ c] exI [of _ v']) simp
qed

section \<open>The remaining operations\<close>

lemma unat_dec32:
  "unat ((x :: u32) - 1) = (if x - 1 = - 1 then 2 ^ 32 - 1 else unat x - 1)"
  "(x :: u32) - 1 = - 1 \<longleftrightarrow> x = 0"
proof -
  show z: "x - 1 = - 1 \<longleftrightarrow> x = 0" by (metis diff_0 diff_add_cancel)
  show "unat (x - 1) = (if x - 1 = - 1 then 2 ^ 32 - 1 else unat x - 1)"
  proof (cases "x = 0")
    case True
    then show ?thesis by (simp add: unsigned_minus_1_eq_mask mask_eq_exp_minus_1)
  next
    case False
    then have "1 \<le> x" by (simp add: word_le_nat_alt unat_gt_0 Suc_le_eq)
    then show ?thesis using False z by (simp add: unat_sub)
  qed
qed

lemma au_dec_val:
  "xs \<noteq> [] \<Longrightarrow> length (au_dec xs) = length xs \<and>
   au_val (au_dec xs) = (au_val xs + (2 ^ (32 * length xs) - 1)) mod 2 ^ (32 * length xs)"
proof (induction xs rule: au_dec.induct)
  case (2 x)
  show ?case
  proof (cases "x = 0")
    case True
    then show ?thesis by (simp add: unsigned_minus_1_eq_mask mask_eq_exp_minus_1)
  next
    case False
    then have "0 < unat x" by (simp add: unat_gt_0)
    then have "unat x + (2 ^ 32 - 1) = (unat x - 1) + 2 ^ 32" by simp
    then have "(unat x + (2 ^ 32 - 1)) mod 2 ^ 32 = unat x - 1"
      using u32_less [of x] by (simp only: mod_add_self2) simp
    then show ?thesis using False by (simp add: unat_dec32)
  qed
next
  case (3 x y xs)
  define B :: nat where "B = 2 ^ 32"
  define M :: nat where "M = 2 ^ (32 * length (y # xs))"
  define V where "V = au_val (y # xs)"
  have M: "0 < M" "V < M" using au_val_less [of "y # xs"] by (simp_all add: M_def V_def)
  have p: "2 ^ (32 * length (x # y # xs)) = B * M" by (simp add: B_def M_def power_add)
  have B: "unat x < B" "0 < B" using u32_less [of x] by (simp_all add: B_def)
  show ?case
  proof (cases "x = 0")
    case True
    have ih: "length (au_dec (y # xs)) = length (y # xs)" "au_val (au_dec (y # xs)) = (V + (M - 1)) mod M"
      using 3 True unfolding M_def V_def by (simp_all add: unat_dec32)
    have "au_val (au_dec (x # y # xs)) = (B - 1) + B * ((V + (M - 1)) mod M)"
      using True ih(2) by (simp add: B_def unsigned_minus_1_eq_mask mask_eq_exp_minus_1)
    also have "\<dots> = ((B - 1) + B * (V + (M - 1))) mod (B * M)" using B by (intro low_combine) simp
    also have "(B - 1) + B * (V + (M - 1)) = B * V + (B * M - 1)"
      using M B by (cases M) (auto simp: algebra_simps)
    finally have e: "au_val (au_dec (x # y # xs)) = (B * V + (B * M - 1)) mod (B * M)" .
    have v: "au_val (x # y # xs) = B * V" using True by (simp add: B_def V_def)
    have "length (au_dec (x # y # xs)) = length (x # y # xs)" using True ih(1) by simp
    then show ?thesis unfolding p v e by simp
  next
    case False
    then have x: "0 < unat x" by (simp add: unat_gt_0)
    have "unat x + B * V + (B * M - 1) = (unat x - 1 + B * V) + B * M" using x B M by (simp add: Suc_leI)
    moreover have "unat x - 1 + B * V < B * M" using limb_less [of "unat x - 1" B V M 0] B M by simp
    ultimately have "(unat x + B * V + (B * M - 1)) mod (B * M) = unat x - 1 + B * V"
      by (simp only: mod_add_self2) simp
    then show ?thesis using False unfolding p by (simp add: unat_dec32 B_def V_def)
  qed
qed simp

lemma au_bitwise_val:
  assumes "length a = length b"
  shows "au_val (au_and a b) = au_val a AND au_val b"
    "au_val (au_or a b) = au_val a OR au_val b"
    "au_val (au_xor a b) = au_val a XOR au_val b"
  using assms
  by (auto intro!: bit_eqI simp: bit_au_val au_and_def au_or_def au_xor_def bit_and_iff bit_or_iff bit_xor_iff)

lemma au_EqualTo_val: "au_wf a \<Longrightarrow> au_EqualTo a v \<longleftrightarrow> au_val a = unat v"
proof -
  assume a: "au_wf a"
  then obtain x y r where xy: "a = x # y # r" "length r = 6" by (cases a; cases "tl a") auto
  have c: "ucast (v AND 0xffffffff) = (ucast v :: u32)"
    unfolding word_unat_eq_iff low32 by (simp only: unat_low32)
  have "au_EqualTo a v \<longleftrightarrow> a = au_of_u64 v"
  proof
    assume e: "au_EqualTo a v"
    then have "\<forall>z \<in> set r. z = 0" by (simp add: au_EqualTo_def xy numeral_2_eq_2)
    then have "r = replicate 6 0" using xy(2) by (metis replicate_length_same)
    then show "a = au_of_u64 v" using e c by (simp add: au_EqualTo_def au_of_u64_def xy)
  next
    assume "a = au_of_u64 v"
    then show "au_EqualTo a v" by (simp add: au_EqualTo_def au_of_u64_def c numeral_2_eq_2)
  qed
  also have "\<dots> \<longleftrightarrow> au_val a = au_val (au_of_u64 v)"
    using a au_val_inj [of a "au_of_u64 v"] by auto
  finally show ?thesis by (simp add: au_of_u64_val)
qed

section \<open>The interface\<close>

text \<open>
  What the clients of \<open>arith_uint256\<close> rely on: the operations compute on the numbers modulo
  \<open>2^256\<close>, and division throws for a zero divisor only.
\<close>

locale uint256_arith =
  fixes val :: "'a \<Rightarrow> nat" and wf :: "'a \<Rightarrow> bool" and of_u64 :: "u64 \<Rightarrow> 'a"
    and add sub mul :: "'a \<Rightarrow> 'a \<Rightarrow> 'a" and compl :: "'a \<Rightarrow> 'a"
    and divide :: "'a \<Rightarrow> 'a \<Rightarrow> ('e, 'a) exec" and cmp :: "'a \<Rightarrow> 'a \<Rightarrow> int"
  assumes wf_ops: "wf (of_u64 v)" "wf a \<Longrightarrow> wf b \<Longrightarrow> wf (add a b)" "wf a \<Longrightarrow> wf b \<Longrightarrow> wf (sub a b)"
      "wf a \<Longrightarrow> wf b \<Longrightarrow> wf (mul a b)" "wf a \<Longrightarrow> wf (compl a)"
    and val_less: "wf a \<Longrightarrow> val a < 2 ^ 256"
    and val_of_u64: "val (of_u64 v) = unat v"
    and val_add: "wf a \<Longrightarrow> wf b \<Longrightarrow> val (add a b) = (val a + val b) mod 2 ^ 256"
    and val_sub: "wf a \<Longrightarrow> wf b \<Longrightarrow> val (sub a b) = (val a + (2 ^ 256 - val b)) mod 2 ^ 256"
    and val_mul: "wf a \<Longrightarrow> wf b \<Longrightarrow> val (mul a b) = (val a * val b) mod 2 ^ 256"
    and val_compl: "wf a \<Longrightarrow> val (compl a) = 2 ^ 256 - 1 - val a"
    and divide_zero: "wf a \<Longrightarrow> wf b \<Longrightarrow> val b = 0 \<Longrightarrow> divide a b = Inl Throw"
    and divide_ok: "wf a \<Longrightarrow> wf b \<Longrightarrow> 0 < val b \<Longrightarrow> \<exists>q. divide a b = Inr q \<and> wf q \<and> val q = val a div val b"
    and cmp_sgn: "wf a \<Longrightarrow> wf b \<Longrightarrow> cmp a b = sgn (int (val a) - int (val b))"
begin

lemma cmp_iff:
  assumes "wf a" "wf b"
  shows "cmp a b < 0 \<longleftrightarrow> val a < val b" "0 < cmp a b \<longleftrightarrow> val b < val a" "cmp a b = 0 \<longleftrightarrow> val a = val b"
  using cmp_sgn [OF assms] by (auto simp: sgn_if)

lemma val_sub_ge:
  assumes "wf a" "wf b" "val b \<le> val a"
  shows "val (sub a b) = val a - val b"
proof -
  have "val a + (2 ^ 256 - val b) = (val a - val b) + 2 ^ 256"
    using val_less [OF assms(2)] assms(3) by linarith
  then show ?thesis using val_sub [OF assms(1,2)] val_less [OF assms(1)]
    by (simp only: mod_add_self2) (simp add: less_imp_diff_less)
qed

text \<open>
  The number of hashes expected for a target: \<open>~t / (t + 1) + 1\<close> is \<open>2^256 / (t + 1)\<close>, which does
  not fit into 256 bits as a division.
\<close>

lemma complement_division:
  assumes "wf t" "0 < val t" "val t < 2 ^ 256 - 1"
  shows "\<exists>q. divide (compl t) (add t (of_u64 1)) = Inr q \<and> wf q \<and>
    val (add q (of_u64 1)) = 2 ^ 256 div (val t + 1)"
proof -
  have one: "wf (of_u64 1)" "val (of_u64 1) = 1" by (simp_all add: wf_ops val_of_u64)
  have t1: "val (add t (of_u64 1)) = val t + 1" using assms val_add [OF assms(1) one(1)] one(2) by simp
  obtain q where q: "divide (compl t) (add t (of_u64 1)) = Inr q" "wf q"
    "val q = (2 ^ 256 - 1 - val t) div (val t + 1)"
    using divide_ok [OF wf_ops(5) [OF assms(1)] wf_ops(2) [OF assms(1) one(1)]] t1
    by (auto simp: val_compl [OF assms(1)])
  have e: "2 ^ 256 = (2 ^ 256 - 1 - val t) + (val t + 1)" using assms(3) by linarith
  have "2 ^ 256 div (val t + 1) = val q + 1"
    by (subst e) (simp only: div_add_self2 q(3))
  moreover have "val q + 1 < 2 ^ 256"
  proof -
    have "(2 ^ 256 - 1 - val t) div (val t + 1) \<le> 2 ^ 256 - 1 - val t" by (rule div_le_dividend)
    then show ?thesis using q(3) assms(2,3) by linarith
  qed
  ultimately show ?thesis using q val_add [OF q(2) one(1)] one(2) by auto
qed

end

lemma au_not_wf: "au_wf a \<Longrightarrow> length (au_not a) = WIDTH" "au_wf a \<Longrightarrow> au_val (au_not a) = 2 ^ 256 - 1 - au_val a"
proof -
  assume a: "au_wf a"
  then show "length (au_not a) = WIDTH" using au_not_val [of a] by simp
  show "au_val (au_not a) = 2 ^ 256 - 1 - au_val a" 
  proof -
    have "au_val (au_not a) + au_val a + 1 = 2 ^ 256" using au_not_val [of a] a by simp
    then show ?thesis by linarith
  qed
qed

interpretation arith: uint256_arith au_val au_wf au_of_u64 au_add au_sub au_mul au_not au_div au_CompareTo
  by unfold_locales
    (auto simp: au_add_val au_sub_val au_mul_val au_not_wf au_val_256 [simplified] au_of_u64_val
      au_CompareTo_val intro: au_div_val)

section \<open>Properties\<close>

text \<open>C26: The 256-bit integers refine the numbers modulo \<open>2^256\<close>. For arrays of eight limbs, addition,
  subtraction, negation, increment, decrement, multiplication by an array and by a 32-bit word, the two
  shifts by any distance and the bitwise operations compute the corresponding operation on the
  numbers the arrays stand for, and \<open>CompareTo\<close> is the sign of the difference.\<close>

theorem uint256_refines:
  assumes "au_wf a" and "au_wf b"
  shows "au_val (au_add a b) = (au_val a + au_val b) mod 2 ^ 256 \<and>
    au_val (au_sub a b) = nat ((int (au_val a) - int (au_val b)) mod 2 ^ 256) \<and>
    au_val (au_neg a) = nat ((- int (au_val a)) mod 2 ^ 256) \<and>
    au_val (au_inc a) = (au_val a + 1) mod 2 ^ 256 \<and>
    au_val (au_dec a) = nat ((int (au_val a) - 1) mod 2 ^ 256) \<and>
    au_val (au_mul a b) = (au_val a * au_val b) mod 2 ^ 256 \<and>
    au_val (au_mul32 a w) = (au_val a * unat w) mod 2 ^ 256 \<and>
    au_val (au_shl a k) = (au_val a * 2 ^ k) mod 2 ^ 256 \<and>
    au_val (au_shr a k) = au_val a div 2 ^ k \<and>
    au_val (au_not a) = 2 ^ 256 - 1 - au_val a \<and>
    au_val (au_and a b) = au_val a AND au_val b \<and>
    au_val (au_or a b) = au_val a OR au_val b \<and>
    au_val (au_xor a b) = au_val a XOR au_val b \<and>
    au_CompareTo a b = sgn (int (au_val a) - int (au_val b))"
proof -
  have wrap: "(x + (2 ^ 256 - y)) mod 2 ^ 256 = nat ((int x - int y) mod 2 ^ 256)" if "y \<le> 2 ^ 256" for x y :: nat
  proof -
    have "int ((x + (2 ^ 256 - y)) mod 2 ^ 256) = (int x - int y + 2 ^ 256) mod 2 ^ 256"
      using that by (simp add: of_nat_mod of_nat_diff algebra_simps)
    also have "\<dots> = (int x - int y) mod 2 ^ 256" by (rule mod_add_self2)
    finally show ?thesis by (metis nat_int)
  qed
  have la: "au_val a \<le> 2 ^ 256" "au_val b \<le> 2 ^ 256"
    using au_val_256 [OF assms(1)] au_val_256 [OF assms(2)] by simp_all
  have ne: "a \<noteq> []" using assms(1) by auto
  have "au_val (au_neg a) = nat ((- int (au_val a)) mod 2 ^ 256)"
    using au_neg_val [OF assms(1)] wrap [OF la(1), of 0] by simp
  moreover have "au_val (au_sub a b) = nat ((int (au_val a) - int (au_val b)) mod 2 ^ 256)"
    using au_sub_val(2) [OF assms] wrap [OF la(2)] by simp
  moreover have "au_val (au_dec a) = nat ((int (au_val a) - 1) mod 2 ^ 256)"
    using au_dec_val [OF ne] wrap [of 1 "au_val a"] assms(1) by simp
  moreover have "au_val (au_inc a) = (au_val a + 1) mod 2 ^ 256"
    using au_inc_val [OF ne] assms(1) by simp
  moreover have "au_val (au_mul32 a w) = (au_val a * unat w) mod 2 ^ 256"
    using au_mul32_loop_val [of 0 w a] assms(1) by (simp add: au_mul32_def mult.commute)
  moreover have "au_val (au_and a b) = au_val a AND au_val b" "au_val (au_or a b) = au_val a OR au_val b"
    "au_val (au_xor a b) = au_val a XOR au_val b"
    using au_bitwise_val [of a b] assms by simp_all
  ultimately show ?thesis
    using au_add_val(2) [OF assms] conjunct2 [OF au_mul_val [OF assms]] au_shl_val [OF assms(1), of k]
      au_shr_val [OF assms(1), of k] au_not_wf(2) [OF assms(1)] au_CompareTo_val [OF assms]
    by (intro conjI)
qed

theorem uint256_refines_witness:
  "au_val (au_add au_zero (au_of_u64 5)) = 5 \<and> au_val (au_sub au_zero (au_of_u64 1)) = 2 ^ 256 - 1"
proof -
  have w: "au_wf au_zero" "au_wf (au_of_u64 5)" "au_wf (au_of_u64 1)" by simp_all
  have "au_val (au_add au_zero (au_of_u64 5)) = (au_val au_zero + au_val (au_of_u64 5)) mod 2 ^ 256"
    using uint256_refines [OF w(1,2)] by blast
  moreover have "au_val (au_sub au_zero (au_of_u64 1)) = nat ((int (au_val au_zero) - int (au_val (au_of_u64 1))) mod 2 ^ 256)"
    using uint256_refines [OF w(1,3)] by blast
  ultimately show ?thesis by (simp add: au_of_u64_val)
qed

text \<open>C27: Division: it throws \<open>uint_error\<close> exactly for a zero divisor, and otherwise the shift-and-subtract
  loop ends with the quotient of the numbers.\<close>

theorem uint256_division:
  assumes "au_wf a" and "au_wf b"
  shows "((au_div a b :: ('e, arith_uint256) exec) = Inl Throw \<longleftrightarrow> au_val b = 0) \<and>
    (0 < au_val b \<longrightarrow> (\<exists>q. (au_div a b :: ('e, arith_uint256) exec) = Inr q \<and> au_wf q \<and>
       au_val q = au_val a div au_val b))"
proof (cases "au_val b = 0")
  case True
  then show ?thesis using au_div_val(1) [OF assms] by simp
next
  case False
  then obtain q where "(au_div a b :: ('e, arith_uint256) exec) = Inr q" "au_wf q" "au_val q = au_val a div au_val b"
    using au_div_val(2) [OF assms] by auto
  then show ?thesis using False by simp
qed

theorem uint256_division_witness:
  "\<exists>q. (au_div (au_of_u64 1000) (au_of_u64 7) :: (unit, arith_uint256) exec) = Inr q \<and> au_val q = 142"
proof -
  have w: "au_wf (au_of_u64 1000)" "au_wf (au_of_u64 7)" by simp_all
  have p: "0 < au_val (au_of_u64 7)" by (simp add: au_of_u64_val)
  obtain q where "(au_div (au_of_u64 1000) (au_of_u64 7) :: (unit, arith_uint256) exec) = Inr q"
    "au_val q = au_val (au_of_u64 1000) div au_val (au_of_u64 7)"
    using uint256_division [OF w] p by blast
  then show ?thesis by (simp add: au_of_u64_val)
qed

text \<open>C28: The compact format of difficulty targets. Encoding never fails an assertion; decoding the encoding
  sets neither the negative nor the overflow flag and gives a number that is at most the original and
  differs from it by at most one part in \<open>2^15\<close>; encoding that number again gives the same word. For every
  32-bit word the overflow flag says exactly that the encoded number needs more than 256 bits.\<close>

theorem compact_roundtrip:
  assumes "au_wf v"
  shows "(\<exists>n v'. (GetCompact v False :: ('e, u32) exec) = Inr n \<and> SetCompact n = (v', False, False) \<and> au_wf v' \<and>
      (GetCompact v' False :: ('e, u32) exec) = Inr n \<and> au_val v' \<le> au_val v \<and>
      (au_val v - au_val v') * 2 ^ 15 \<le> au_val v) \<and>
    (snd (snd (SetCompact c)) \<longleftrightarrow> 2 ^ 256 \<le> compact_value (unat c mod 2 ^ 23) (unat c div 2 ^ 24))"
proof -
  obtain x neg ovf where "SetCompact c = (x, neg, ovf)" by (metis surj_pair)
  then show ?thesis using compact_roundtrip_aux [OF assms] SetCompact_val(3) by auto
qed

theorem compact_roundtrip_witness:
  "\<exists>n v'. (GetCompact (au_of_u64 123456789) False :: (unit, u32) exec) = Inr n \<and>
     SetCompact n = (v', False, False) \<and> au_val v' \<le> 123456789 \<and> (123456789 - au_val v') * 2 ^ 15 \<le> 123456789"
proof -
  have w: "au_wf (au_of_u64 123456789)" by simp
  have v: "au_val (au_of_u64 123456789) = 123456789" by (simp add: au_of_u64_val)
  show ?thesis using compact_roundtrip [OF w, where 'e = unit, unfolded v] by blast
qed

end
