(* ===== verification/Pow_Facts.thy ===== *)
theory Pow_Facts
  imports Pow Chain_Facts Arith_Facts
begin

text \<open>
  What the proof-of-work code computes: the required target never exceeds the limit and no step of the
  computation fails on a well-formed index; the LWMA algorithm keeps the target within 67 and 150
  percent of the previous one as long as the product does not wrap; a header that passes the check has
  a hash at most its target, and the work it stands for is the number of hashes expected for it.
\<close>

section \<open>Facts\<close>

lemma au_of_int_val:
  assumes "0 \<le> n" "n < 2 ^ 64"
  shows "au_val (au_of_int n) = nat n"
proof -
  have "uint (word_of_int n :: u64) = n" using assms by (simp add: uint_word_of_int)
  then show ?thesis by (simp add: au_of_u64_val flip: nat_uint_eq)
qed

lemma au_mul32_val:
  assumes "au_wf a"
  shows "length (au_mul32 a w) = WIDTH" "au_val (au_mul32 a w) = (au_val a * unat w) mod 2 ^ 256"
  using au_mul32_loop_val [of 0 w a] assms by (simp_all add: au_mul32_def mult.commute)

lemma au_val_eq_0: "au_val a = 0 \<longleftrightarrow> (\<forall>x \<in> set a. x = 0)"
  by (induction a) (auto simp: unat_eq_0)

lemma au_EqualTo_0:
  assumes "au_wf a"
  shows "au_EqualTo a 0 \<longleftrightarrow> au_val a = 0"
proof -
  obtain x y r where "a = x # y # r" using assms by (cases a; cases "tl a") auto
  then show ?thesis by (auto simp: au_EqualTo_def au_val_eq_0 unat_eq_0)
qed

lemma au_div_ok:
  assumes "au_wf a" "au_wf b" "0 < au_val b"
  obtains q where "(au_div a b :: ('e, arith_uint256) exec) = Inr q" "au_wf q" "au_val q = au_val a div au_val b"
  by (rule exE [OF au_div_val(2) [OF assms]]) (use that in blast)

lemma au_min:
  assumes "au_wf a" "au_wf b"
  shows "au_wf (if au_CompareTo a b > 0 then b else a) \<and> au_val (if au_CompareTo a b > 0 then b else a) = min (au_val a) (au_val b)"
  using arith.cmp_iff(2) [OF assms] assms by auto

text \<open>\<open>compact_of x n\<close>: \<open>n\<close> is the compact form of a number \<open>x\<close>, that is, it decodes without
  flags to a number at most one part in \<open>2\<^sup>1\<^sup>5\<close> below \<open>x\<close>.\<close>

definition compact_of :: "nat \<Rightarrow> u32 \<Rightarrow> bool" where
  "compact_of x n \<longleftrightarrow> (\<exists>v. SetCompact n = (v, False, False) \<and> au_val v \<le> x \<and> (x - au_val v) * 2 ^ 15 \<le> x)"

lemma GetCompact_compact_of:
  assumes "au_wf v"
  shows "\<exists>n. (GetCompact v False :: ('e, u32) exec) = Inr n \<and> compact_of (au_val v) n"
  using compact_roundtrip_aux [OF assms, where 'e = 'e] unfolding compact_of_def by blast

lemma SetCompact_wf [simp]: "length (fst (SetCompact n)) = WIDTH"
  using SetCompact_val(1) [of n] by (metis prod.collapse)

lemma digishield_result:
  assumes "au_wf bnAvg" "length (powLimit params) = 32"
    and w: "0 < AveragingWindowTimespan params" "AveragingWindowTimespan params < 2 ^ 64"
    and m: "0 \<le> MinActualTimespan params" "MinActualTimespan params \<le> MaxActualTimespan params"
      "MaxActualTimespan params < 2 ^ 32"
    and no: "au_val bnAvg div nat (AveragingWindowTimespan params) * nat (MaxActualTimespan params) < 2 ^ 256"
  shows "\<exists>n s. (DigishieldCalculateNextWorkRequired bnAvg l f params :: ('e, u32) exec) = Inr n \<and>
    MinActualTimespan params \<le> s \<and> s \<le> MaxActualTimespan params \<and>
    compact_of (min (au_val bnAvg div nat (AveragingWindowTimespan params) * nat s) (le_nat (powLimit params))) n"
proof -
  define W where "W = AveragingWindowTimespan params"
  define s where "s = (let span = W + cdiv (l - f - W) 4;
      span = (if span < MinActualTimespan params then MinActualTimespan params else span)
    in if span > MaxActualTimespan params then MaxActualTimespan params else span)"
  have s: "MinActualTimespan params \<le> s" "s \<le> MaxActualTimespan params"
    using m by (auto simp: s_def Let_def)
  have W: "au_val (au_of_int W) = nat W" using w by (simp add: au_of_int_val W_def)
  obtain q where q: "(au_div bnAvg (au_of_int W) :: ('e, arith_uint256) exec) = Inr q" "au_wf q"
    "au_val q = au_val bnAvg div nat W"
    using au_div_ok [OF assms(1), of "au_of_int W", where 'e = 'e] W w by (auto simp: W_def)
  have us: "unat (word_of_int s :: u32) = nat s"
  proof -
    have "uint (word_of_int s :: u32) = s" using s m by (simp add: uint_word_of_int)
    then show ?thesis by (simp flip: nat_uint_eq)
  qed
  have "au_val bnAvg div nat W * nat s \<le> au_val bnAvg div nat W * nat (MaxActualTimespan params)"
    using s by (intro mult_le_mono2) simp
  then have "au_val bnAvg div nat W * nat s < 2 ^ 256" using no unfolding W_def by (rule le_less_trans)
  then have x: "au_wf (au_mul32 q (word_of_int s))" "au_val (au_mul32 q (word_of_int s)) = au_val bnAvg div nat W * nat s"
    using au_mul32_val [OF q(2)] q(3) us by simp_all
  define r where "r = (if au_CompareTo (au_mul32 q (word_of_int s)) (UintToArith256 (powLimit params)) > 0
    then UintToArith256 (powLimit params) else au_mul32 q (word_of_int s))"
  have r: "au_wf r" "au_val r = min (au_val bnAvg div nat W * nat s) (le_nat (powLimit params))"
    using au_min [OF x(1) length_UintToArith256] x(2) UintToArith256_val [OF assms(2)] unfolding r_def by simp_all
  have "(DigishieldCalculateNextWorkRequired bnAvg l f params :: ('e, u32) exec) = GetCompact r False"
    unfolding DigishieldCalculateNextWorkRequired_def Let_def W_def [symmetric] s_def [unfolded Let_def, symmetric] q(1) r_def
    by simp
  then show ?thesis using GetCompact_compact_of [OF r(1), where 'e = 'e] r(2) s unfolding W_def by auto
qed

lemma lwma_clamp_result:
  assumes "au_wf L" "au_wf p" "au_wf x"
  shows "\<exists>y. (lwma_clamp L p x :: ('e, arith_uint256) exec) = Inr y \<and> au_wf y \<and>
    au_val y = min (max (min (au_val x) (au_val p * 150 mod 2 ^ 256 div 100)) (au_val p * 67 mod 2 ^ 256 div 100)) (au_val L)"
proof -
  have h: "au_val (au_of_int 100) = 100" using au_of_int_val [of 100] by simp
  have hp: "0 < au_val (au_of_int 100)" using h by simp
  have m: "au_val (au_mul32 p 150) = au_val p * 150 mod 2 ^ 256" "au_val (au_mul32 p 67) = au_val p * 67 mod 2 ^ 256"
    using au_mul32_val(2) [OF assms(2), of 150] au_mul32_val(2) [OF assms(2), of 67] by simp_all
  obtain u where "(au_div (au_mul32 p 150) (au_of_int 100) :: ('e, arith_uint256) exec) = Inr u" "au_wf u"
    "au_val u = au_val (au_mul32 p 150) div au_val (au_of_int 100)"
    by (rule au_div_ok [OF au_mul32_val(1) [OF assms(2)] length_au_ops(2) hp])
  note u = this [unfolded h m]
  obtain l where "(au_div (au_mul32 p 67) (au_of_int 100) :: ('e, arith_uint256) exec) = Inr l" "au_wf l"
    "au_val l = au_val (au_mul32 p 67) div au_val (au_of_int 100)"
    by (rule au_div_ok [OF au_mul32_val(1) [OF assms(2)] length_au_ops(2) hp])
  note l = this [unfolded h m]
  define a where "a = (if au_CompareTo x u > 0 then u else x)"
  define b where "b = (if au_CompareTo l a > 0 then l else a)"
  have a: "au_wf a" "au_val a = min (au_val x) (au_val u)"
    using au_min [OF assms(3) u(2)] unfolding a_def by simp_all
  have b: "au_wf b" "au_val b = max (au_val a) (au_val l)"
    using arith.cmp_iff(2) [OF l(2) a(1)] l(2) a(1) unfolding b_def by auto
  have "(lwma_clamp L p x :: ('e, arith_uint256) exec) = Inr (if au_CompareTo b L > 0 then L else b)"
    unfolding lwma_clamp_def u(1) l(1) exec_bind_simps Let_def a_def [symmetric] b_def [symmetric] ..
  then show ?thesis using au_min [OF b(1) assms(1)] unfolding b(2) a(2) u(3) l(3) by blast
qed

lemma GetAncestor_entry:
  assumes "index_ok st" "st a = Some b" "0 \<le> i" "i \<le> bi_nHeight b"
  shows "\<exists>p c. (GetAncestor st a i :: ('e, addr option) exec) = Inr (Some p) \<and> st p = Some c \<and> (i = bi_nHeight b \<longrightarrow> c = b)"
proof -
  obtain p c where p: "ancestor st a (nat (bi_nHeight b - i)) = Some p" "st p = Some c"
    using ancestor_some [OF assms(1,2), of "nat (bi_nHeight b - i)"] assms(3,4) by auto
  have "i = bi_nHeight b \<Longrightarrow> p = a" using p(1) by simp
  then show ?thesis using GetAncestor_eq [OF assms(1,2), of i, where 'e = 'e] p assms by auto
qed

lemma lwma_loop_result:
  assumes "index_ok st" "st a = Some b" "0 < kN" "kN < 2 ^ 64"
    and "\<forall>i \<in> set is. 0 \<le> i \<and> i \<le> bi_nHeight b" "au_wf sm" "au_wf prev"
  shows "\<exists>t' sm' prev'. (lwma_loop st a T kN is ts t j sm prev :: ('e, int \<times> arith_uint256 \<times> arith_uint256) exec) =
      Inr (t', sm', prev') \<and> au_wf sm' \<and> au_wf prev' \<and>
    (is = [] \<longrightarrow> prev' = prev) \<and> (is \<noteq> [] \<and> last is = bi_nHeight b \<longrightarrow> prev' = fst (SetCompact (bi_nBits b)))"
  using assms(5-)
proof (induction "is" arbitrary: ts t j sm prev)
  case (Cons i "is")
  have i: "0 \<le> i" "i \<le> bi_nHeight b" using Cons.prems by auto
  obtain p c where p: "(GetAncestor st a i :: ('e, addr option) exec) = Inr (Some p)" "st p = Some c"
    "i = bi_nHeight b \<longrightarrow> c = b"
    using GetAncestor_entry [OF assms(1,2) i, where 'e = 'e] by blast
  have kN: "0 < au_val (au_of_int kN)" using assms(3,4) by (simp add: au_of_int_val)
  obtain q where q: "(au_div (fst (SetCompact (bi_nBits c))) (au_of_int kN) :: ('e, arith_uint256) exec) = Inr q" "au_wf q"
    by (rule au_div_ok [OF SetCompact_wf length_au_ops(2) kN])
  define tt where "tt = (if bi_GetBlockTime c > ts then bi_GetBlockTime c else ts + 1)"
  define prev1 where "prev1 = (if is = [] then fst (SetCompact (bi_nBits c)) else prev)"
  have step: "(lwma_loop st a T kN (i # is) ts t j sm prev :: ('e, int \<times> arith_uint256 \<times> arith_uint256) exec) =
      lwma_loop st a T kN is tt (t + min (6 * T) (tt - ts) * (j + 1)) (j + 1) (au_add sm q) prev1"
    using p q by (simp add: deref_def Let_def tt_def prev1_def)
  have "au_wf (au_add sm q)" "au_wf prev1" using au_add_val(1) Cons.prems q(2) by (simp_all add: prev1_def)
  from Cons.IH [OF _ this, of tt] obtain t' sm' prev' where
    "(lwma_loop st a T kN is tt (t + min (6 * T) (tt - ts) * (j + 1)) (j + 1) (au_add sm q) prev1
        :: ('e, int \<times> arith_uint256 \<times> arith_uint256) exec) = Inr (t', sm', prev')" "au_wf sm'" "au_wf prev'"
    "is = [] \<longrightarrow> prev' = prev1" "is \<noteq> [] \<and> last is = bi_nHeight b \<longrightarrow> prev' = fst (SetCompact (bi_nBits b))"
    using Cons.prems(1) by fastforce
  then show ?case unfolding step using p(3) by (auto simp: prev1_def)
qed simp

definition lwma_divisor :: "ConsensusParams \<Rightarrow> int" where
  "lwma_divisor params =
     (let N = nZawyLWMA3AveragingWindow params in cdiv (N * (N + 1) * nPowTargetSpacing params) 2 * N)"

lemma lwma_result:
  assumes "index_ok st" "st a = Some b" "length (powLimit params) = 32"
    and N1: "1 \<le> nZawyLWMA3AveragingWindow params"
    and kN: "0 < lwma_divisor params" "lwma_divisor params < 2 ^ 64"
  defines "prev \<equiv> au_val (fst (SetCompact (bi_nBits b)))"
  shows "\<exists>n x. (Lwma3CalculateNextWorkRequired st a params :: ('e, u32) exec) = Inr n \<and> compact_of x n \<and>
    x \<le> le_nat (powLimit params) \<and>
    (nZawyLWMA3AveragingWindow params \<le> bi_nHeight b \<longrightarrow>
      (\<exists>y. x = min (max (min y (prev * 150 mod 2 ^ 256 div 100)) (prev * 67 mod 2 ^ 256 div 100)) (le_nat (powLimit params))))"
proof -
  define L where "L = UintToArith256 (powLimit params)"
  have L: "au_wf L" "au_val L = le_nat (powLimit params)" using UintToArith256_val [OF assms(3)] by (simp_all add: L_def)
  define N where "N = nZawyLWMA3AveragingWindow params"
  show ?thesis
  proof (cases "bi_nHeight b < N")
    case True
    then have "(Lwma3CalculateNextWorkRequired st a params :: ('e, u32) exec) = GetCompact L False"
      using assms(2) by (simp add: Lwma3CalculateNextWorkRequired_def deref_def N_def L_def)
    then show ?thesis using GetCompact_compact_of [OF L(1), where 'e = 'e] L(2) True unfolding N_def by auto
  next
    case False
    then obtain p c where p: "(GetAncestor st a (bi_nHeight b - N) :: ('e, addr option) exec) = Inr (Some p)" "st p = Some c"
      using GetAncestor_entry [OF assms(1,2), of "bi_nHeight b - N", where 'e = 'e] N1 by (auto simp: N_def)
    let ?is = "[bi_nHeight b - N + 1 .. bi_nHeight b]"
    have ne: "?is \<noteq> []" using N1 by (simp add: N_def)
    have "last ?is = bi_nHeight b"
      using N1 upto_rec2 [of "bi_nHeight b - N + 1" "bi_nHeight b"] by (simp add: N_def)
    have range: "\<forall>i \<in> set ?is. 0 \<le> i \<and> i \<le> bi_nHeight b" using False by auto
    obtain t sm pr where l: "(lwma_loop st a (nPowTargetSpacing params) (lwma_divisor params) ?is (bi_GetBlockTime c) 0 0 au_zero au_zero
        :: ('e, int \<times> arith_uint256 \<times> arith_uint256) exec) = Inr (t, sm, pr)" "au_wf sm"
        "?is \<noteq> [] \<and> last ?is = bi_nHeight b \<longrightarrow> pr = fst (SetCompact (bi_nBits b))"
      using lwma_loop_result [OF assms(1,2) kN range length_au_ops(1) length_au_ops(1), where 'e = 'e] by blast
    have pr: "pr = fst (SetCompact (bi_nBits b))" using l(3) ne \<open>last ?is = bi_nHeight b\<close> by blast
    obtain y where y: "(lwma_clamp L (fst (SetCompact (bi_nBits b))) (au_mul (au_of_int t) sm) :: ('e, arith_uint256) exec) = Inr y" "au_wf y"
      "au_val y = min (max (min (au_val (au_mul (au_of_int t) sm)) (prev * 150 mod 2 ^ 256 div 100)) (prev * 67 mod 2 ^ 256 div 100)) (au_val L)"
      using lwma_clamp_result [OF L(1) SetCompact_wf, of "au_mul (au_of_int t) sm" "bi_nBits b", where 'e = 'e]
        arith.wf_ops(4) [OF length_au_ops(2) l(2)] unfolding prev_def by blast
    have "(Lwma3CalculateNextWorkRequired st a params :: ('e, u32) exec) = GetCompact y False"
      using False assms(2) p l(1) y(1)
      unfolding Lwma3CalculateNextWorkRequired_def L_def lwma_divisor_def N_def pr
      by (simp add: deref_def Let_def)
    then obtain n where n: "(Lwma3CalculateNextWorkRequired st a params :: ('e, u32) exec) = Inr n" "compact_of (au_val y) n"
      using GetCompact_compact_of [OF y(2), where 'e = 'e] by auto
    have "au_val y \<le> le_nat (powLimit params)" unfolding y(3) L(2) by (rule min.cobounded2)
    with n y(3) [unfolded L(2)] show ?thesis by blast
  qed
qed

lemma target_sum_result:
  assumes "index_ok st" "case p of None \<Rightarrow> True | Some a \<Rightarrow> st a \<noteq> None" "au_wf tot"
  shows "\<exists>q tot'. (target_sum st n p tot :: ('e, addr option \<times> arith_uint256) exec) = Inr (q, tot') \<and> au_wf tot' \<and>
    (case q of None \<Rightarrow> True | Some a \<Rightarrow> st a \<noteq> None)"
  using assms(2,3)
proof (induction n arbitrary: p tot)
  case (Suc n)
  show ?case
  proof (cases p)
    case (Some a)
    then obtain b where b: "st a = Some b" using Suc.prems by auto
    have "case pprev b of None \<Rightarrow> True | Some a \<Rightarrow> st a \<noteq> None"
      using index_okD(3) [OF assms(1) b] by (auto split: option.split)
    from Suc.IH [OF this au_add_val(1) [OF Suc.prems(2) SetCompact_wf]] show ?thesis using Some b by (simp add: deref_def)
  qed (use Suc.prems in auto)
qed auto

lemma GetMedianTimePast_some:
  assumes "index_ok st" "st a = Some b"
  shows "\<exists>m. (GetMedianTimePast st a :: ('e, int) exec) = Inr m"
proof -
  obtain ts where ts: "block_times (Suc 10) st (Some a) = (Inr ts :: ('e, int list) exec)"
    using block_times_some [OF assms(1), of "Some a" "Suc 10", where 'e = 'e] assms(2) by auto
  then have "block_times nMedianTimeSpan st (Some a) = (Inr ts :: ('e, int list) exec)"
    by (simp add: nMedianTimeSpan_def del: block_times.simps)
  then show ?thesis using GetMedianTimePast_median [OF _ block_times_ne [OF ts]] by blast
qed

text \<open>The parameters for which the algorithms cannot overflow.\<close>

definition pow_params_ok :: "ConsensusParams \<Rightarrow> bool" where
  "pow_params_ok p \<longleftrightarrow> params_ok p \<and> length (powLimit p) = 32 \<and> 0 < nPowAveragingWindow p \<and> nPowAveragingWindow p < 2 ^ 64 \<and>
     0 < AveragingWindowTimespan p \<and> AveragingWindowTimespan p < 2 ^ 64 \<and>
     0 \<le> MinActualTimespan p \<and> MinActualTimespan p \<le> MaxActualTimespan p \<and> MaxActualTimespan p < 2 ^ 32 \<and>
     MaxActualTimespan p \<le> nPowAveragingWindow p * AveragingWindowTimespan p \<and>
     1 \<le> nZawyLWMA3AveragingWindow p \<and> 0 < lwma_divisor p \<and> lwma_divisor p < 2 ^ 64"

lemma avg_no_overflow:
  assumes "tot < 2 ^ 256" "0 < w" "0 < W" "m \<le> w * W"
  shows "tot div w div W * m < (2 :: nat) ^ 256"
proof -
  have "tot div w div W * m \<le> tot div (w * W) * (w * W)" using assms(4) by (simp add: div_mult2_eq)
  also have "\<dots> \<le> tot" by simp
  finally show ?thesis using assms(1) by (rule le_less_trans)
qed

lemma GetNextWorkRequired_result:
  assumes "index_ok st" "pow_params_ok params" "case p of None \<Rightarrow> True | Some a \<Rightarrow> st a \<noteq> None"
  shows "\<exists>n x. (GetNextWorkRequired st p pblock params :: ('e, u32) exec) = Inr n \<and> compact_of x n \<and> x \<le> le_nat (powLimit params)"
proof -
  note ok = assms(2) [unfolded pow_params_ok_def]
  have L: "au_val (UintToArith256 (powLimit params)) = le_nat (powLimit params)" using ok by (simp add: UintToArith256_val)
  obtain lim where lim: "(GetCompact (UintToArith256 (powLimit params)) False :: ('e, u32) exec) = Inr lim"
    "compact_of (le_nat (powLimit params)) lim"
    using GetCompact_compact_of [of "UintToArith256 (powLimit params)", where 'e = 'e] L by auto
  show ?thesis
  proof (cases p)
    case None
    then show ?thesis using lim by (auto simp: GetNextWorkRequired_def)
  next
    case (Some a)
    then obtain b where b: "st a = Some b" using assms(3) by auto
    obtain q tot where q: "(target_sum st (nat (nPowAveragingWindow params)) (Some a) au_zero :: ('e, addr option \<times> arith_uint256) exec) = Inr (q, tot)"
      "au_wf tot" "case q of None \<Rightarrow> True | Some a \<Rightarrow> st a \<noteq> None"
      using target_sum_result [OF assms(1), of "Some a" au_zero "nat (nPowAveragingWindow params)", where 'e = 'e] b by auto
    have w: "au_val (au_of_int (nPowAveragingWindow params)) = nat (nPowAveragingWindow params)" using ok by (simp add: au_of_int_val)
    obtain avg where avg: "(au_div tot (au_of_int (nPowAveragingWindow params)) :: ('e, arith_uint256) exec) = Inr avg" "au_wf avg"
      "au_val avg = au_val tot div nat (nPowAveragingWindow params)"
      using au_div_ok [OF q(2), of "au_of_int (nPowAveragingWindow params)", where 'e = 'e] w ok by auto
    have "nat (MaxActualTimespan params) \<le> nat (nPowAveragingWindow params) * nat (AveragingWindowTimespan params)"
      using ok nat_mono [of "MaxActualTimespan params" "nPowAveragingWindow params * AveragingWindowTimespan params"]
      by (simp add: nat_mult_distrib)
    then have no: "au_val avg div nat (AveragingWindowTimespan params) * nat (MaxActualTimespan params) < 2 ^ 256"
      unfolding avg(3) using ok by (intro avg_no_overflow [OF au_val_256 [OF q(2)]]) simp_all
    have dig: "\<exists>n x. (DigishieldCalculateNextWorkRequired avg l f params :: ('e, u32) exec) = Inr n \<and> compact_of x n \<and> x \<le> le_nat (powLimit params)" for l f
      using digishield_result [OF avg(2) _ _ _ _ _ _ no, of l f, where 'e = 'e] ok by (meson min.cobounded2)
    have lw: "\<exists>n x. (Lwma3CalculateNextWorkRequired st a params :: ('e, u32) exec) = Inr n \<and> compact_of x n \<and> x \<le> le_nat (powLimit params)"
      using lwma_result [OF assms(1) b, of params, where 'e = 'e] ok by blast
    have h: "0 \<le> bi_nHeight b + 1" using index_okD(1) [OF assms(1) b] by simp
    show ?thesis
    proof (cases q)
      case None
      then show ?thesis using lim Some b q(1) by (auto simp: GetNextWorkRequired_def deref_def split: option.split)
    next
      case f: (Some f)
      then obtain c where c: "st f = Some c" using q(3) by auto
      obtain m1 m2 where m: "(GetMedianTimePast st a :: ('e, int) exec) = Inr m1" "(GetMedianTimePast st f :: ('e, int) exec) = Inr m2"
        using GetMedianTimePast_some [OF assms(1) b, where 'e = 'e] GetMedianTimePast_some [OF assms(1) c, where 'e = 'e] by blast
      show ?thesis
        using lim Some b q(1) avg(1) f m dig [of m1 m2] lw h
        by (auto simp: GetNextWorkRequired_def deref_def Let_def split: option.split)
    qed
  qed
qed

lemma SetCompact_cases:
  obtains t neg ovf where "SetCompact n = (t, neg, ovf)" "au_wf t"
  using SetCompact_val(1) [of n] by (metis prod.collapse)

lemma CheckProofOfWork_iff:
  assumes "length hash = 32" "length (powLimit params) = 32" "SetCompact nBits = (t, neg, ovf)"
  shows "CheckProofOfWork hash nBits params \<longleftrightarrow>
    \<not> neg \<and> \<not> ovf \<and> 0 < au_val t \<and> au_val t \<le> le_nat (powLimit params) \<and> le_nat hash \<le> au_val t"
proof -
  have t: "au_wf t" using SetCompact_val(1) [OF assms(3)] .
  have h: "au_val (UintToArith256 hash) = le_nat hash" "au_val (UintToArith256 (powLimit params)) = le_nat (powLimit params)"
    using assms(1,2) by (simp_all add: UintToArith256_val)
  show ?thesis
    unfolding CheckProofOfWork_def assms(3)
    using arith.cmp_iff(2) [OF t length_UintToArith256, of "powLimit params"]
      arith.cmp_iff(2) [OF length_UintToArith256 t, of hash] h
    by (auto simp: au_EqualTo_0 [OF t])
qed

lemma GetBlockProof_work:
  assumes "SetCompact nBits = (t, False, False)" "0 < au_val t" "au_val t < 2 ^ 256 - 1"
  shows "\<exists>w. (GetBlockProof nBits :: ('e, arith_uint256) exec) = Inr w \<and> au_wf w \<and> au_val w = 2 ^ 256 div (au_val t + 1)"
proof -
  have t: "au_wf t" using SetCompact_val(1) [OF assms(1)] .
  obtain q where q: "(au_div (au_not t) (au_add t (au_of_u64 1)) :: ('e, arith_uint256) exec) = Inr q" "au_wf q"
    "au_val (au_add q (au_of_u64 1)) = 2 ^ 256 div (au_val t + 1)"
    by (rule exE [OF arith.complement_division [OF t assms(2,3)]]) (use that in blast)
  then show ?thesis
    using assms(1,2) au_add_val(1) [OF q(2) length_au_ops(2)] by (auto simp: GetBlockProof_def au_EqualTo_0 [OF t])
qed

section \<open>Properties\<close>

text \<open>C21: The required target is bounded by the limit. On every well-formed index and for parameters within the
  stated bounds, computing the work required for the next block never fails an assertion, divides by zero or
  follows a dangling pointer; the result is the compact form, without sign or overflow, of a target that
  is at most the proof-of-work limit, whatever the block times and targets of the chain are.\<close>

theorem next_work_bounded:
  assumes "index_ok st" "pow_params_ok params" "case pindexLast of None \<Rightarrow> True | Some a \<Rightarrow> st a \<noteq> None"
  shows "\<exists>n x. (GetNextWorkRequired st pindexLast pblock params :: ('e, u32) exec) = Inr n \<and> compact_of x n \<and>
    x \<le> le_nat (powLimit params)"
  by (rule GetNextWorkRequired_result [OF assms])


text \<open>C22: The proof-of-work check and the work of a block. The check accepts a hash exactly if the compact target
  has no sign and no overflow, is positive and at most the limit, and the hash, read as a little-endian number, is
  at most the target; for an accepted header the work of the block is exactly \<open>2\<^sup>2\<^sup>5\<^sup>6\<close> divided by
  the target plus one, rounded down, and is positive.\<close>

theorem proof_of_work_exact:
  assumes "length hash = 32" "length (powLimit params) = 32" "le_nat (powLimit params) < 2 ^ 256 - 1"
    and "SetCompact nBits = (t, neg, ovf)"
  shows "(CheckProofOfWork hash nBits params \<longleftrightarrow>
      \<not> neg \<and> \<not> ovf \<and> 0 < au_val t \<and> au_val t \<le> le_nat (powLimit params) \<and> le_nat hash \<le> au_val t) \<and>
    (CheckProofOfWork hash nBits params \<longrightarrow>
      (\<exists>w. (GetBlockProof nBits :: ('e, arith_uint256) exec) = Inr w \<and> au_val w = 2 ^ 256 div (au_val t + 1) \<and> 0 < au_val w))"
proof -
  note iff = CheckProofOfWork_iff [OF assms(1,2,4)]
  show ?thesis
  proof (intro conjI impI iff)
    assume "CheckProofOfWork hash nBits params"
    with iff have t: "\<not> neg" "\<not> ovf" "0 < au_val t" "au_val t \<le> le_nat (powLimit params)" by auto
    have less: "au_val t < 2 ^ 256 - 1" using t(4) assms(3) by (rule le_less_trans)
    then have "0 < 2 ^ 256 div (au_val t + 1)" by (simp add: div_greater_zero_iff)
    then show "\<exists>w. (GetBlockProof nBits :: ('e, arith_uint256) exec) = Inr w \<and> au_val w = 2 ^ 256 div (au_val t + 1) \<and> 0 < au_val w"
      using GetBlockProof_work [OF _ t(3) less, of nBits, where 'e = 'e] assms(4) t(1,2) by auto
  qed
qed

section \<open>Where the difficulty algorithm goes wrong\<close>

text \<open>
  On the test network the limit is so high that 150 percent of a target near it wraps around: with a
  previous target at the limit the algorithm never asks for more than a quarter of it, whatever the
  solve times were, although they may call for an easier block.
\<close>

theorem testnet_lwma_wraps:
  assumes "au_wf x"
  defines "L \<equiv> UintToArith256 (powLimit test_consensus)"
  shows "\<exists>y. (lwma_clamp L L x :: ('e, arith_uint256) exec) = Inr y \<and> au_val y * 4 < au_val L"
proof -
  have L: "au_wf L" "au_val L = 2 ^ 251 - 1"
    by (simp_all add: L_def UintToArith256_val test_consensus_def uint256_of_nat_def le_nat_nat_le)
  obtain y where y: "(lwma_clamp L L x :: ('e, arith_uint256) exec) = Inr y"
    "au_val y = min (max (min (au_val x) (au_val L * 150 mod 2 ^ 256 div 100)) (au_val L * 67 mod 2 ^ 256 div 100)) (au_val L)"
    using lwma_clamp_result [OF L(1) L(1) assms(1), where 'e = 'e] by blast
  have "au_val L * 150 mod 2 ^ 256 div 100 * 4 < au_val L" "au_val L * 67 mod 2 ^ 256 div 100 * 4 < au_val L"
    unfolding L(2) by simp_all
  then have "au_val y * 4 < au_val L" unfolding y(2) by linarith
  then show ?thesis using y(1) by blast
qed

text \<open>
  The regression test network does not set the averaging window of the algorithm. Its static storage
  makes it 0, so the loop is empty and the required target is 0, which no hash can meet.
\<close>

lemma GetCompact_zero: "(GetCompact (replicate 8 0) False :: ('e, u32) exec) = Inr 0"
proof -
  have bits: "au_bits (replicate 8 0) = 0" by code_simp
  show ?thesis unfolding GetCompact_def bits by (simp add: au_GetLow64_def Let_def)
qed

lemma zero_clamp: "min (max (min 0 (0 * 150 mod 2 ^ 256 div 100)) (0 * 67 mod 2 ^ 256 div 100)) L = (0 :: nat)"
  by simp

theorem regtest_target_zero:
  assumes "index_ok st" "st a = Some b"
  shows "(Lwma3CalculateNextWorkRequired st a regtest_consensus :: ('e, u32) exec) = Inr 0 \<and>
    \<not> CheckProofOfWork hash 0 regtest_consensus"
proof -
  define L where "L = UintToArith256 (powLimit regtest_consensus)"
  have N: "nZawyLWMA3AveragingWindow regtest_consensus = 0" by (simp add: regtest_consensus_def)
  have h: "0 \<le> bi_nHeight b" using index_okD(1) [OF assms] .
  have anc: "(GetAncestor st a (bi_nHeight b) :: ('e, addr option) exec) = Inr (Some a)"
    using GetAncestor_eq [OF assms, of "bi_nHeight b", where 'e = 'e] h by simp
  have z: "au_val (au_mul (au_of_int 0) au_zero) = 0" "au_wf (au_mul (au_of_int 0) au_zero)"
    using arith.val_mul [of "au_of_int 0" au_zero] arith.wf_ops(4) [of "au_of_int 0" au_zero] by (simp_all add: au_of_u64_val)
  have "au_val au_zero = 0" by (simp add: au_val_eq_0 au_zero_def)
  then obtain y where y: "(lwma_clamp L au_zero (au_mul (au_of_int 0) au_zero) :: ('e, arith_uint256) exec) = Inr y" "au_wf y" "au_val y = 0"
    using lwma_clamp_result [of L au_zero "au_mul (au_of_int 0) au_zero", OF _ length_au_ops(1) z(2), where 'e = 'e]
    unfolding z(1) \<open>au_val au_zero = 0\<close> zero_clamp by (auto simp: L_def)
  have "y = replicate 8 0" using y(2,3) by (intro replicate_eqI) (auto simp: au_val_eq_0)
  then have "(GetCompact y False :: ('e, u32) exec) = Inr 0" using GetCompact_zero by simp
  then have "(Lwma3CalculateNextWorkRequired st a regtest_consensus :: ('e, u32) exec) = Inr 0"
    using assms(2) h anc y(1) unfolding Lwma3CalculateNextWorkRequired_def N L_def by (simp add: deref_def Let_def)
  moreover have "\<not> CheckProofOfWork hash 0 regtest_consensus"
  proof -
    obtain t neg ovf where s: "SetCompact 0 = (t, neg, ovf)" "au_wf t" by (rule SetCompact_cases)
    then have "au_val t = 0" using SetCompact_val(2) [OF s(1)] by (simp add: compact_value_def)
    then show ?thesis unfolding CheckProofOfWork_def s(1) by (simp add: au_EqualTo_0 [OF s(2)])
  qed
  ultimately show ?thesis by blast
qed

section \<open>Witnesses\<close>

lemma le_nat_uint256_of_nat: "n < 2 ^ 256 \<Longrightarrow> le_nat (uint256_of_nat n) = n"
  by (simp add: uint256_of_nat_def le_nat_nat_le)

lemma main_powLimit:
  "powLimit main_consensus = uint256_of_nat 0x0007ffffffffffffffffffffffffffffffffffffffffffffffffffffffffffff"
  "length (powLimit main_consensus) = 32"
  "le_nat (powLimit main_consensus) = 0x0007ffffffffffffffffffffffffffffffffffffffffffffffffffffffffffff"
  by (simp_all add: main_consensus_def uint256_of_nat_def le_nat_nat_le)

lemma main_pow_params:
  "nPowAveragingWindow main_consensus = 17" "nPowTargetSpacing main_consensus = 60"
  "nPowMaxAdjustDown main_consensus = 32" "nPowMaxAdjustUp main_consensus = 16"
  "nZawyLWMA3AveragingWindow main_consensus = 60"
  by (simp_all add: main_consensus_def)

lemma pow_params_ok_main: "pow_params_ok main_consensus"
  unfolding pow_params_ok_def AveragingWindowTimespan_def MinActualTimespan_def MaxActualTimespan_def lwma_divisor_def
    main_pow_params Let_def
  using main_upgrades_ok(1) main_powLimit(2) by (simp add: cdiv_def)

theorem next_work_bounded_witness:
  "\<exists>n x. (GetNextWorkRequired sample_index (Some 2) None main_consensus :: (unit, u32) exec) = Inr n \<and> compact_of x n \<and>
    x \<le> 0x0007ffffffffffffffffffffffffffffffffffffffffffffffffffffffffffff"
  using next_work_bounded [OF sample_index_ok(1) pow_params_ok_main, of "Some 2" None, where 'e = unit]
    sample_index_entries(3) unfolding main_powLimit(3) by simp



lemma sample_target:
  assumes "SetCompact 0x1d00ffff = (t, neg, ovf)"
  shows "au_val t = 0xffff * 256 ^ 26" "\<not> neg" "\<not> ovf"
proof -
  have u: "unat (0x1d00ffff :: u32) mod 2 ^ 23 = 0xffff" "unat (0x1d00ffff :: u32) div 2 ^ 24 = 29"
    "unat (0x1d00ffff :: u32) div 2 ^ 23 = 58" by simp_all
  show "au_val t = 0xffff * 256 ^ 26" "\<not> neg" "\<not> ovf"
    using SetCompact_val(2-4) [OF assms] unfolding u by (simp_all add: compact_value_def)
qed


theorem proof_of_work_exact_witness:
  "CheckProofOfWork (uint256_of_nat 12345) 0x1d00ffff main_consensus \<and>
   (\<exists>w. (GetBlockProof 0x1d00ffff :: (unit, arith_uint256) exec) = Inr w \<and> au_val w = 2 ^ 256 div (0xffff * 256 ^ 26 + 1))"
proof -
  obtain t neg ovf where s: "SetCompact 0x1d00ffff = (t, neg, ovf)" by (metis surj_pair)
  have h: "length (uint256_of_nat 12345) = 32" "le_nat (uint256_of_nat 12345) = 12345"
    using le_nat_uint256_of_nat [of 12345] by (simp_all add: uint256_of_nat_def)
  have l: "le_nat (powLimit main_consensus) < 2 ^ 256 - 1" unfolding main_powLimit(3) by simp
  show ?thesis
    using proof_of_work_exact [OF h(1) main_powLimit(2) l s, where 'e = unit] sample_target [OF s]
    unfolding h(2) main_powLimit(3) by auto
qed

end
