(* ===== verification/Tree_Facts.thy ===== *)
theory Tree_Facts
  imports Block_Tree Pow_Facts
begin

text \<open>
  The invariant of the tree of headers: the index is well formed, the map and the entries agree on the
  hashes, the accumulated work of an entry is that of its parent plus its own, and the best header has
  the most work. Accepting a header keeps the invariant, never fails an assertion, and adds an entry
  that gives back the header.
\<close>

section \<open>Work\<close>

lemma compact_target_less:
  assumes "SetCompact n = (t, neg, False)"
  shows "au_val t < 2 ^ 256 - 1"
proof -
  define m s where "m = unat n mod 2 ^ 23" and "s = unat n div 2 ^ 24"
  have v: "au_val t = compact_value m s mod 2 ^ 256" "compact_value m s < 2 ^ 256"
    using SetCompact_val(2,3) [OF assms] by (simp_all add: m_def s_def)
  show ?thesis
  proof (cases "s \<le> 3")
    case True
    have "compact_value m s \<le> m" using True by (simp add: compact_value_def)
    moreover have "m < 2 ^ 23" by (simp add: m_def)
    ultimately have "compact_value m s < 2 ^ 23" by (rule le_less_trans)
    then show ?thesis using v(1) by simp
  next
    case False
    then obtain j where "s - 3 = Suc j" by (cases "s - 3") auto
    then have "even (compact_value m s)" using False by (simp add: compact_value_def)
    then have "compact_value m s \<noteq> 2 ^ 256 - 1" by auto
    then have "compact_value m s < 2 ^ 256 - 1" using v(2) by linarith
    then show ?thesis using v by simp
  qed
qed

definition block_work :: "u32 \<Rightarrow> nat" where
  "block_work nBits =
     (let (t, neg, ovf) = SetCompact nBits in if neg \<or> ovf \<or> au_val t = 0 then 0 else 2 ^ 256 div (au_val t + 1))"

lemma GetBlockProof_total:
  "\<exists>w. (GetBlockProof nBits :: ('e, arith_uint256) exec) = Inr w \<and> au_wf w \<and> au_val w = block_work nBits"
proof -
  obtain t neg ovf where s: "SetCompact nBits = (t, neg, ovf)" "au_wf t" by (rule SetCompact_cases)
  show ?thesis
  proof (cases "neg \<or> ovf \<or> au_val t = 0")
    case True
    then show ?thesis using s by (auto simp: GetBlockProof_def block_work_def au_EqualTo_0 au_of_u64_val)
  next
    case False
    then have "SetCompact nBits = (t, False, False)" "0 < au_val t" using s by auto
    with GetBlockProof_work [OF this compact_target_less, where 'e = 'e] False s show ?thesis by (auto simp: block_work_def)
  qed
qed

section \<open>The invariant\<close>

definition parent_work :: "index_store \<Rightarrow> CBlockIndex \<Rightarrow> nat" where
  "parent_work st b = (case Option.bind (pprev b) st of None \<Rightarrow> 0 | Some q \<Rightarrow> au_val (nChainWork q))"

definition entry_ok :: "BlockTree \<Rightarrow> addr \<Rightarrow> CBlockIndex \<Rightarrow> bool" where
  "entry_ok bt a b \<longleftrightarrow>
     (\<exists>h. phashBlock b = Some h \<and> mapBlockIndex bt h = Some a) \<and> au_wf (nChainWork b) \<and>
     au_val (nChainWork b) = (parent_work (bt_store bt) b + block_work (bi_nBits b)) mod 2 ^ 256"

definition best_ok :: "BlockTree \<Rightarrow> bool" where
  "best_ok bt \<longleftrightarrow>
     (\<forall>a b. bt_store bt a = Some b \<longrightarrow>
       (\<exists>h c. pindexBestHeader bt = Some h \<and> bt_store bt h = Some c \<and> au_val (nChainWork b) \<le> au_val (nChainWork c)))"

definition tree_ok :: "BlockTree \<Rightarrow> bool" where
  "tree_ok bt \<longleftrightarrow>
     index_ok (bt_store bt) \<and> (\<forall>a \<ge> bt_fresh bt. bt_store bt a = None) \<and>
     (\<forall>h a. mapBlockIndex bt h = Some a \<longrightarrow> (\<exists>b. bt_store bt a = Some b \<and> phashBlock b = Some h)) \<and>
     (\<forall>a b. bt_store bt a = Some b \<longrightarrow> entry_ok bt a b) \<and> best_ok bt \<and>
     (pindexBestHeader bt = None \<or> Option.bind (pindexBestHeader bt) (bt_store bt) \<noteq> None)"

lemma tree_okD:
  assumes "tree_ok bt"
  shows "index_ok (bt_store bt)" "bt_store bt (bt_fresh bt) = None"
    "mapBlockIndex bt h = Some a \<Longrightarrow> \<exists>b. bt_store bt a = Some b \<and> phashBlock b = Some h"
    "bt_store bt a = Some b \<Longrightarrow> entry_ok bt a b" "best_ok bt"
    "pindexBestHeader bt = Some a \<Longrightarrow> bt_store bt a \<noteq> None"
  using assms unfolding tree_ok_def by auto

definition tree_empty :: BlockTree where
  "tree_empty = \<lparr>bt_store = Map.empty, bt_fresh = 0, mapBlockIndex = Map.empty, chainActive = [],
     pindexBestHeader = None, setDirtyBlockIndex = {}\<rparr>"

lemma tree_ok_empty: "tree_ok tree_empty"
  by (simp add: tree_ok_def tree_empty_def index_ok_def best_ok_def)

section \<open>Adding a header\<close>

text \<open>The entry that a header gets: linked to its parent, at the next height.\<close>

definition link_ok :: "index_store \<Rightarrow> CBlockIndex \<Rightarrow> bool" where
  "link_ok st b \<longleftrightarrow>
     (case pprev b of
        None \<Rightarrow> bi_nHeight b = 0 \<and> pskip b = None
      | Some p \<Rightarrow> \<exists>q. st p = Some q \<and> bi_nHeight b = bi_nHeight q + 1 \<and>
          (\<forall>s. pskip b = Some s \<longrightarrow> ancestor st p (nat (bi_nHeight q - GetSkipHeight (bi_nHeight b))) = Some s))"

lemma link_ok_extend: "index_ok st \<Longrightarrow> st a = None \<Longrightarrow> link_ok st b \<Longrightarrow> index_ok (st(a \<mapsto> b))"
  unfolding link_ok_def by (rule index_ok_extend)

lemma link_parent_result:
  assumes ok: "index_ok st" and a: "st a = None" and b: "pprev b = None" "pskip b = None" "bi_nHeight b = 0"
    and p: "case miPrev of None \<Rightarrow> True | Some p \<Rightarrow> st p \<noteq> None"
  shows "\<exists>s h. (link_parent st a miPrev b :: ('e, CBlockIndex) exec) = Inr (b\<lparr>pprev := miPrev, pskip := s, bi_nHeight := h\<rparr>) \<and>
    link_ok st (b\<lparr>pprev := miPrev, pskip := s, bi_nHeight := h\<rparr>)"
proof (cases miPrev)
  case None
  have "b\<lparr>pprev := None, pskip := None, bi_nHeight := 0\<rparr> = b" using b by simp
  moreover have "link_ok st b" using b by (simp add: link_ok_def)
  ultimately show ?thesis using None by (intro exI [of _ None] exI [of _ 0]) (simp add: link_parent_def)
next
  case (Some q)
  then obtain c where c: "st q = Some c" using p by auto
  have qa: "q \<noteq> a" using c a by auto
  define b1 where "b1 = b\<lparr>pprev := Some q, bi_nHeight := bi_nHeight c + 1\<rparr>"
  define k where "k = GetSkipHeight (bi_nHeight b1)"
  have h: "0 \<le> bi_nHeight c" using index_okD(1) [OF ok c] .
  then have k: "0 \<le> k" "k \<le> bi_nHeight c" using GetSkipHeight_bounds [of "bi_nHeight b1"] by (simp_all add: k_def b1_def)
  define s where "s = ancestor st q (nat (bi_nHeight c - k))"
  have ok1: "index_ok (st(a \<mapsto> b1))"
    by (rule index_ok_extend [OF ok a]) (use c b in \<open>simp add: b1_def\<close>)
  have c1: "(st(a \<mapsto> b1)) q = Some c" using qa c by simp
  have "(GetAncestor (st(a \<mapsto> b1)) q k :: ('e, addr option) exec) = Inr s"
    using GetAncestor_eq [of "st(a \<mapsto> b1)" q c k, where 'e = 'e, OF ok1 c1] k ancestor_fresh [OF ok a c] by (simp add: s_def)
  then have "(link_parent st a miPrev b :: ('e, CBlockIndex) exec) = Inr (b1\<lparr>pskip := s\<rparr>)"
    using Some c qa by (simp add: link_parent_def deref_def Let_def b1_def [symmetric] BuildSkip_def k_def [symmetric])
      (simp add: b1_def BuildSkip_def k_def)
  moreover have "link_ok st (b1\<lparr>pskip := s\<rparr>)" using c by (simp add: b1_def s_def k_def link_ok_def)
  moreover have "b1\<lparr>pskip := s\<rparr> = b\<lparr>pprev := miPrev, pskip := s, bi_nHeight := bi_nHeight c + 1\<rparr>"
    using Some by (simp add: b1_def)
  ultimately show ?thesis by (auto simp del: CBlockIndex.update_convs)
qed

lemma chain_work_result:
  assumes "case pprev b of None \<Rightarrow> True | Some p \<Rightarrow> \<exists>q. st p = Some q \<and> au_wf (nChainWork q)"
  shows "\<exists>w. (chain_work st b :: ('e, arith_uint256) exec) = Inr w \<and> au_wf w \<and>
    au_val w = (parent_work st b + block_work (bi_nBits b)) mod 2 ^ 256"
proof -
  obtain w where w: "(GetBlockProof (bi_nBits b) :: ('e, arith_uint256) exec) = Inr w" "au_wf w" "au_val w = block_work (bi_nBits b)"
    using GetBlockProof_total [of "bi_nBits b", where 'e = 'e] by blast
  define v where "v = (case Option.bind (pprev b) st of None \<Rightarrow> au_of_int 0 | Some q \<Rightarrow> nChainWork q)"
  have z: "au_wf (au_of_int 0)" by simp
  have v: "au_wf v" "au_val v = parent_work st b"
    using assms z au_of_int_val [of 0] by (auto simp: v_def parent_work_def split: option.splits)
  have "(chain_work st b :: ('e, arith_uint256) exec) = Inr (au_add v w)"
    using assms w(1) by (auto simp: chain_work_def v_def deref_def split: option.splits)
  then show ?thesis using au_add_val [OF v(1) w(2)] v(2) w(3) by simp
qed

lemma RaiseValidity_tree:
  "\<exists>s f. (RaiseValidity b BLOCK_VALID_TREE :: ('e, CBlockIndex \<times> bool) exec) = Inr (b\<lparr>nStatus := s\<rparr>, f)"
proof -
  have m: "BLOCK_VALID_TREE AND NOT BLOCK_VALID_MASK = 0" by code_simp
  consider "nStatus b AND BLOCK_FAILED_MASK \<noteq> 0 \<or> \<not> nStatus b AND BLOCK_VALID_MASK < BLOCK_VALID_TREE"
    | "nStatus b AND BLOCK_FAILED_MASK = 0" "nStatus b AND BLOCK_VALID_MASK < BLOCK_VALID_TREE" by blast
  then show ?thesis
  proof cases
    case 1
    then show ?thesis using m by (intro exI [of _ "nStatus b"] exI [of _ False]) (simp add: RaiseValidity_def exec_assert_def)
  next
    case 2
    then show ?thesis using m by (simp add: RaiseValidity_def exec_assert_def) blast
  qed
qed

definition tree_insert :: "BlockTree \<Rightarrow> bytes \<Rightarrow> CBlockIndex \<Rightarrow> bool \<Rightarrow> BlockTree" where
  "tree_insert bt hash b better =
     bt\<lparr>bt_store := (bt_store bt)(bt_fresh bt \<mapsto> b), bt_fresh := bt_fresh bt + 1,
        mapBlockIndex := (mapBlockIndex bt)(hash \<mapsto> bt_fresh bt),
        pindexBestHeader := (if better then Some (bt_fresh bt) else pindexBestHeader bt),
        setDirtyBlockIndex := insert (bt_fresh bt) (setDirtyBlockIndex bt)\<rparr>"

lemma tree_insert_sel [simp]:
  "bt_store (tree_insert bt hash b better) = (bt_store bt)(bt_fresh bt \<mapsto> b)"
  "mapBlockIndex (tree_insert bt hash b better) = (mapBlockIndex bt)(hash \<mapsto> bt_fresh bt)"
  "chainActive (tree_insert bt hash b better) = chainActive bt"
  by (simp_all add: tree_insert_def)

lemma parent_work_extend:
  assumes "st a = None" "case pprev c of None \<Rightarrow> True | Some p \<Rightarrow> st p \<noteq> None"
  shows "parent_work (st(a \<mapsto> b)) c = parent_work st c"
  using assms by (auto simp: parent_work_def split: option.splits)

lemma entry_ok_extend:
  assumes ok: "tree_ok bt" and h: "mapBlockIndex bt hash = None" and c: "bt_store bt a = Some c"
  shows "entry_ok (tree_insert bt hash b better) a c"
proof -
  obtain g where g: "phashBlock c = Some g" "mapBlockIndex bt g = Some a"
    using tree_okD(4) [OF ok c] by (auto simp: entry_ok_def)
  have "case pprev c of None \<Rightarrow> True | Some p \<Rightarrow> bt_store bt p \<noteq> None"
    using index_okD(3) [OF tree_okD(1) [OF ok] c] by (auto split: option.splits)
  from parent_work_extend [OF tree_okD(2) [OF ok] this, of b] show ?thesis
    using tree_okD(4) [OF ok c] g h by (auto simp: entry_ok_def tree_insert_def)
qed

lemma entry_ok_new:
  assumes ok: "tree_ok bt" and "phashBlock b = Some hash" "au_wf (nChainWork b)" "link_ok (bt_store bt) b"
    and "au_val (nChainWork b) = (parent_work (bt_store bt) b + block_work (bi_nBits b)) mod 2 ^ 256"
  shows "entry_ok (tree_insert bt hash b better) (bt_fresh bt) b"
proof -
  have "case pprev b of None \<Rightarrow> True | Some p \<Rightarrow> bt_store bt p \<noteq> None"
    using assms(4) by (auto simp: link_ok_def split: option.splits)
  from parent_work_extend [OF tree_okD(2) [OF ok] this, of b] show ?thesis
    using assms by (simp add: entry_ok_def tree_insert_def)
qed

lemma best_ok_extend:
  assumes ok: "tree_ok bt"
    and better: "better \<longleftrightarrow> (case Option.bind (pindexBestHeader bt) (bt_store bt) of None \<Rightarrow> True
                   | Some c \<Rightarrow> au_val (nChainWork c) < au_val (nChainWork b))"
  shows "best_ok (tree_insert bt hash b better)"
proof -
  let ?w = "\<lambda>c. au_val (nChainWork c)"
  have fresh: "bt_store bt (bt_fresh bt) = None" by (rule tree_okD(2) [OF ok])
  have old: "\<exists>h d. pindexBestHeader bt = Some h \<and> bt_store bt h = Some d \<and> ?w c \<le> ?w d"
    if "bt_store bt a = Some c" for a c
    using tree_okD(5) [OF ok] that unfolding best_ok_def by blast
  show ?thesis
  proof (cases "Option.bind (pindexBestHeader bt) (bt_store bt)")
    case None
    then have "pindexBestHeader bt = None" using tree_okD(6) [OF ok] by (cases "pindexBestHeader bt") auto
    then have "bt_store bt a = None" for a using old [of a] by (cases "bt_store bt a") auto
    then show ?thesis using better None by (simp add: best_ok_def tree_insert_def)
  next
    case (Some d)
    then obtain h where h: "pindexBestHeader bt = Some h" "bt_store bt h = Some d" by (auto simp: bind_eq_Some_conv)
    have "?w c \<le> ?w d" if "bt_store bt a = Some c" for a c using old [OF that] h by auto
    then have "?w c \<le> ?w d \<or> c = b" if "((bt_store bt)(bt_fresh bt \<mapsto> b)) a = Some c" for a c
      using that by (auto split: if_splits)
    moreover have "h \<noteq> bt_fresh bt" using h fresh by auto
    ultimately show ?thesis using better Some h unfolding best_ok_def tree_insert_def
      by (fastforce simp: not_less)
  qed
qed

lemma tree_ok_insert:
  assumes ok: "tree_ok bt" and h: "mapBlockIndex bt hash = None"
    and b: "phashBlock b = Some hash" "au_wf (nChainWork b)" "link_ok (bt_store bt) b"
      "au_val (nChainWork b) = (parent_work (bt_store bt) b + block_work (bi_nBits b)) mod 2 ^ 256"
    and better: "better \<longleftrightarrow> (case Option.bind (pindexBestHeader bt) (bt_store bt) of None \<Rightarrow> True
                   | Some c \<Rightarrow> au_val (nChainWork c) < au_val (nChainWork b))"
  shows "tree_ok (tree_insert bt hash b better)"
proof -
  let ?bt = "tree_insert bt hash b better"
  have fresh: "bt_store bt (bt_fresh bt) = None" by (rule tree_okD(2) [OF ok])
  have i: "index_ok (bt_store ?bt)" using link_ok_extend [OF tree_okD(1) [OF ok] fresh b(3)] by (simp add: tree_insert_def)
  have f: "\<forall>a \<ge> bt_fresh ?bt. bt_store ?bt a = None" using ok by (simp add: tree_ok_def tree_insert_def)
  have m: "\<exists>b. bt_store ?bt a = Some b \<and> phashBlock b = Some g" if "mapBlockIndex ?bt g = Some a" for g a
    using that b(1) tree_okD(3) [OF ok, of g a] fresh by (auto simp: tree_insert_def split: if_splits)
  have e: "entry_ok ?bt a c" if "bt_store ?bt a = Some c" for a c
    using that entry_ok_extend [OF ok h, of a c b better] entry_ok_new [OF ok b(1-3) b(4), of better]
    by (cases "a = bt_fresh bt") simp_all
  have "pindexBestHeader ?bt = None \<or> Option.bind (pindexBestHeader ?bt) (bt_store ?bt) \<noteq> None"
    using tree_okD(6) [OF ok] by (auto simp: tree_insert_def bind_eq_None_conv)
  then show ?thesis using i f m e best_ok_extend [OF ok better, of hash] unfolding tree_ok_def by blast
qed

text \<open>A new header gets the next address. Its entry carries the fields of the header and its parent.\<close>

definition entry_of :: "CBlockHeader \<Rightarrow> addr option \<Rightarrow> CBlockIndex \<Rightarrow> bool" where
  "entry_of block p b \<longleftrightarrow>
     bi_nVersion b = bh_nVersion block \<and> bi_hashMerkleRoot b = hashMerkleRoot block \<and>
     bi_hashFinalSaplingRoot b = hashFinalSaplingRoot block \<and> bi_nTime b = bh_nTime block \<and>
     bi_nBits b = bh_nBits block \<and> bi_nNonce b = bh_nNonce block \<and> bi_nSolution b = bh_nSolution block \<and>
     phashBlock b = Some (CBlockHeader_GetHash block) \<and> pprev b = p"

lemma link_ok_update [simp]:
  "link_ok st (b\<lparr>nChainWork := w\<rparr>) = link_ok st b" "link_ok st (b\<lparr>nStatus := v\<rparr>) = link_ok st b"
  by (simp_all add: link_ok_def split: option.splits)

lemma new_entry:
  assumes ok: "tree_ok bt"
  shows "\<exists>b. (link_parent (bt_store bt) (bt_fresh bt) (mapBlockIndex bt (hashPrevBlock block))
      ((CBlockIndex_new block)\<lparr>nSequenceId := 0, phashBlock := Some (CBlockHeader_GetHash block)\<rparr>) :: ('e, CBlockIndex) exec) = Inr b \<and>
    link_ok (bt_store bt) b \<and> entry_of block (mapBlockIndex bt (hashPrevBlock block)) b"
proof -
  let ?st = "bt_store bt" and ?a = "bt_fresh bt" and ?p = "mapBlockIndex bt (hashPrevBlock block)"
  define b0 where "b0 = (CBlockIndex_new block)\<lparr>nSequenceId := 0, phashBlock := Some (CBlockHeader_GetHash block)\<rparr>"
  have b0: "pprev b0 = None" "pskip b0 = None" "bi_nHeight b0 = 0" "entry_of block None b0"
    by (simp_all add: b0_def CBlockIndex_new_def CBlockIndex_null_def entry_of_def)
  have p: "case ?p of None \<Rightarrow> True | Some p \<Rightarrow> ?st p \<noteq> None"
    using tree_okD(3) [OF ok, of "hashPrevBlock block"] by (auto split: option.splits)
  obtain s g where "(link_parent ?st ?a ?p b0 :: ('e, CBlockIndex) exec) = Inr (b0\<lparr>pprev := ?p, pskip := s, bi_nHeight := g\<rparr>)"
    "link_ok ?st (b0\<lparr>pprev := ?p, pskip := s, bi_nHeight := g\<rparr>)"
    by (rule exE [OF link_parent_result [OF tree_okD(1,2) [OF ok] b0(1-3) p, where 'e = 'e]]) (use that in blast)
  then show ?thesis using b0(4) unfolding b0_def [symmetric] by (auto simp: entry_of_def)
qed

lemma better_header:
  assumes ok: "tree_ok bt" and b: "au_wf (nChainWork b)"
  shows "(case pindexBestHeader bt of None \<Rightarrow> Inr True
      | Some best \<Rightarrow> exec_bind (deref ((bt_store bt)(bt_fresh bt \<mapsto> b)) (Some best)) (\<lambda>h.
          Inr (au_CompareTo (nChainWork h) (nChainWork b) < 0))) =
    (Inr (case Option.bind (pindexBestHeader bt) (bt_store bt) of None \<Rightarrow> True
      | Some c \<Rightarrow> au_val (nChainWork c) < au_val (nChainWork b)) :: ('e, bool) exec)"
  using tree_okD(2,6) [OF ok] tree_okD(4) [OF ok] b
  by (auto simp: deref_def entry_ok_def au_CompareTo_val sgn_if split: option.splits)

lemma AddToBlockIndex_new:
  assumes ok: "tree_ok bt" and new: "mapBlockIndex bt (CBlockHeader_GetHash block) = None"
    and prev: "hashPrevBlock block \<noteq> CBlockHeader_GetHash block"
  shows "\<exists>b better. (AddToBlockIndex bt block :: ('e, BlockTree \<times> addr) exec) =
      Inr (tree_insert bt (CBlockHeader_GetHash block) b better, bt_fresh bt) \<and>
    tree_ok (tree_insert bt (CBlockHeader_GetHash block) b better) \<and>
    entry_of block (mapBlockIndex bt (hashPrevBlock block)) b"
proof -
  let ?st = "bt_store bt" and ?a = "bt_fresh bt" and ?h = "CBlockHeader_GetHash block"
  let ?p = "mapBlockIndex bt (hashPrevBlock block)"
  have fresh: "?st ?a = None" by (rule tree_okD(2) [OF ok])
  obtain b1 where b1: "(link_parent ?st ?a ?p ((CBlockIndex_new block)\<lparr>nSequenceId := 0, phashBlock := Some ?h\<rparr>) ::
      ('e, CBlockIndex) exec) = Inr b1" "link_ok ?st b1" "entry_of block ?p b1"
    using new_entry [OF ok, of block, where 'e = 'e] by blast
  have q: "case pprev b1 of None \<Rightarrow> True | Some p \<Rightarrow> \<exists>q. (?st(?a \<mapsto> b1)) p = Some q \<and> au_wf (nChainWork q)"
    using b1(2) fresh tree_okD(4) [OF ok] by (auto simp: link_ok_def entry_ok_def split: option.splits)
  obtain w where w: "(chain_work (?st(?a \<mapsto> b1)) b1 :: ('e, arith_uint256) exec) = Inr w" "au_wf w"
    "au_val w = (parent_work (?st(?a \<mapsto> b1)) b1 + block_work (bi_nBits b1)) mod 2 ^ 256"
    using chain_work_result [OF q, where 'e = 'e] by blast
  obtain v f where v: "(RaiseValidity (b1\<lparr>nChainWork := w\<rparr>) BLOCK_VALID_TREE :: ('e, CBlockIndex \<times> bool) exec) =
      Inr (b1\<lparr>nChainWork := w, nStatus := v\<rparr>, f)"
    using RaiseValidity_tree [of "b1\<lparr>nChainWork := w\<rparr>", where 'e = 'e] by auto
  define b2 where "b2 = b1\<lparr>nChainWork := w, nStatus := v\<rparr>"
  have b2: "phashBlock b2 = Some ?h" "au_wf (nChainWork b2)" "link_ok ?st b2" "entry_of block ?p b2"
    using b1 w(2) by (simp_all add: b2_def entry_of_def)
  have "case pprev b1 of None \<Rightarrow> True | Some p \<Rightarrow> ?st p \<noteq> None"
    using b1(2) by (auto simp: link_ok_def split: option.splits)
  from parent_work_extend [OF fresh this, of b1]
  have w2: "au_val (nChainWork b2) = (parent_work ?st b2 + block_work (bi_nBits b2)) mod 2 ^ 256"
    using w(3) by (simp add: b2_def parent_work_def)
  define better where "better = (case Option.bind (pindexBestHeader bt) ?st of None \<Rightarrow> True
    | Some c \<Rightarrow> au_val (nChainWork c) < au_val (nChainWork b2))"
  have "(AddToBlockIndex bt block :: ('e, BlockTree \<times> addr) exec) = Inr (tree_insert bt ?h b2 better, ?a)"
    using new prev b1(1) w(1) v better_header [OF ok b2(2), where 'e = 'e]
    by (simp add: AddToBlockIndex_def Let_def b2_def [symmetric] better_def [symmetric] tree_insert_def)
  then show ?thesis using tree_ok_insert [OF ok new b2(1-3) w2 better_def] b2(4) by blast
qed

section \<open>Accepting a header\<close>

lemma exec_all_reject [wp_simps]: "exec_all P (reject_if b r) \<longleftrightarrow> b \<or> P ()"
  by (simp add: reject_if_def exec_all_def)

lemma first_known_in: "first_known index cs = Some a \<Longrightarrow> \<exists>hash. index hash = Some a"
  by (induction index cs rule: first_known.induct) (auto split: option.splits)

lemma GetLastCheckpoint_in:
  assumes "tree_ok bt" "GetLastCheckpoint (mapBlockIndex bt) cs = Some a"
  shows "\<exists>b. bt_store bt a = Some b"
  using first_known_in tree_okD(3) [OF assms(1)] assms(2) unfolding GetLastCheckpoint_def by blast

text \<open>What a header that passes the contextual check has: the required target, and a time after the median.\<close>

definition follows :: "index_store \<Rightarrow> ConsensusParams \<Rightarrow> addr \<Rightarrow> CBlockHeader \<Rightarrow> bool" where
  "follows st params p block \<longleftrightarrow>
     (GetNextWorkRequired st (Some p) (Some block) params :: (reject, u32) exec) = Inr (bh_nBits block) \<and>
     (\<exists>m. (GetMedianTimePast st p :: (reject, int) exec) = Inr m \<and> m < CBlockHeader_GetBlockTime block)"

lemma ContextualCheckBlockHeader_all:
  assumes tree: "tree_ok bt" and params: "pow_params_ok params" and p: "bt_store bt p = Some prev"
    and g: "CBlockHeader_GetHash block \<noteq> hashGenesisBlock params"
  shows "exec_all (\<lambda>_. follows (bt_store bt) params p block) (ContextualCheckBlockHeader env params bt block (Some p))"
proof -
  let ?st = "bt_store bt"
  note ok = tree_okD(1) [OF tree]
  obtain bits where bits: "(GetNextWorkRequired ?st (Some p) (Some block) params :: (reject, u32) exec) = Inr bits"
    using GetNextWorkRequired_result [OF ok params, of "Some p" "Some block", where 'e = reject] p by auto
  obtain m where m: "(GetMedianTimePast ?st p :: (reject, int) exec) = Inr m"
    using GetMedianTimePast_some [OF ok p, where 'e = reject] by blast
  have h: "0 \<le> bi_nHeight prev + 1" using index_okD(1) [OF ok p] by simp
  show ?thesis
    using g p h bits m GetLastCheckpoint_in [OF tree, of "mapCheckpoints env"]
    by (auto simp: ContextualCheckBlockHeader_def deref_def Let_def wp_simps follows_def split: option.splits)
qed

lemma bi_GetBlockHeader_entry:
  assumes "entry_of block (Some p) b" "st p = Some q" "phashBlock q = Some (hashPrevBlock block)"
  shows "(bi_GetBlockHeader st b :: ('e, CBlockHeader) exec) = Inr block"
  using assms by (simp add: bi_GetBlockHeader_def entry_of_def deref_def bi_GetBlockHash_def)

definition accepted :: "ConsensusParams \<Rightarrow> BlockTree \<Rightarrow> CBlockHeader \<Rightarrow> BlockTree \<times> addr \<Rightarrow> bool" where
  "accepted params bt block r \<longleftrightarrow>
     (let hash = CBlockHeader_GetHash block; prev = mapBlockIndex bt (hashPrevBlock block) in
      if mapBlockIndex bt hash \<noteq> None then r = (bt, the (mapBlockIndex bt hash))
      else \<exists>b better. r = (tree_insert bt hash b better, bt_fresh bt) \<and> tree_ok (fst r) \<and> entry_of block prev b \<and>
             CheckProofOfWork hash (bh_nBits block) params \<and>
             (hash \<noteq> hashGenesisBlock params \<longrightarrow> (\<exists>p. prev = Some p \<and> follows (bt_store bt) params p block)))"

lemma AcceptBlockHeader_all:
  assumes ok: "tree_ok bt" and params: "pow_params_ok params"
    and g: "CBlockHeader_GetHash block = hashGenesisBlock params \<Longrightarrow> hashPrevBlock block \<noteq> hashGenesisBlock params"
  shows "exec_all (accepted params bt block) (AcceptBlockHeader env params bt block)"
proof (cases "mapBlockIndex bt (CBlockHeader_GetHash block)")
  case (Some a)
  then obtain b where "bt_store bt a = Some b" using tree_okD(3) [OF ok] by blast
  then show ?thesis using Some by (simp add: AcceptBlockHeader_def deref_def wp_simps accepted_def)
next
  case new: None
  let ?h = "CBlockHeader_GetHash block" and ?prev = "mapBlockIndex bt (hashPrevBlock block)"
  let ?Q = "?h \<noteq> hashGenesisBlock params \<longrightarrow> (\<exists>p. ?prev = Some p \<and> follows (bt_store bt) params p block)"
  have pow: "exec_all (\<lambda>_. CheckProofOfWork ?h (bh_nBits block) params) (CheckBlockHeader env params (chainActive bt) block True)"
    by (simp add: CheckBlockHeader_def Let_def wp_simps)
  have add: "exec_all (accepted params bt block) (AddToBlockIndex bt block :: (reject, BlockTree \<times> addr) exec)"
    if "CheckProofOfWork ?h (bh_nBits block) params" "?Q"
  proof -
    have "hashPrevBlock block \<noteq> ?h" using g that(2) new by (cases "?h = hashGenesisBlock params") auto
    then obtain b better where "(AddToBlockIndex bt block :: (reject, BlockTree \<times> addr) exec) =
        Inr (tree_insert bt ?h b better, bt_fresh bt)"
      "tree_ok (tree_insert bt ?h b better)" "entry_of block ?prev b"
      using AddToBlockIndex_new [OF ok new, where 'e = reject] by blast
    then show ?thesis
      using that new unfolding accepted_def Let_def by (simp add: exec_all_simps) blast
  qed
  have prev: "exec_all (\<lambda>p. exec_all (\<lambda>_. ?Q) (ContextualCheckBlockHeader env params bt block p))
    (if ?h \<noteq> hashGenesisBlock params
     then case ?prev of None \<Rightarrow> Inl (Fail (DoS 10 0 ''bad-prevblk'' False))
          | Some p \<Rightarrow> exec_bind (deref (bt_store bt) (Some p)) (\<lambda>prev.
              exec_bind (reject_if (nStatus prev AND BLOCK_FAILED_MASK \<noteq> 0)
                           (DoS 100 REJECT_INVALID ''bad-prevblk'' False)) (\<lambda>_. Inr (Some p)))
     else Inr None)"
  proof (cases "?h = hashGenesisBlock params")
    case True
    then show ?thesis by (simp add: wp_simps ContextualCheckBlockHeader_def)
  next
    case False
    show ?thesis
    proof (cases ?prev)
      case None
      then show ?thesis using False by (simp add: wp_simps)
    next
      case (Some p)
      then obtain q where q: "bt_store bt p = Some q" using tree_okD(3) [OF ok] by blast
      show ?thesis using Some False q ContextualCheckBlockHeader_all [OF ok params q False]
        by (simp add: deref_def wp_simps)
    qed
  qed
  show ?thesis
    unfolding AcceptBlockHeader_def Let_def new option.case exec_all_simps(5)
    by (rule exec_all_mono [OF pow], rule exec_all_mono [OF prev], erule exec_all_mono, rule add)
qed

lemma block_times_extend:
  assumes ok: "index_ok st" and a: "st a = None" and p: "case p of None \<Rightarrow> True | Some q \<Rightarrow> st q \<noteq> None"
  shows "(block_times n (st(a \<mapsto> b)) p :: ('e, int list) exec) = block_times n st p"
  using p
proof (induction n arbitrary: p)
  case (Suc n)
  show ?case
  proof (cases p)
    case (Some q)
    then obtain c where c: "st q = Some c" using Suc.prems by auto
    then have "q \<noteq> a" using a by auto
    moreover have "case pprev c of None \<Rightarrow> True | Some q \<Rightarrow> st q \<noteq> None"
      using index_okD(3) [OF ok c] by (auto split: option.splits)
    ultimately show ?thesis using Suc.IH [of "pprev c"] Some c by (simp add: deref_def)
  qed simp
qed simp

lemma GetMedianTimePast_extend:
  assumes "index_ok st" "st a = None" "st q \<noteq> None"
  shows "(GetMedianTimePast (st(a \<mapsto> b)) q :: ('e, int) exec) = GetMedianTimePast st q"
  using block_times_extend [OF assms(1,2), of "Some q", where 'e = 'e] assms(3) by (simp add: GetMedianTimePast_def)

section \<open>Median times\<close>

definition times_ok :: "index_store \<Rightarrow> bool" where
  "times_ok st \<longleftrightarrow>
     (\<forall>a b p. st a = Some b \<longrightarrow> pprev b = Some p \<longrightarrow>
       (\<exists>m m'. (GetMedianTimePast st p :: (reject, int) exec) = Inr m \<and> m < bi_GetBlockTime b \<and>
               (GetMedianTimePast st a :: (reject, int) exec) = Inr m' \<and> m \<le> m'))"

lemma times_ok_extend:
  assumes ok: "index_ok st" "st a = None" and ok': "index_ok (st(a \<mapsto> b))" and t: "times_ok st"
    and b: "\<And>p. pprev b = Some p \<Longrightarrow> \<exists>m. (GetMedianTimePast st p :: (reject, int) exec) = Inr m \<and> m < bi_GetBlockTime b"
  shows "times_ok (st(a \<mapsto> b))"
  unfolding times_ok_def
proof (intro allI impI)
  fix c d p
  assume c: "(st(a \<mapsto> b)) c = Some d" and p: "pprev d = Some p"
  let ?st = "st(a \<mapsto> b)"
  let ?m = "\<lambda>st a. GetMedianTimePast st a :: (reject, int) exec"
  have old: "?m ?st q = ?m st q" if "st q \<noteq> None" for q by (rule GetMedianTimePast_extend [OF ok that])
  show "\<exists>m m'. ?m ?st p = Inr m \<and> m < bi_GetBlockTime d \<and> ?m ?st c = Inr m' \<and> m \<le> m'"
  proof (cases "c = a")
    case True
    then have d: "d = b" using c by simp
    obtain q where q: "?st p = Some q" "bi_nHeight b = bi_nHeight q + 1" using index_okD(3) [OF ok' c p] d by auto
    have "p \<noteq> a" using q by auto
    then have "st p \<noteq> None" using q by simp
    moreover obtain m where m: "?m st p = Inr m" "m < bi_GetBlockTime b" using b p d by blast
    ultimately have "?m ?st p = Inr m" using old by simp
    with GetMedianTimePast_mono [of ?st c d p m, where 'e = reject, OF ok' c p] m(2) d show ?thesis by auto
  next
    case False
    then have d: "st c = Some d" using c by simp
    then have "st p \<noteq> None" using index_okD(3) [OF ok(1) d p] by auto
    then show ?thesis using old [of p] old [of c] t d p unfolding times_ok_def by auto
  qed
qed

section \<open>Reachable trees\<close>

text \<open>What a node does with the headers it is given, each under the environment of its time: a header that
  is refused leaves the tree alone.\<close>

inductive header_reach :: "ConsensusParams \<Rightarrow> BlockTree \<Rightarrow> BlockTree \<Rightarrow> bool" for params bt where
  start: "header_reach params bt bt"
| accept: "header_reach params bt bt1 \<Longrightarrow>
    AcceptBlockHeader env params bt1 block = Inr (bt2, a) \<Longrightarrow> header_reach params bt bt2"

lemma accepted_step:
  assumes "tree_ok bt" "pow_params_ok params"
    and "mapBlockIndex bt (hashGenesisBlock params) \<noteq> None"
    and acc: "AcceptBlockHeader env params bt block = Inr (bt', a)" and "bt' \<noteq> bt"
  shows "\<exists>b better p. bt' = tree_insert bt (CBlockHeader_GetHash block) b better \<and> tree_ok bt' \<and>
    entry_of block (Some p) b \<and> follows (bt_store bt) params p block \<and>
    mapBlockIndex bt (CBlockHeader_GetHash block) = None"
proof (cases "CBlockHeader_GetHash block = hashGenesisBlock params")
  case True
  then show ?thesis using assms
    by (auto simp: AcceptBlockHeader_def elim!: exec_bind_InrE)
next
  case False
  then have "accepted params bt block (bt', a)"
    using AcceptBlockHeader_all [OF assms(1,2)] acc by (auto simp: exec_all_iff)
  then show ?thesis using False assms(5) by (fastforce simp: accepted_def Let_def split: if_splits)
qed

lemma header_reach_inv:
  assumes "header_reach params bt bt'" and params: "pow_params_ok params" and ok: "tree_ok bt" "times_ok (bt_store bt)"
    and g: "mapBlockIndex bt (hashGenesisBlock params) \<noteq> None"
  shows "tree_ok bt' \<and> times_ok (bt_store bt') \<and> bt_store bt \<subseteq>\<^sub>m bt_store bt' \<and> mapBlockIndex bt \<subseteq>\<^sub>m mapBlockIndex bt'"
  using assms(1)
proof induction
  case (accept bt1 env block bt2 a)
  let ?st = "bt_store bt1"
  note IH = accept.IH
  have g1: "mapBlockIndex bt1 (hashGenesisBlock params) \<noteq> None" using g IH by (force simp: map_le_def dom_def)
  show ?case
  proof (cases "bt2 = bt1")
    case False
    obtain b better p where b: "bt2 = tree_insert bt1 (CBlockHeader_GetHash block) b better" "tree_ok bt2"
      "entry_of block (Some p) b" "follows ?st params p block" "mapBlockIndex bt1 (CBlockHeader_GetHash block) = None"
      using accepted_step [OF conjunct1 [OF IH] params g1 accept.hyps(2) False] by blast
    have fresh: "?st (bt_fresh bt1) = None" using tree_okD(2) IH by blast
    have st: "bt_store bt2 = ?st(bt_fresh bt1 \<mapsto> b)" "mapBlockIndex bt2 = (mapBlockIndex bt1)(CBlockHeader_GetHash block \<mapsto> bt_fresh bt1)"
      using b(1) by simp_all
    have "times_ok (bt_store bt2)"
      unfolding st(1)
    proof (rule times_ok_extend)
      show "index_ok (?st(bt_fresh bt1 \<mapsto> b))" using tree_okD(1) [OF b(2)] st by simp
      show "\<exists>m. (GetMedianTimePast ?st q :: (reject, int) exec) = Inr m \<and> m < bi_GetBlockTime b" if "pprev b = Some q" for q
        using b(3,4) that by (auto simp: entry_of_def follows_def bi_GetBlockTime_def CBlockHeader_GetBlockTime_def)
    qed (use IH fresh in \<open>auto dest: tree_okD(1)\<close>)
    moreover have "bt_store bt \<subseteq>\<^sub>m bt_store bt2" "mapBlockIndex bt \<subseteq>\<^sub>m mapBlockIndex bt2"
      unfolding st using IH fresh b(5) by (metis map_le_trans map_le_imp_upd_le upd_None_map_le fun_upd_triv)+
    ultimately show ?thesis using b(2) by blast
  qed (use IH in simp)
qed (use ok in simp)

section \<open>Properties\<close>

text \<open>C15: Accepting a header over a well-formed tree never dereferences a null pointer or fails an assertion.
  If it succeeds the tree is well formed again: heights, skip pointers, hashes and accumulated work are right
  and the best header has the most work. No entry is lost, and the entry of a new header has a parent, is one
  higher than it, and gives back the header that was accepted, which has the required proof of work.\<close>

theorem accept_header_well_formed:
  assumes "tree_ok bt" "pow_params_ok params"
    and "CBlockHeader_GetHash block \<noteq> hashGenesisBlock params"
  shows "exec_all (\<lambda>(bt', a).
    tree_ok bt' \<and> bt_store bt \<subseteq>\<^sub>m bt_store bt' \<and> mapBlockIndex bt' (CBlockHeader_GetHash block) = Some a \<and>
    (mapBlockIndex bt (CBlockHeader_GetHash block) = None \<longrightarrow>
      (\<exists>b p q. bt_store bt' a = Some b \<and> pprev b = Some p \<and> bt_store bt' p = Some q \<and> bi_nHeight b = bi_nHeight q + 1 \<and>
        bi_GetBlockHeader (bt_store bt') b = (Inr block :: (reject, CBlockHeader) exec) \<and>
        CheckProofOfWork (CBlockHeader_GetHash block) (bh_nBits block) params)))
    (AcceptBlockHeader env params bt block)"
proof (rule exec_all_mono [OF AcceptBlockHeader_all [OF assms(1,2)]])
  let ?h = "CBlockHeader_GetHash block"
  fix r
  assume acc: "accepted params bt block r"
  show "case r of (bt', a) \<Rightarrow> tree_ok bt' \<and> bt_store bt \<subseteq>\<^sub>m bt_store bt' \<and> mapBlockIndex bt' ?h = Some a \<and>
    (mapBlockIndex bt ?h = None \<longrightarrow>
      (\<exists>b p q. bt_store bt' a = Some b \<and> pprev b = Some p \<and> bt_store bt' p = Some q \<and> bi_nHeight b = bi_nHeight q + 1 \<and>
        bi_GetBlockHeader (bt_store bt') b = (Inr block :: (reject, CBlockHeader) exec) \<and> CheckProofOfWork ?h (bh_nBits block) params))"
  proof (cases "mapBlockIndex bt ?h")
    case (Some a)
    then show ?thesis using acc assms(1) by (simp add: accepted_def)
  next
    case new: None
    obtain b better p where r: "r = (tree_insert bt ?h b better, bt_fresh bt)" "tree_ok (fst r)" "entry_of block (Some p) b"
      "CheckProofOfWork ?h (bh_nBits block) params" "mapBlockIndex bt (hashPrevBlock block) = Some p"
      using acc new assms(3) by (auto simp: accepted_def Let_def)
    obtain q where q: "bt_store bt p = Some q" "phashBlock q = Some (hashPrevBlock block)"
      using tree_okD(3) [OF assms(1) r(5)] by blast
    have fresh: "bt_store bt (bt_fresh bt) = None" by (rule tree_okD(2) [OF assms(1)])
    have a: "bt_store (fst r) (bt_fresh bt) = Some b" "bt_store (fst r) p = Some q" "pprev b = Some p"
      using r(1,3) q fresh by (auto simp: entry_of_def)
    have "bi_nHeight b = bi_nHeight q + 1" using index_okD(3) [OF tree_okD(1) [OF r(2)] a(1,3)] a(2) by auto
    moreover have "bi_GetBlockHeader (bt_store (fst r)) b = (Inr block :: (reject, CBlockHeader) exec)"
      using bi_GetBlockHeader_entry [of block p b "bt_store (fst r)" q] r(3) a(2) q(2) by blast
    ultimately show ?thesis using r(1,2,4) a fresh by (auto simp: map_le_def dom_def)
  qed
qed (use assms(3) in simp)

text \<open>C16: Whatever headers a node accepts after its genesis block, in any order and on any branch, the tree
  stays well formed, keeps every entry it had, and every entry is later than the median time past of its parent,
  so that the median time past never decreases along a branch.\<close>

theorem reachable_headers:
  assumes "header_reach params bt bt'" "pow_params_ok params" "tree_ok bt" "times_ok (bt_store bt)"
    and "mapBlockIndex bt (hashGenesisBlock params) \<noteq> None"
  shows "tree_ok bt' \<and> times_ok (bt_store bt') \<and> bt_store bt \<subseteq>\<^sub>m bt_store bt' \<and> mapBlockIndex bt \<subseteq>\<^sub>m mapBlockIndex bt'"
  by (rule header_reach_inv [OF assms])

section \<open>A tree with one block\<close>

definition first_header :: CBlockHeader where
  "first_header = \<lparr>bh_nVersion = 4, hashPrevBlock = uint256_null, hashMerkleRoot = uint256_null,
     hashFinalSaplingRoot = uint256_null, bh_nTime = 1, bh_nBits = 0x1d00ffff, bh_nNonce = uint256_null, bh_nSolution = []\<rparr>"

definition first_params :: ConsensusParams where
  "first_params = main_consensus\<lparr>hashGenesisBlock := CBlockHeader_GetHash first_header\<rparr>"

definition other_params :: ConsensusParams where
  "other_params = main_consensus\<lparr>hashGenesisBlock := map NOT (CBlockHeader_GetHash first_header)\<rparr>"

definition sample_env :: HeaderEnv where
  "sample_env = \<lparr>env_now = 1000, env_newTimeRule = 0, fCheckpointsEnabled = False, mapCheckpoints = [],
     env_eh = (\<lambda>_ _ _ _ _ _. True)\<rparr>"

lemma pow_params_ok_genesis [simp]: "pow_params_ok (p\<lparr>hashGenesisBlock := h\<rparr>) = pow_params_ok p"
  by (simp add: pow_params_ok_def params_ok_def AveragingWindowTimespan_def MinActualTimespan_def MaxActualTimespan_def
      lwma_divisor_def)

lemma params_samples: "pow_params_ok first_params" "pow_params_ok other_params"
  by (simp_all add: first_params_def other_params_def pow_params_ok_main)

lemma map_NOT_neq: "xs \<noteq> [] \<Longrightarrow> xs \<noteq> map NOT (xs :: 'a :: len word list)"
  by (cases xs) (auto simp: bit_eq_iff bit_simps intro!: exI [of _ 0])

lemma CBlockHeader_GetHash_ne [simp]: "CBlockHeader_GetHash block \<noteq> []"
proof -
  have "CBlockHeader_GetHash block = Hash1 (ser_CBlockHeader block)"
    by (simp add: CBlockHeader_GetHash_def SerializeHash_def CHashWriter_GetHash_def CHashWriter_write_def CHashWriter_new_def Hash1_def)
  then show ?thesis by (simp flip: length_greater_0_conv)
qed

lemma hash_not_other: "CBlockHeader_GetHash first_header \<noteq> hashGenesisBlock other_params"
  using map_NOT_neq [of "CBlockHeader_GetHash first_header"] by (simp add: other_params_def)

theorem accept_header_well_formed_witness:
  "exec_all (\<lambda>(bt', a). tree_ok bt' \<and> mapBlockIndex bt' (CBlockHeader_GetHash first_header) = Some a)
    (AcceptBlockHeader sample_env other_params tree_empty first_header)"
  by (rule exec_all_mono [OF accept_header_well_formed [OF tree_ok_empty params_samples(2) hash_not_other]]) auto

definition first_entry :: CBlockIndex where
  "first_entry = (CBlockIndex_new first_header)\<lparr>phashBlock := Some (CBlockHeader_GetHash first_header),
     nChainWork := (case GetBlockProof 0x1d00ffff :: (unit, arith_uint256) exec of Inl _ \<Rightarrow> [] | Inr w \<Rightarrow> w)\<rparr>"

definition first_tree :: BlockTree where
  "first_tree = tree_insert tree_empty (CBlockHeader_GetHash first_header) first_entry True"

lemma first_tree_ok: "tree_ok first_tree" "times_ok (bt_store first_tree)"
  "mapBlockIndex first_tree (CBlockHeader_GetHash first_header) = Some 0"
proof -
  obtain w where w: "(GetBlockProof 0x1d00ffff :: (unit, arith_uint256) exec) = Inr w" "au_wf w" "au_val w = block_work 0x1d00ffff"
    using GetBlockProof_total [where 'e = unit] by blast
  have e: "phashBlock first_entry = Some (CBlockHeader_GetHash first_header)" "nChainWork first_entry = w"
    "pprev first_entry = None" "pskip first_entry = None" "bi_nHeight first_entry = 0" "bi_nBits first_entry = 0x1d00ffff"
    by (simp_all add: first_entry_def CBlockIndex_new_def CBlockIndex_null_def first_header_def w(1))
  have l: "link_ok (bt_store tree_empty) first_entry" using e by (simp add: link_ok_def)
  have v: "au_val (nChainWork first_entry) = (parent_work (bt_store tree_empty) first_entry + block_work (bi_nBits first_entry)) mod 2 ^ 256"
    using e w(2,3) au_val_256 [OF w(2)] by (simp add: parent_work_def)
  show "tree_ok first_tree" unfolding first_tree_def
    by (rule tree_ok_insert [OF tree_ok_empty _ e(1) _ l v]) (use e w(2) in \<open>simp_all add: tree_empty_def\<close>)
  show "times_ok (bt_store first_tree)"
    using e(3) by (auto simp: times_ok_def first_tree_def tree_empty_def split: if_splits)
  show "mapBlockIndex first_tree (CBlockHeader_GetHash first_header) = Some 0" by (simp add: first_tree_def tree_empty_def)
qed

lemma first_tree_reach: "header_reach first_params first_tree first_tree"
proof (rule header_reach.accept [OF header_reach.start])
  have "nStatus first_entry = 0" by (simp add: first_entry_def CBlockIndex_new_def CBlockIndex_null_def)
  then show "AcceptBlockHeader sample_env first_params first_tree first_header = Inr (first_tree, 0)"
    using first_tree_ok(3) by (simp add: AcceptBlockHeader_def deref_def first_tree_def tree_empty_def)
qed

theorem reachable_headers_witness:
  "header_reach first_params first_tree first_tree \<and> tree_ok first_tree \<and> times_ok (bt_store first_tree) \<and>
   mapBlockIndex first_tree (CBlockHeader_GetHash first_header) = Some 0"
  using reachable_headers [OF first_tree_reach params_samples(1) first_tree_ok(1,2)] first_tree_ok(3) first_tree_reach
  by (simp add: first_params_def)

end
