(* ===== verification/Spec2Isabelle.thy ===== *)
theory Spec2Isabelle
  imports Coins_Facts Coins_Tx Interp_Effects Merkle Rewards Sig_Facts Tree_Facts
begin

text \<open>
  A verification library of the Gemlink node (a full node in C++ derived from Zcash and Bitcoin), for the
  parts of \<open>src/src\<close> that decide what the network agrees on. This header says what the parts are, where
  each is modelled, what is proved about it, and what is left out.

  \<^bold>\<open>The program.\<close> Bytes from the network or from disk are parsed into transactions, headers and blocks
  (\<open>serialize.h\<close>, \<open>primitives/\<close>). A header is checked against its parent (\<open>main.cpp\<close>, \<open>pow.cpp\<close>) and
  becomes an entry of the block index (\<open>chain.h\<close>), from which the active chain and the difficulty are
  computed. Blocks commit to their transactions by a Merkle tree (\<open>primitives/block.cpp\<close>); the
  transactions spend outputs of the coins view (\<open>coins.h\<close>, \<open>undo.h\<close>) under the conditions that scripts
  state (\<open>script/\<close>), and the coinbase pays the rewards that the height prescribes (\<open>main.cpp\<close>,
  \<open>masternode-payments.cpp\<close>, \<open>masternode-budget.cpp\<close>, \<open>chainparams.cpp\<close>).

  \<^bold>\<open>Conventions\<close> (theory Prelude). Fallible code returns \<open>('e, 'a) exec\<close>: a result, an error value
  (\<open>Fail\<close>), a C++ exception (\<open>Throw\<close>), or \<open>Abort\<close> for a failed assertion, an index out of range or a
  null pointer. \<open>exec_all P m\<close> says that \<open>m\<close> does not abort and that its result satisfies \<open>P\<close>; the
  collection \<open>wp_simps\<close> computes it. Unsigned integers are words of their width; \<open>int\<close> and \<open>int64_t\<close> are
  integers, with the conversions to unsigned written out where the code relies on them. Objects on the
  heap that are shared by pointers (the block index) live in an explicit store from addresses to records.

  \<^bold>\<open>Hashes\<close> (Md_Hash, Sha256, Sha1, Ripemd160, Hash: \<open>crypto/*.cpp\<close>, \<open>hash.h\<close>). The buffering
  \<open>Write\<close> and \<open>Finalize\<close> of the three hashers follow the code; the locale \<open>stream_hasher\<close> states the
  contract of a streaming hash, and its interpretations show that any way of cutting the input into
  pieces gives the digest of the concatenation.

  \<^bold>\<open>Scripts\<close> (Script, Script_Num, Script_Facts: \<open>script/script.h\<close>, \<open>script.cpp\<close>; Script_Checks,
  Interpreter: \<open>script/interpreter.cpp\<close>). Opcode parsing, script numbers, every opcode and
  \<open>EvalScript\<close> and \<open>VerifyScript\<close>; signature checks are functions of the context record. Interp_Limits
  proves the resource limits and that no assertion fails, Interp_Flags that stricter flags accept
  less (with one exception, which is proved necessary), Interp_Effects the multisignature and pay-to-public-key-hash
  conditions, Sig_Facts
  the exact language of signature encodings.

  \<^bold>\<open>256-bit integers\<close> (Arith_Uint256, Arith_Facts: \<open>arith_uint256.cpp\<close>). The limb loops, refined to
  arithmetic modulo \<open>2^256\<close> through the locale \<open>uint256_arith\<close>, and the compact format.

  \<^bold>\<open>Serialization\<close> (Serialize, Amount, Transaction, Block). The locale \<open>codec\<close> is the contract of a
  pair of serializer and reader: the reader accepts exactly the encodings. Every type has an
  interpretation, up to whole transactions and blocks.

  \<^bold>\<open>Parameters and rewards\<close> (Chain_Params, Validation, Rewards: \<open>chainparams.cpp\<close>,
  \<open>consensus/upgrades.cpp\<close>, \<open>consensus/validation.h\<close>, parts of \<open>main.cpp\<close> and of the masternode
  files). Upgrade epochs, subsidies, the checks of the coinbase and the code that fills it.

  \<^bold>\<open>Merkle trees\<close> (Block, Merkle). The loops of \<open>BuildMerkleTree\<close>, refined to levels of pairs; roots
  bind the transactions up to an explicit hash collision, if the mutation flag is not set.

  \<^bold>\<open>Block index and active chain\<close> (Block_Index, Index_Facts, Chain_Facts: \<open>chain.h\<close>, \<open>chain.cpp\<close>).
  \<open>index_ok\<close> is the well-formedness of the store; skip pointers find exactly the ancestors, and the
  loops over pointers (\<open>partial_function (option)\<close>, where not returning is \<open>None\<close>) return.

  \<^bold>\<open>Proof of work\<close> (Pow, Pow_Facts: \<open>pow.cpp\<close>). Both difficulty algorithms and the check of a hash.

  \<^bold>\<open>Tree of headers\<close> (Block_Tree, Tree_Facts: \<open>main.cpp\<close>, \<open>checkpoints.cpp\<close>). \<open>tree_ok\<close> is the invariant of
  \<open>mapBlockIndex\<close>; \<open>header_reach\<close> is the step relation of accepting headers, and its invariants are
  proved by rule induction.

  \<^bold>\<open>Bounds and fuel.\<close> No definition has fuel: loops are structural, have a measure, or are partial
  functions that are proved to return. Heights are integers; that they fit 32 bits is a hypothesis only
  where a bound needs it. Vector sizes are not bounded by memory.

  \<^bold>\<open>Not modelled.\<close> The elliptic curve, zero-knowledge and Equihash verifiers and LevelDB are libraries; where
  the code calls them they are parameters. Wallet, RPC, HTTP, the peer-to-peer network, masternode gossip
  and voting, mempool policy, mining and start-up are driven by sockets, threads, clocks and files, and
  their state is not part of what is modelled here. Memory statistics, logging and locks have no
  counterpart.
\<close>

end
